(* ===== verification/Prelude.thy ===== *)
theory Prelude
  imports Main "HOL-Library.Word" "HOL-Library.Multiset"
begin

text \<open>
  Shared vocabulary of the development: machine integers, the outcome of a Rust
  function (a value, a value of the crate's error type, or a panic), and the generic
  facts on lists, words and folds that the components use.

  Integer arithmetic follows the release profile the README builds with
  (\<^verbatim>\<open>cargo build --release\<close>): fixed-width arithmetic wraps around, so a Rust
  integer is a word of its width. A \<^verbatim>\<open>usize\<close> that only counts or indexes
  elements of a container is a natural number.
\<close>

unbundle bit_operations_syntax

type_synonym u8 = "8 word"
type_synonym u16 = "16 word"
type_synonym u32 = "32 word"
type_synonym u64 = "64 word"
type_synonym i32 = "32 word"
type_synonym bytes = "8 word list"
type_synonym hash = "8 word list"

section \<open>Outcomes of fallible code\<close>

text \<open>
  \<^verbatim>\<open>src/error.rs\<close>: the crate's unified error. The payload of the foreign error
  types (\<^verbatim>\<open>bitcoin_wallet\<close>, \<^verbatim>\<open>io\<close>, \<^verbatim>\<open>rusqlite\<close>, script) is kept as the
  text or the kind the sources distinguish.
\<close>

datatype io_error = InvalidInput | AddrNotAvailable

datatype sql_error = QueryReturnedNoRows | ConstraintViolation

datatype error =
    Unsupported string
  | Wallet string
  | IO io_error
  | DB sql_error
  | Script string

text \<open>Why a thread panicked: the Rust construct that raised it.\<close>

datatype panic =
    Assert_failed
  | Index_out_of_bounds
  | Rem_by_zero
  | Div_by_zero
  | Unwrap_failed
  | Expect_failed string

datatype 'a outcome = Ok 'a | Err error | Panic panic

text \<open>The \<^verbatim>\<open>?\<close> operator: errors return early, panics unwind.\<close>

fun obind :: "'a outcome \<Rightarrow> ('a \<Rightarrow> 'b outcome) \<Rightarrow> 'b outcome" where
  "obind (Ok v) f = f v"
| "obind (Err e) f = Err e"
| "obind (Panic p) f = Panic p"

text \<open>\<^verbatim>\<open>Option::unwrap\<close> and \<^verbatim>\<open>Option::expect\<close>.\<close>

definition unwrap :: "'a option \<Rightarrow> 'a outcome" where
  "unwrap x = (case x of None \<Rightarrow> Panic Unwrap_failed | Some v \<Rightarrow> Ok v)"

definition expect :: "string \<Rightarrow> 'a option \<Rightarrow> 'a outcome" where
  "expect m x = (case x of None \<Rightarrow> Panic (Expect_failed m) | Some v \<Rightarrow> Ok v)"

text \<open>\<^verbatim>\<open>Result::expect\<close>: an error becomes a panic.\<close>

fun expect_ok :: "string \<Rightarrow> 'a outcome \<Rightarrow> 'a outcome" where
  "expect_ok m (Ok v) = Ok v"
| "expect_ok m (Err e) = Panic (Expect_failed m)"
| "expect_ok m (Panic p) = Panic p"

text \<open>A Rust \<^verbatim>\<open>for\<close> loop whose body may fail: stop at the first failure.\<close>

fun ofold :: "('x \<Rightarrow> 's \<Rightarrow> 's outcome) \<Rightarrow> 'x list \<Rightarrow> 's \<Rightarrow> 's outcome" where
  "ofold f [] s = Ok s"
| "ofold f (x # xs) s = obind (f x s) (ofold f xs)"

text \<open>Collecting the results of a fallible function over a list.\<close>

fun omap :: "('x \<Rightarrow> 'y outcome) \<Rightarrow> 'x list \<Rightarrow> 'y list outcome" where
  "omap f [] = Ok []"
| "omap f (x # xs) = obind (f x) (\<lambda>y. obind (omap f xs) (\<lambda>ys. Ok (y # ys)))"

lemma obind_Ok_iff [simp]: "obind m f = Ok v \<longleftrightarrow> (\<exists>u. m = Ok u \<and> f u = Ok v)"
  by (cases m) auto

lemma obind_assoc: "obind (obind m f) g = obind m (\<lambda>x. obind (f x) g)"
  by (cases m) auto

lemma obind_return [simp]: "obind m Ok = m"
  by (cases m) auto

lemma expect_ok_iff [simp]: "expect_ok m x = Ok v \<longleftrightarrow> x = Ok v"
  by (cases x) auto

lemma unwrap_simps [simp]: "unwrap None = Panic Unwrap_failed" "unwrap (Some v) = Ok v"
  by (simp_all add: unwrap_def)

lemma unwrap_Ok_iff [simp]: "unwrap x = Ok v \<longleftrightarrow> x = Some v"
  by (cases x) auto

lemma expect_simps [simp]:
  "expect m None = Panic (Expect_failed m)" "expect m (Some v) = Ok v"
  by (simp_all add: expect_def)

lemma expect_Ok_iff [simp]: "expect m x = Ok v \<longleftrightarrow> x = Some v"
  by (cases x) auto

lemma ofold_Nil_fun [simp]: "ofold f [] = Ok"
  by (simp add: fun_eq_iff)

lemma ofold_append: "ofold f (xs @ ys) s = obind (ofold f xs s) (ofold f ys)"
proof (induction xs arbitrary: s)
  case (Cons x xs)
  then show ?case by (cases "f x s") auto
qed simp

lemma ofold_total:
  assumes "\<And>x s. x \<in> set xs \<Longrightarrow> f x s = Ok (g x s)"
  shows "ofold f xs s = Ok (fold g xs s)"
  using assms by (induction xs arbitrary: s) auto

lemma omap_total:
  assumes "\<And>x. x \<in> set xs \<Longrightarrow> f x = Ok (g x)"
  shows "omap f xs = Ok (map g xs)"
  using assms by (induction xs) auto

text \<open>A loop whose body agrees with a function that was mapped over the same list.\<close>

lemma omap_ofold:
  assumes "omap f xs = Ok ys"
    and "\<And>x y s. x \<in> set xs \<Longrightarrow> f x = Ok y \<Longrightarrow> g x s = Ok (h y s)"
  shows "ofold g xs s = Ok (fold h ys s)"
  using assms by (induction xs arbitrary: ys s) fastforce+

text \<open>A loop keeps an invariant that its body keeps.\<close>

lemma ofold_invariant:
  assumes "ofold f xs s = Ok t" and "I s"
    and "\<And>x s t. x \<in> set xs \<Longrightarrow> I s \<Longrightarrow> f x s = Ok t \<Longrightarrow> I t"
  shows "I t"
  using assms
proof (induction xs arbitrary: s)
  case Nil
  then show ?case by simp
next
  case (Cons x xs)
  from Cons.prems(1) obtain u where u: "f x s = Ok u" and rest: "ofold f xs u = Ok t"
    by auto
  from u Cons.prems(2,3) have "I u" by (auto intro: Cons.prems(3))
  with rest show ?case
    by (rule Cons.IH) (auto intro: Cons.prems(3))
qed

section \<open>Element-wise exclusive or\<close>

lemma word_xor_cancel [simp]: "(a XOR h) XOR h = (a :: 'a::len word)"
  by (simp add: xor.assoc)

text \<open>
  Fixed-size arrays of words are lists; both keys of the tables
  (\<^verbatim>\<open>ContentKey\<close>, \<^verbatim>\<open>NetAddress\<close>) combine by an element-wise \<^verbatim>\<open>^=\<close>
  over a \<^verbatim>\<open>zip\<close>.
\<close>

definition xor_words :: "'a::len word list \<Rightarrow> 'a word list \<Rightarrow> 'a word list" where
  "xor_words xs ys = map2 (XOR) xs ys"

lemma length_xor_words [simp]: "length (xor_words xs ys) = min (length xs) (length ys)"
  by (simp add: xor_words_def)

lemma nth_xor_words [simp]:
  "i < length xs \<Longrightarrow> i < length ys \<Longrightarrow> xor_words xs ys ! i = xs ! i XOR ys ! i"
  by (simp add: xor_words_def)

lemma xor_words_comm: "xor_words xs ys = xor_words ys xs"
  by (rule nth_equalityI) (auto simp: ac_simps)

lemma xor_words_assoc: "xor_words (xor_words xs ys) zs = xor_words xs (xor_words ys zs)"
  by (rule nth_equalityI) (auto simp: ac_simps)

lemma xor_words_left_comm: "xor_words xs (xor_words ys zs) = xor_words ys (xor_words xs zs)"
  by (rule nth_equalityI) (auto simp: ac_simps)

lemmas xor_words_ac = xor_words_assoc xor_words_comm xor_words_left_comm

lemma xor_words_zero: "length xs = n \<Longrightarrow> xor_words xs (replicate n 0) = xs"
  by (rule nth_equalityI) auto

lemma xor_words_self: "length xs = n \<Longrightarrow> xor_words xs xs = replicate n 0"
  by (rule nth_equalityI) auto

section \<open>Widening\<close>

lemma unat_ucast_u32_u64 [simp]: "unat (ucast (w :: u32) :: u64) = unat w"
proof -
  have "unat w < 2 ^ 64" using unsigned_less [of w, where ?'a = nat] by simp
  then show ?thesis by (simp add: unsigned_ucast_eq take_bit_nat_eq_self)
qed

lemma unat_ucast_u16_u64 [simp]: "unat (ucast (w :: u16) :: u64) = unat w"
proof -
  have "unat w < 2 ^ 64" using unsigned_less [of w, where ?'a = nat] by simp
  then show ?thesis by (simp add: unsigned_ucast_eq take_bit_nat_eq_self)
qed

lemma unat_ucast_u16_u32 [simp]: "unat (ucast (w :: u16) :: u32) = unat w"
proof -
  have "unat w < 2 ^ 32" using unsigned_less [of w, where ?'a = nat] by simp
  then show ?thesis by (simp add: unsigned_ucast_eq take_bit_nat_eq_self)
qed

end
