(* ===== verification/Iblt_Key.thy ===== *)
theory Iblt_Key
  imports Prelude
begin

text \<open>
  The key trait of the lookup tables (\<^verbatim>\<open>src/iblt.rs\<close>, \<^verbatim>\<open>IBLTKey\<close>) and its
  implementation by \<^verbatim>\<open>ContentKey\<close> (\<^verbatim>\<open>src/content.rs\<close>); the one by
  \<^verbatim>\<open>NetAddress\<close> is in the theory \<open>Net_Address\<close>. A trait bound \<^verbatim>\<open>K: IBLTKey\<close> is
  a dictionary passed as an argument; its algebraic laws are the locale
  \<open>iblt_key\<close>, interpreted on both implementations.
\<close>

section \<open>Foreign hashing code\<close>

text \<open>
  The crates \<^verbatim>\<open>siphasher\<close> and \<^verbatim>\<open>byteorder\<close> are parameters. A
  \<^verbatim>\<open>SipHasher\<close> is a function of its two keys and of the sequence of slices
  written to it before \<^verbatim>\<open>finish\<close>.
\<close>

record hash_crates =
  siphash :: "u64 \<Rightarrow> u64 \<Rightarrow> bytes list \<Rightarrow> u64"
  be_u64 :: "u64 \<Rightarrow> bytes"
  le_u16 :: "u16 \<Rightarrow> bytes"

section \<open>The key trait\<close>

record 'k key_ops =
  key_xor :: "'k \<Rightarrow> 'k \<Rightarrow> 'k"
  key_default :: 'k
  hash_to_u64_with_keys :: "'k \<Rightarrow> u64 \<Rightarrow> u64 \<Rightarrow> u64"

text \<open>
  What a table relies on: on the values of the key type the exclusive or is a
  commutative group operation in which every key is its own inverse.
\<close>

locale iblt_key =
  fixes K :: "'k key_ops" and valid :: "'k \<Rightarrow> bool"
  assumes valid_default: "valid (key_default K)"
    and valid_xor: "valid a \<Longrightarrow> valid b \<Longrightarrow> valid (key_xor K a b)"
    and xor_comm: "valid a \<Longrightarrow> valid b \<Longrightarrow> key_xor K a b = key_xor K b a"
    and xor_assoc: "valid a \<Longrightarrow> valid b \<Longrightarrow> valid c \<Longrightarrow>
          key_xor K (key_xor K a b) c = key_xor K a (key_xor K b c)"
    and xor_default: "valid a \<Longrightarrow> key_xor K a (key_default K) = a"
    and xor_self: "valid a \<Longrightarrow> key_xor K a a = key_default K"
begin

lemma xor_default_left: "valid a \<Longrightarrow> key_xor K (key_default K) a = a"
  by (metis valid_default xor_comm xor_default)

lemma xor_cancel: "valid a \<Longrightarrow> valid b \<Longrightarrow> key_xor K (key_xor K a b) b = a"
  by (simp add: xor_assoc xor_self xor_default)

lemma xor_right_commute:
  "valid a \<Longrightarrow> valid b \<Longrightarrow> valid c \<Longrightarrow>
     key_xor K (key_xor K a b) c = key_xor K (key_xor K a c) b"
  by (metis xor_assoc xor_comm)

end

text \<open>The trait of key sets, as \<^verbatim>\<open>HashSet\<close> implements it: whether the set changed, and the set.\<close>

definition keyset_insert :: "'k set \<Rightarrow> 'k \<Rightarrow> bool \<times> 'k set" where
  "keyset_insert s key = (key \<notin> s, insert key s)"

definition keyset_remove :: "'k set \<Rightarrow> 'k \<Rightarrow> bool \<times> 'k set" where
  "keyset_remove s key = (key \<in> s, s - {key})"

lemma keyset_remove_insert: "fst (keyset_insert s k) \<Longrightarrow> keyset_remove (snd (keyset_insert s k)) k = (True, s)"
  by (auto simp: keyset_insert_def keyset_remove_def)

section \<open>Content keys\<close>

definition DIGEST_LEN :: nat where
  "DIGEST_LEN = 32"

record content_key =
  digest :: bytes

definition content_key_bitxor_assign :: "content_key \<Rightarrow> content_key \<Rightarrow> content_key" where
  "content_key_bitxor_assign a rhs = \<lparr>digest = xor_words (digest a) (digest rhs)\<rparr>"

definition content_key_hash :: "hash_crates \<Rightarrow> content_key \<Rightarrow> u64 \<Rightarrow> u64 \<Rightarrow> u64" where
  "content_key_hash H a k0 k1 = siphash H k0 k1 [digest a]"

definition content_key_default :: content_key where
  "content_key_default = \<lparr>digest = replicate DIGEST_LEN 0\<rparr>"

definition content_key_ops :: "hash_crates \<Rightarrow> content_key key_ops" where
  "content_key_ops H =
     \<lparr>key_xor = content_key_bitxor_assign, key_default = content_key_default,
      hash_to_u64_with_keys = content_key_hash H\<rparr>"

definition content_key_new :: "bytes \<Rightarrow> content_key outcome" where
  "content_key_new h =
     (if length h = DIGEST_LEN then Ok \<lparr>digest = h\<rparr> else Panic Assert_failed)"

text \<open>The array type \<^verbatim>\<open>[u8; DIGEST_LEN]\<close>.\<close>

definition content_key_wf :: "content_key \<Rightarrow> bool" where
  "content_key_wf a \<longleftrightarrow> length (digest a) = DIGEST_LEN"

lemma content_key_ops_simps [simp]:
  "key_xor (content_key_ops H) = content_key_bitxor_assign"
  "key_default (content_key_ops H) = content_key_default"
  "hash_to_u64_with_keys (content_key_ops H) = content_key_hash H"
  by (simp_all add: content_key_ops_def)

lemma content_key_new_wf: "content_key_new h = Ok a \<longleftrightarrow> content_key_wf a \<and> digest a = h"
  by (cases a) (auto simp: content_key_new_def content_key_wf_def)

interpretation content_key: iblt_key "content_key_ops H" content_key_wf for H
  by unfold_locales
    (auto simp: content_key_wf_def content_key_bitxor_assign_def content_key_default_def
      xor_words_ac xor_words_zero xor_words_self)

end
