(* ===== verification/Iblt.thy ===== *)
theory Iblt
  imports Iblt_Key
begin

text \<open>
  Invertible Bloom lookup tables, \<^verbatim>\<open>src/iblt.rs\<close>: the table, its hash schedule,
  the iterator over the buckets of a key, insertion, deletion and subtraction.
  The listing of a table is in \<open>Iblt_Decode\<close>, the sketches in \<open>Sketch\<close>.
\<close>

section \<open>Tables\<close>

definition K_MAX :: nat where
  "K_MAX = 6"

record 'k bucket =
  keysum :: 'k
  hashsum :: u64
  bcount :: i32

record 'k iblt =
  buckets :: "'k bucket list"
  iblt_k0 :: u64
  iblt_k1 :: u64
  iblt_k :: nat
  iblt_ksequence :: "(u64 \<times> u64) list"

definition bucket_default :: "'k key_ops \<Rightarrow> 'k bucket" where
  "bucket_default K = \<lparr>keysum = key_default K, hashsum = 0, bcount = 0\<rparr>"

definition hash_slice_to_u64_with_keys :: "hash_crates \<Rightarrow> u64 \<Rightarrow> u64 \<Rightarrow> bytes \<Rightarrow> u64" where
  "hash_slice_to_u64_with_keys H k0 k1 s = siphash H k0 k1 [s]"

text \<open>The loop of \<open>generate_ksequence\<close>: both keys are rehashed in every round.\<close>

fun generate_ksequence :: "hash_crates \<Rightarrow> nat \<Rightarrow> u64 \<Rightarrow> u64 \<Rightarrow> (u64 \<times> u64) list" where
  "generate_ksequence H 0 k0 k1 = []"
| "generate_ksequence H (Suc n) k0 k1 =
     (let k0' = hash_slice_to_u64_with_keys H k0 k1 (be_u64 H k0);
          k1' = hash_slice_to_u64_with_keys H k0' k1 (be_u64 H k1)
      in (k0', k1') # generate_ksequence H n k0' k1')"

definition iblt_new :: "hash_crates \<Rightarrow> 'k key_ops \<Rightarrow> u32 \<Rightarrow> nat \<Rightarrow> u64 \<Rightarrow> u64 \<Rightarrow> 'k iblt outcome" where
  "iblt_new H K m k k0 k1 =
     (if k \<le> K_MAX
      then Ok \<lparr>buckets = replicate (unat m) (bucket_default K), iblt_k0 = k0, iblt_k1 = k1,
               iblt_k = k, iblt_ksequence = generate_ksequence H k k0 k1\<rparr>
      else Panic Assert_failed)"

definition iblt_len :: "'k iblt \<Rightarrow> u32" where
  "iblt_len t = of_nat (length (buckets t))"

definition keyhash :: "'k key_ops \<Rightarrow> 'k iblt \<Rightarrow> 'k \<Rightarrow> u64" where
  "keyhash K t key = hash_to_u64_with_keys K key (iblt_k0 t) (iblt_k1 t)"

section \<open>The buckets of a key\<close>

record bucket_iterator =
  bi_buckets :: "nat list"
  bi_pos :: nat
  bi_last :: nat
  bi_k :: nat

text \<open>
  \<open>BucketIterator::new\<close> fills the fixed array \<^verbatim>\<open>[usize; K_MAX]\<close> in the order of
  the hash schedule and sorts its used prefix. A schedule longer than the array indexes
  out of bounds, and a table without buckets takes a remainder by zero.
\<close>

fun fill_buckets ::
  "'k key_ops \<Rightarrow> 'k \<Rightarrow> nat \<Rightarrow> (u64 \<times> u64) list \<Rightarrow> nat \<Rightarrow> nat list \<Rightarrow> nat list outcome" where
  "fill_buckets K key len [] i bs = Ok bs"
| "fill_buckets K key len ((k0, k1) # ks) i bs =
     (if len = 0 then Panic Rem_by_zero
      else if i < length bs
      then fill_buckets K key len ks (Suc i)
             (bs[i := unat (hash_to_u64_with_keys K key k0 k1) mod len])
      else Panic Index_out_of_bounds)"

definition bucket_iterator_new :: "'k key_ops \<Rightarrow> 'k iblt \<Rightarrow> 'k \<Rightarrow> bucket_iterator outcome" where
  "bucket_iterator_new K t key =
     obind (fill_buckets K key (length (buckets t)) (iblt_ksequence t) 0 (replicate K_MAX 0))
       (\<lambda>bs. let k = length (iblt_ksequence t)
             in Ok \<lparr>bi_buckets = sort (take k bs) @ drop k bs, bi_pos = 0, bi_last = 0, bi_k = k\<rparr>)"

text \<open>The \<open>while\<close> loop of \<open>next\<close>: skip the repetitions of the last index.\<close>

function skip_equal :: "nat list \<Rightarrow> nat \<Rightarrow> nat \<Rightarrow> nat \<Rightarrow> nat" where
  "skip_equal bs l pos k =
     (if pos < k \<and> l = bs ! pos then skip_equal bs l (Suc pos) k else pos)"
  by pat_completeness auto
termination
  by (relation "measure (\<lambda>(bs, l, pos, k). k - pos)") auto

declare skip_equal.simps [simp del]

definition bucket_iterator_next :: "bucket_iterator \<Rightarrow> nat option \<times> bucket_iterator" where
  "bucket_iterator_next b =
     (let pos = (if bi_pos b > 0 then skip_equal (bi_buckets b) (bi_last b) (bi_pos b) (bi_k b)
                 else bi_pos b)
      in if pos = bi_k b then (None, b\<lparr>bi_pos := pos\<rparr>)
         else (Some (bi_buckets b ! pos),
               b\<lparr>bi_pos := Suc pos, bi_last := bi_buckets b ! pos\<rparr>))"

text \<open>
  What a \<^verbatim>\<open>for n in self.buckets(key)\<close> loop visits: \<open>next\<close> is called until it
  returns nothing. Every call that returns an index moves \<open>pos\<close> forward and never
  past \<open>k\<close>, so \<open>k + 1\<close> calls are enough (\<open>iterate_buckets_total\<close>).
\<close>

fun iterate_buckets :: "nat \<Rightarrow> bucket_iterator \<Rightarrow> nat list option" where
  "iterate_buckets 0 b = None"
| "iterate_buckets (Suc fuel) b =
     (case bucket_iterator_next b of
        (None, _) \<Rightarrow> Some []
      | (Some n, b') \<Rightarrow> map_option ((#) n) (iterate_buckets fuel b'))"

definition key_buckets :: "'k key_ops \<Rightarrow> 'k iblt \<Rightarrow> 'k \<Rightarrow> nat list outcome" where
  "key_buckets K t key =
     obind (bucket_iterator_new K t key) (\<lambda>b. unwrap (iterate_buckets (Suc (bi_k b)) b))"

section \<open>Insertion, deletion, subtraction\<close>

definition add_to_bucket :: "'k key_ops \<Rightarrow> 'k \<Rightarrow> u64 \<Rightarrow> i32 \<Rightarrow> 'k bucket \<Rightarrow> 'k bucket" where
  "add_to_bucket K key h d b =
     b\<lparr>keysum := key_xor K (keysum b) key, bcount := bcount b + d,
       hashsum := hashsum b XOR h\<rparr>"

definition update_bucket :: "nat \<Rightarrow> ('k bucket \<Rightarrow> 'k bucket) \<Rightarrow> 'k iblt \<Rightarrow> 'k iblt" where
  "update_bucket n f t = t\<lparr>buckets := (buckets t)[n := f (buckets t ! n)]\<rparr>"

definition iblt_insert :: "'k key_ops \<Rightarrow> 'k iblt \<Rightarrow> 'k \<Rightarrow> 'k iblt outcome" where
  "iblt_insert K t key =
     (let h = keyhash K t key
      in obind (key_buckets K t key)
           (\<lambda>ns. Ok (fold (\<lambda>n. update_bucket n (add_to_bucket K key h 1)) ns t)))"

definition iblt_delete :: "'k key_ops \<Rightarrow> 'k iblt \<Rightarrow> 'k \<Rightarrow> 'k iblt outcome" where
  "iblt_delete K t key =
     (let h = keyhash K t key
      in obind (key_buckets K t key)
           (\<lambda>ns. Ok (fold (\<lambda>n. update_bucket n (add_to_bucket K key h (-1))) ns t)))"

text \<open>Inserting the keys of a query one after the other.\<close>

definition iblt_insert_all :: "'k key_ops \<Rightarrow> 'k list \<Rightarrow> 'k iblt \<Rightarrow> 'k iblt outcome" where
  "iblt_insert_all K ks t = ofold (\<lambda>key t. iblt_insert K t key) ks t"

definition sub_bucket :: "'k key_ops \<Rightarrow> 'k bucket \<Rightarrow> 'k bucket \<Rightarrow> 'k bucket" where
  "sub_bucket K b ob =
     b\<lparr>hashsum := hashsum b XOR hashsum ob, keysum := key_xor K (keysum b) (keysum ob),
       bcount := bcount b - bcount ob\<rparr>"

definition substract :: "'k key_ops \<Rightarrow> 'k iblt \<Rightarrow> 'k iblt \<Rightarrow> 'k iblt outcome" where
  "substract K t other =
     (if length (buckets t) = length (buckets other) \<and> iblt_k0 t = iblt_k0 other
         \<and> iblt_k1 t = iblt_k1 other \<and> iblt_k t = iblt_k other
      then Ok (t\<lparr>buckets := map2 (sub_bucket K) (buckets t) (buckets other)\<rparr>)
      else Panic Assert_failed)"

section \<open>The bucket iterator lists the distinct indices in ascending order\<close>

lemma skip_equal_bounds: "pos \<le> k \<Longrightarrow> pos \<le> skip_equal bs l pos k \<and> skip_equal bs l pos k \<le> k"
proof (induction bs l pos k rule: skip_equal.induct)
  case (1 bs l pos k)
  then show ?case by (subst (1 2) skip_equal.simps) force
qed

lemma drop_skip_equal:
  assumes "k \<le> length bs" and "pos \<le> k"
  shows "drop (skip_equal bs l pos k) (take k bs) = dropWhile (\<lambda>y. y = l) (drop pos (take k bs))"
  using assms
proof (induction bs l pos k rule: skip_equal.induct)
  case (1 bs l pos k)
  show ?case
  proof (cases "pos < k")
    case True
    then have "drop pos (take k bs) = bs ! pos # drop (Suc pos) (take k bs)"
      using "1.prems" by (simp add: Cons_nth_drop_Suc [symmetric])
    with 1 True show ?thesis by (subst skip_equal.simps) auto
  next
    case False
    then show ?thesis using "1.prems" by (subst skip_equal.simps) auto
  qed
qed

text \<open>The position at which the next index is read.\<close>

definition bi_start :: "bucket_iterator \<Rightarrow> nat" where
  "bi_start b = (if bi_pos b > 0 then skip_equal (bi_buckets b) (bi_last b) (bi_pos b) (bi_k b)
                 else bi_pos b)"

lemma iterate_buckets_eq:
  assumes "bi_k b \<le> length (bi_buckets b)" and "bi_pos b \<le> bi_k b"
    and "bi_k b - bi_pos b < fuel"
  shows "iterate_buckets fuel b =
    Some (remdups_adj (drop (bi_start b) (take (bi_k b) (bi_buckets b))))"
  using assms
proof (induction fuel arbitrary: b)
  case 0
  then show ?case by simp
next
  case (Suc fuel)
  let ?q = "bi_start b" and ?bs = "bi_buckets b" and ?k = "bi_k b"
  have q: "bi_pos b \<le> ?q" "?q \<le> ?k"
    using skip_equal_bounds Suc.prems(2) by (auto simp: bi_start_def)
  show ?case
  proof (cases "?q = ?k")
    case True
    then show ?thesis
      by (simp add: bucket_iterator_next_def bi_start_def [symmetric] Suc.prems(1))
  next
    case False
    let ?b = "b\<lparr>bi_pos := Suc ?q, bi_last := ?bs ! ?q\<rparr>"
    from False q have lt: "?q < ?k" by simp
    have "iterate_buckets fuel ?b =
        Some (remdups_adj (drop (bi_start ?b) (take ?k ?bs)))"
      using Suc.IH [of ?b] Suc.prems lt q by simp
    also have "drop (bi_start ?b) (take ?k ?bs)
        = dropWhile (\<lambda>y. y = ?bs ! ?q) (drop (Suc ?q) (take ?k ?bs))"
      using drop_skip_equal [of ?k ?bs "Suc ?q"] Suc.prems(1) lt by (simp add: bi_start_def)
    finally have rest: "iterate_buckets fuel ?b =
        Some (remdups_adj (dropWhile (\<lambda>y. y = ?bs ! ?q) (drop (Suc ?q) (take ?k ?bs))))" .
    have "drop ?q (take ?k ?bs) = ?bs ! ?q # drop (Suc ?q) (take ?k ?bs)"
      using lt Suc.prems(1) by (simp add: Cons_nth_drop_Suc [symmetric])
    with False rest show ?thesis
      by (simp add: bucket_iterator_next_def bi_start_def [symmetric] remdups_adj_Cons' Let_def)
  qed
qed

lemma fill_buckets_eq:
  assumes "0 < len" and "i + length ks \<le> length bs"
  shows "fill_buckets K key len ks i bs =
    Ok (take i bs @ map (\<lambda>(k0, k1). unat (hash_to_u64_with_keys K key k0 k1) mod len) ks
        @ drop (i + length ks) bs)"
  using assms
proof (induction ks arbitrary: i bs)
  case Nil
  then show ?case by simp
next
  case (Cons p ks)
  obtain k0 k1 where p: "p = (k0, k1)" by (cases p)
  from Cons.prems show ?case
    by (simp add: p Cons.IH take_Suc_conv_app_nth)
qed

text \<open>The reference definition: the distinct indices of the schedule, ascending.\<close>

definition key_indices :: "'k key_ops \<Rightarrow> 'k iblt \<Rightarrow> 'k \<Rightarrow> nat list" where
  "key_indices K t key =
     remdups_adj (sort (map (\<lambda>(k0, k1). unat (hash_to_u64_with_keys K key k0 k1) mod length (buckets t))
       (iblt_ksequence t)))"

text \<open>
  A table whose bucket iterators do not panic: the schedule fits the iterator's array, and
  a table that hashes has a bucket. Every table built by \<open>iblt_new\<close> with at least one
  bucket has it; a table received from a peer need not.
\<close>

definition iblt_ok :: "'k iblt \<Rightarrow> bool" where
  "iblt_ok t \<longleftrightarrow> length (iblt_ksequence t) \<le> K_MAX \<and> (iblt_ksequence t \<noteq> [] \<longrightarrow> buckets t \<noteq> [])"

lemma bucket_iterator_new_eq:
  assumes "iblt_ok t"
  shows "bucket_iterator_new K t key =
    Ok \<lparr>bi_buckets = sort (map (\<lambda>(k0, k1). unat (hash_to_u64_with_keys K key k0 k1)
             mod length (buckets t)) (iblt_ksequence t))
             @ replicate (K_MAX - length (iblt_ksequence t)) 0,
        bi_pos = 0, bi_last = 0, bi_k = length (iblt_ksequence t)\<rparr>"
proof (cases "iblt_ksequence t = []")
  case True
  then show ?thesis by (simp add: bucket_iterator_new_def)
next
  case False
  with assms show ?thesis
    by (simp add: bucket_iterator_new_def iblt_ok_def fill_buckets_eq Let_def)
qed

lemma key_buckets_eq:
  assumes "iblt_ok t"
  shows "key_buckets K t key = Ok (key_indices K t key)"
  unfolding key_buckets_def bucket_iterator_new_eq [OF assms]
  by (simp add: iterate_buckets_eq bi_start_def key_indices_def del: iterate_buckets.simps)

lemma distinct_remdups_adj_sorted:
  "sorted (xs :: nat list) \<Longrightarrow> distinct (remdups_adj xs)"
  by (induction xs rule: remdups_adj.induct) force+

lemma distinct_key_indices [simp]: "distinct (key_indices K t key)"
  by (simp add: key_indices_def distinct_remdups_adj_sorted)

lemma set_key_indices_bound:
  assumes "iblt_ok t"
  shows "set (key_indices K t key) \<subseteq> {..<length (buckets t)}"
  using assms by (auto simp: key_indices_def iblt_ok_def split_def)

lemma key_indices_nonempty: "iblt_ksequence t \<noteq> [] \<Longrightarrow> key_indices K t key \<noteq> []"
  by (auto simp: key_indices_def dest: arg_cong [where f = set])

section \<open>Tables as sums of signed keys\<close>

text \<open>
  The abstract view of a table: every bucket is the sum of the signed keys that hash to
  it. \<open>badd\<close> is the addition of buckets, \<open>bunit\<close> the bucket of one signed key.
\<close>

definition badd :: "'k key_ops \<Rightarrow> 'k bucket \<Rightarrow> 'k bucket \<Rightarrow> 'k bucket" where
  "badd K a b = \<lparr>keysum = key_xor K (keysum a) (keysum b), hashsum = hashsum a XOR hashsum b,
                 bcount = bcount a + bcount b\<rparr>"

definition bneg :: "'k bucket \<Rightarrow> 'k bucket" where
  "bneg b = b\<lparr>bcount := - bcount b\<rparr>"

definition bunit :: "'k key_ops \<Rightarrow> 'k iblt \<Rightarrow> 'k \<times> i32 \<Rightarrow> 'k bucket" where
  "bunit K t e = \<lparr>keysum = fst e, hashsum = keyhash K t (fst e), bcount = snd e\<rparr>"

definition bsum :: "'k key_ops \<Rightarrow> 'k iblt \<Rightarrow> ('k \<times> i32) list \<Rightarrow> 'k bucket" where
  "bsum K t es = foldr (\<lambda>e. badd K (bunit K t e)) es (bucket_default K)"

definition entries_at :: "'k key_ops \<Rightarrow> 'k iblt \<Rightarrow> nat \<Rightarrow> ('k \<times> i32) list \<Rightarrow> ('k \<times> i32) list" where
  "entries_at K t n es = filter (\<lambda>e. n \<in> set (key_indices K t (fst e))) es"

definition represents :: "'k key_ops \<Rightarrow> 'k iblt \<Rightarrow> ('k \<times> i32) list \<Rightarrow> bool" where
  "represents K t es \<longleftrightarrow>
     (\<forall>n < length (buckets t). buckets t ! n = bsum K t (entries_at K t n es))"

text \<open>The common part of insertion, deletion and peeling: add one signed key.\<close>

definition toggle :: "'k key_ops \<Rightarrow> 'k \<Rightarrow> i32 \<Rightarrow> 'k iblt \<Rightarrow> 'k iblt" where
  "toggle K key d t =
     t\<lparr>buckets := map (\<lambda>n. if n \<in> set (key_indices K t key)
          then add_to_bucket K key (keyhash K t key) d (buckets t ! n) else buckets t ! n)
        [0..<length (buckets t)]\<rparr>"

text \<open>Two tables with the same size and hash schedule.\<close>

definition same_shape :: "'k iblt \<Rightarrow> 'k iblt \<Rightarrow> bool" where
  "same_shape t u \<longleftrightarrow> length (buckets t) = length (buckets u) \<and> iblt_k0 t = iblt_k0 u
     \<and> iblt_k1 t = iblt_k1 u \<and> iblt_k t = iblt_k u \<and> iblt_ksequence t = iblt_ksequence u"

lemma same_shape_refl [simp]: "same_shape t t"
  by (simp add: same_shape_def)

lemma same_shape_sym: "same_shape t u \<Longrightarrow> same_shape u t"
  by (simp add: same_shape_def)

lemma same_shape_trans: "same_shape t u \<Longrightarrow> same_shape u v \<Longrightarrow> same_shape t v"
  by (simp add: same_shape_def)

lemma same_shape_length: "same_shape t u \<Longrightarrow> length (buckets t) = length (buckets u)"
  by (simp add: same_shape_def)

lemma same_shape_cong:
  assumes "same_shape t u"
  shows "key_indices K t = key_indices K u" and "keyhash K t = keyhash K u"
    and "iblt_ok t \<longleftrightarrow> iblt_ok u" and "bunit K t = bunit K u" and "bsum K t = bsum K u"
    and "entries_at K t = entries_at K u"
  using assms
  by (auto simp: same_shape_def key_indices_def keyhash_def iblt_ok_def bunit_def bsum_def
      entries_at_def fun_eq_iff)

lemma toggle_shape [simp]: "same_shape (toggle K key d t) t"
  by (simp add: same_shape_def toggle_def)

lemma update_bucket_shape: "same_shape (update_bucket n f t) t"
  by (simp add: same_shape_def update_bucket_def)

lemma fold_update_bucket:
  assumes "distinct ns" and "set ns \<subseteq> {..<length (buckets t)}"
  shows "fold (\<lambda>n. update_bucket n f) ns t =
    t\<lparr>buckets := map (\<lambda>n. if n \<in> set ns then f (buckets t ! n) else buckets t ! n)
        [0..<length (buckets t)]\<rparr>"
  using assms
proof (induction ns arbitrary: t)
  case Nil
  then show ?case by (simp add: map_nth)
next
  case (Cons n ns)
  then show ?case
    by (auto simp: update_bucket_def nth_list_update intro!: arg_cong [where f = "\<lambda>bs. t\<lparr>buckets := bs\<rparr>"])
qed

lemma fold_add_to_bucket:
  assumes "iblt_ok t"
  shows "fold (\<lambda>n. update_bucket n (add_to_bucket K key (keyhash K t key) d)) (key_indices K t key) t
    = toggle K key d t"
  by (simp add: fold_update_bucket set_key_indices_bound [OF assms] toggle_def)

lemma iblt_insert_toggle: "iblt_ok t \<Longrightarrow> iblt_insert K t key = Ok (toggle K key 1 t)"
  by (simp add: iblt_insert_def key_buckets_eq fold_add_to_bucket Let_def)

lemma iblt_delete_toggle: "iblt_ok t \<Longrightarrow> iblt_delete K t key = Ok (toggle K key (-1) t)"
  by (simp add: iblt_delete_def key_buckets_eq fold_add_to_bucket Let_def)

lemma iblt_ok_toggle [simp]: "iblt_ok (toggle K key d t) \<longleftrightarrow> iblt_ok t"
  by (rule same_shape_cong) simp

lemma iblt_eqI:
  assumes "same_shape t u"
    and "\<And>n. n < length (buckets t) \<Longrightarrow> buckets t ! n = buckets u ! n"
  shows "t = u"
proof -
  from assms have "buckets t = buckets u"
    by (auto simp: same_shape_def intro: nth_equalityI)
  with assms(1) show ?thesis by (cases t; cases u) (auto simp: same_shape_def)
qed

lemma represents_unique:
  "represents K t es \<Longrightarrow> represents K u es \<Longrightarrow> same_shape t u \<Longrightarrow> t = u"
  by (rule iblt_eqI) (auto simp: represents_def same_shape_cong [of t u] same_shape_def)

section \<open>The algebra of tables over any lawful key type\<close>

lemma bucket_eq_iff:
  "(a :: 'k bucket) = b \<longleftrightarrow> keysum a = keysum b \<and> hashsum a = hashsum b \<and> bcount a = bcount b"
  by (cases a; cases b) auto

lemma badd_sel [simp]:
  "keysum (badd K a b) = key_xor K (keysum a) (keysum b)"
  "hashsum (badd K a b) = hashsum a XOR hashsum b"
  "bcount (badd K a b) = bcount a + bcount b"
  by (simp_all add: badd_def)

lemma bneg_sel [simp]:
  "keysum (bneg b) = keysum b" "hashsum (bneg b) = hashsum b" "bcount (bneg b) = - bcount b"
  by (simp_all add: bneg_def)

lemma bunit_sel [simp]:
  "keysum (bunit K t e) = fst e" "hashsum (bunit K t e) = keyhash K t (fst e)"
  "bcount (bunit K t e) = snd e"
  by (simp_all add: bunit_def)

lemma bucket_default_sel [simp]:
  "keysum (bucket_default K) = key_default K" "hashsum (bucket_default K) = 0"
  "bcount (bucket_default K) = 0"
  by (simp_all add: bucket_default_def)

lemma add_to_bucket_badd:
  "add_to_bucket K key (keyhash K t key) d b = badd K b (bunit K t (key, d))"
  by (simp add: bucket_eq_iff add_to_bucket_def)

lemma length_toggle [simp]: "length (buckets (toggle K key d t)) = length (buckets t)"
  by (simp add: toggle_def)

lemma nth_toggle:
  "n < length (buckets t) \<Longrightarrow> buckets (toggle K key d t) ! n =
     (if n \<in> set (key_indices K t key) then badd K (buckets t ! n) (bunit K t (key, d))
      else buckets t ! n)"
  by (simp add: toggle_def add_to_bucket_badd)

lemma sub_bucket_badd: "sub_bucket K b ob = badd K b (bneg ob)"
  by (simp add: bucket_eq_iff sub_bucket_def)

lemma bsum_simps [simp]:
  "bsum K t [] = bucket_default K"
  "bsum K t (e # es) = badd K (bunit K t e) (bsum K t es)"
  by (simp_all add: bsum_def)

lemma entries_at_simps [simp]:
  "entries_at K t n [] = []"
  "entries_at K t n (e # es) =
     (if n \<in> set (key_indices K t (fst e)) then e # entries_at K t n es else entries_at K t n es)"
  "entries_at K t n (es @ fs) = entries_at K t n es @ entries_at K t n fs"
  by (simp_all add: entries_at_def)

lemma set_entries_at:
  "set (entries_at K t n es) = {e \<in> set es. n \<in> set (key_indices K t (fst e))}"
  by (auto simp: entries_at_def)

definition negate :: "'k \<times> i32 \<Rightarrow> 'k \<times> i32" where
  "negate e = (fst e, - snd e)"

lemma fst_negate [simp]: "fst (negate e) = fst e"
  by (simp add: negate_def)

lemma entries_at_negate:
  "entries_at K t n (map negate es) = map negate (entries_at K t n es)"
  by (simp add: entries_at_def filter_map comp_def)

text \<open>The keys of a list of entries are values of the key type.\<close>

definition valid_entries :: "('k \<Rightarrow> bool) \<Rightarrow> ('k \<times> i32) list \<Rightarrow> bool" where
  "valid_entries valid es \<longleftrightarrow> (\<forall>e \<in> set es. valid (fst e))"

lemma valid_entries_simps [simp]:
  "valid_entries valid []"
  "valid_entries valid (e # es) \<longleftrightarrow> valid (fst e) \<and> valid_entries valid es"
  "valid_entries valid (es @ fs) \<longleftrightarrow> valid_entries valid es \<and> valid_entries valid fs"
  "valid_entries valid (map negate es) \<longleftrightarrow> valid_entries valid es"
  by (auto simp: valid_entries_def)

lemma valid_entries_at: "valid_entries valid es \<Longrightarrow> valid_entries valid (entries_at K t n es)"
  by (auto simp: valid_entries_def set_entries_at)

context iblt_key
begin

lemma badd_comm: "valid (keysum a) \<Longrightarrow> valid (keysum b) \<Longrightarrow> badd K a b = badd K b a"
  by (simp add: bucket_eq_iff xor_comm ac_simps)

lemma badd_assoc:
  "valid (keysum a) \<Longrightarrow> valid (keysum b) \<Longrightarrow> valid (keysum c) \<Longrightarrow>
     badd K (badd K a b) c = badd K a (badd K b c)"
  by (simp add: bucket_eq_iff xor_assoc ac_simps)

lemma badd_left_comm:
  "valid (keysum a) \<Longrightarrow> valid (keysum b) \<Longrightarrow> valid (keysum c) \<Longrightarrow>
     badd K a (badd K b c) = badd K b (badd K a c)"
  by (metis badd_assoc badd_comm)

lemma badd_default [simp]: "valid (keysum a) \<Longrightarrow> badd K (bucket_default K) a = a"
  by (simp add: bucket_eq_iff xor_default_left)

lemma badd_default_right [simp]: "valid (keysum a) \<Longrightarrow> badd K a (bucket_default K) = a"
  by (simp add: bucket_eq_iff xor_default)

lemma valid_badd: "valid (keysum a) \<Longrightarrow> valid (keysum b) \<Longrightarrow> valid (keysum (badd K a b))"
  by (simp add: valid_xor)

lemma valid_bsum: "valid_entries valid es \<Longrightarrow> valid (keysum (bsum K t es))"
  by (induction es) (auto simp: valid_default valid_xor)

lemma bsum_append:
  assumes "valid_entries valid es" and "valid_entries valid fs"
  shows "bsum K t (es @ fs) = badd K (bsum K t es) (bsum K t fs)"
  using assms by (induction es) (auto simp: badd_assoc valid_bsum)

lemma bsum_remove1:
  assumes "valid_entries valid es" and "e \<in> set es"
  shows "bsum K t es = badd K (bunit K t e) (bsum K t (remove1 e es))"
  using assms
proof (induction es)
  case Nil
  then show ?case by simp
next
  case (Cons x es)
  show ?case
  proof (cases "x = e")
    case False
    have "valid_entries valid (remove1 e es)"
      using Cons.prems(1) by (auto simp: valid_entries_def dest: notin_set_remove1)
    moreover from Cons.prems False have "valid (fst e)" by (auto simp: valid_entries_def)
    ultimately show ?thesis
      using Cons False by (auto simp: badd_left_comm valid_bsum)
  qed simp
qed

lemma bsum_perm:
  assumes "mset es = mset fs" and "valid_entries valid es"
  shows "bsum K t es = bsum K t fs"
  using assms
proof (induction es arbitrary: fs)
  case Nil
  then show ?case by simp
next
  case (Cons e es)
  then have e: "e \<in> set fs" and m: "mset es = mset (remove1 e fs)"
    by (metis list.set_intros(1) mset_eq_setD, simp add: Cons.prems(1) [symmetric])
  have "valid_entries valid fs"
    using Cons.prems by (metis mset_eq_setD valid_entries_def)
  moreover have "bsum K t es = bsum K t (remove1 e fs)"
    using Cons.IH [OF m] Cons.prems(2) by simp
  ultimately show ?case by (simp add: bsum_remove1 [OF _ e])
qed

lemma bsum_negate: "valid_entries valid es \<Longrightarrow> bsum K t (map negate es) = bneg (bsum K t es)"
  by (induction es) (auto simp: bucket_eq_iff negate_def)

lemma represents_perm:
  assumes "represents K t es" and "mset es = mset fs" and "valid_entries valid es"
  shows "represents K t fs"
  using assms bsum_perm [OF _ valid_entries_at [OF assms(3)]]
  by (simp add: represents_def entries_at_def)

lemma represents_toggle:
  assumes "represents K t es" and "valid_entries valid es" and "valid key"
  shows "represents K (toggle K key d t) ((key, d) # es)"
  unfolding represents_def
proof (intro allI impI)
  fix n
  assume "n < length (buckets (toggle K key d t))"
  then have n: "n < length (buckets t)" by simp
  have "buckets t ! n = bsum K t (entries_at K t n es)"
    using assms(1) n by (simp add: represents_def)
  then show "buckets (toggle K key d t) ! n =
      bsum K (toggle K key d t) (entries_at K (toggle K key d t) n ((key, d) # es))"
    using n assms(3)
    by (simp add: same_shape_cong [OF toggle_shape] nth_toggle badd_comm
        valid_bsum [OF valid_entries_at [OF assms(2)]])
qed

lemma represents_cancel:
  assumes "represents K t ((key, d) # (key, - d) # es)" and "valid_entries valid es" and "valid key"
  shows "represents K t es"
proof -
  have "badd K (bunit K t (key, d)) (badd K (bunit K t (key, - d)) b) = b"
    if "valid (keysum b)" for b
    using that assms(3)
    by (simp add: bucket_eq_iff xor_assoc [symmetric] xor_self xor_default_left)
  with assms show ?thesis
    by (auto simp: represents_def valid_bsum valid_entries_at)
qed

lemma represents_sub:
  assumes "represents K t es" and "represents K u fs" and "same_shape t u"
    and "valid_entries valid es" and "valid_entries valid fs"
  shows "\<exists>v. substract K t u = Ok v \<and> same_shape v t \<and> represents K v (es @ map negate fs)"
proof -
  let ?v = "t\<lparr>buckets := map2 (sub_bucket K) (buckets t) (buckets u)\<rparr>"
  have len: "length (buckets u) = length (buckets t)"
    using assms(3) by (simp add: same_shape_def)
  have shape: "same_shape ?v t" by (simp add: same_shape_def len)
  have "represents K ?v (es @ map negate fs)"
    unfolding represents_def
    using assms(1,2) len valid_entries_at [OF assms(4)] valid_entries_at [OF assms(5)]
    by (auto simp: same_shape_cong [OF shape] same_shape_cong [OF assms(3)] represents_def
        entries_at_negate bsum_append bsum_negate sub_bucket_badd)
  with shape assms(3) show ?thesis
    by (auto simp: substract_def same_shape_def)
qed

lemma insert_all_represents:
  assumes "iblt_ok t" and "represents K t es" and "valid_entries valid es"
    and "\<forall>k \<in> set ks. valid k"
  shows "\<exists>u. iblt_insert_all K ks t = Ok u \<and> same_shape u t
    \<and> represents K u (rev (map (\<lambda>k. (k, 1)) ks) @ es)"
  using assms
proof (induction ks arbitrary: t es)
  case Nil
  then show ?case by (auto simp: iblt_insert_all_def)
next
  case (Cons k ks)
  let ?t = "toggle K k 1 t"
  have "represents K ?t ((k, 1) # es)"
    using Cons.prems by (intro represents_toggle) auto
  then obtain u where "iblt_insert_all K ks ?t = Ok u" and sh: "same_shape u ?t"
    and "represents K u (rev (map (\<lambda>k. (k, 1)) ks) @ (k, 1) # es)"
    using Cons.IH [of ?t "(k, 1) # es"] Cons.prems by auto
  moreover have "same_shape u t" using sh toggle_shape by (rule same_shape_trans)
  ultimately show ?case
    using Cons.prems(1) by (simp add: iblt_insert_all_def iblt_insert_toggle)
qed

lemma insert_all_perm:
  assumes "iblt_ok t" and "represents K t []" and "mset xs = mset ys" and "\<forall>x \<in> set xs. valid x"
  shows "iblt_insert_all K xs t = iblt_insert_all K ys t"
proof -
  let ?e = "\<lambda>ks. rev (map (\<lambda>k. (k, 1)) ks)"
  have ys: "\<forall>x \<in> set ys. valid x" using assms(3,4) by (metis mset_eq_setD)
  obtain u where u: "iblt_insert_all K xs t = Ok u" "same_shape u t" "represents K u (?e xs)"
    using insert_all_represents [OF assms(1,2) _ assms(4)] by auto
  obtain v where v: "iblt_insert_all K ys t = Ok v" "same_shape v t" "represents K v (?e ys)"
    using insert_all_represents [OF assms(1,2) _ ys] by auto
  have "represents K u (?e ys)"
    by (rule represents_perm [OF u(3)])
      (use assms(3,4) in \<open>auto simp: valid_entries_def\<close>)
  then have "u = v"
    using v(3) u(2) v(2) by (metis represents_unique same_shape_sym same_shape_trans)
  with u v show ?thesis by simp
qed

lemma represents_toggle_inverse:
  assumes "iblt_ok t" and "\<forall>b \<in> set (buckets t). valid (keysum b)" and "valid key"
  shows "toggle K key (- d) (toggle K key d t) = t"
proof (rule iblt_eqI)
  show "same_shape (toggle K key (- d) (toggle K key d t)) t"
    by (rule same_shape_trans [OF toggle_shape toggle_shape])
next
  fix n
  assume "n < length (buckets (toggle K key (- d) (toggle K key d t)))"
  then have n: "n < length (buckets t)" by simp
  then have "valid (keysum (buckets t ! n))" using assms(2) by simp
  with n assms(3) show "buckets (toggle K key (- d) (toggle K key d t)) ! n = buckets t ! n"
    by (simp add: nth_toggle same_shape_cong [OF toggle_shape] bucket_eq_iff xor_cancel)
qed

end

section \<open>New tables\<close>

lemma length_generate_ksequence [simp]: "length (generate_ksequence H n k0 k1) = n"
  by (induction n arbitrary: k0 k1) (auto simp: Let_def)

lemma generate_ksequence_Nil [simp]: "generate_ksequence H n k0 k1 = [] \<longleftrightarrow> n = 0"
  by (metis length_0_conv length_generate_ksequence)

lemma iblt_new_ok:
  assumes "iblt_new H K m k k0 k1 = Ok t" and "m \<noteq> 0"
  shows "iblt_ok t" and "represents K t []" and "length (buckets t) = unat m"
    and "iblt_ksequence t \<noteq> [] \<longleftrightarrow> k \<noteq> 0"
  using assms by (auto simp: iblt_new_def iblt_ok_def represents_def unat_eq_0 split: if_splits)

section \<open>Properties of the bucket iterator and of insertion and deletion\<close>

text \<open>
  C32. The iterator over the buckets of a key visits the distinct bucket indices of the
  hash schedule in ascending order, each once, for every table whose schedule has at most
  \<open>K_MAX\<close> entries and which has a bucket.
\<close>

theorem key_buckets_spec:
  assumes "0 < length (buckets t)" and "length (iblt_ksequence t) \<le> K_MAX"
  shows "\<exists>ns. key_buckets K t key = Ok ns \<and> sorted ns \<and> distinct ns
    \<and> set ns = (\<lambda>(k0, k1). unat (hash_to_u64_with_keys K key k0 k1) mod length (buckets t))
                 ` set (iblt_ksequence t)"
proof -
  have "iblt_ok t" using assms by (auto simp: iblt_ok_def)
  then show ?thesis
    by (intro exI [of _ "key_indices K t key"])
      (simp add: key_buckets_eq, simp add: key_indices_def)
qed

lemma key_buckets_degenerate:
  assumes "iblt_ksequence t \<noteq> []"
  shows "(buckets t = [] \<longrightarrow> key_buckets K t key = Panic Rem_by_zero)
    \<and> (buckets t \<noteq> [] \<and> K_MAX < length (iblt_ksequence t) \<longrightarrow>
         key_buckets K t key = Panic Index_out_of_bounds)"
proof -
  have over: "fill_buckets K key len ks i bs = Panic Index_out_of_bounds"
    if "0 < len" "i \<le> length bs" "length bs < i + length ks" for len ks i bs
    using that by (induction K key len ks i bs rule: fill_buckets.induct) auto
  show ?thesis
    using assms over [of "length (buckets t)" 0 "replicate K_MAX 0" "iblt_ksequence t"]
    by (cases "iblt_ksequence t") (auto simp: key_buckets_def bucket_iterator_new_def)
qed

text \<open>
  The same iterator panics instead of returning on a table with a non-empty schedule
  and no bucket (a remainder by zero) and on a table whose schedule is longer than the
  fixed array of \<open>K_MAX\<close> indices; both can be received from a peer, since a table is
  deserialized field by field.
\<close>

lemma key_buckets_panic:
  assumes "iblt_ksequence t \<noteq> []"
  shows "(buckets t = [] \<longrightarrow> key_buckets K t key = Panic Rem_by_zero)
    \<and> (buckets t \<noteq> [] \<and> K_MAX < length (iblt_ksequence t) \<longrightarrow>
         key_buckets K t key = Panic Index_out_of_bounds)"
  using assms by (rule key_buckets_degenerate)

text \<open>
  Deleting a key that was just inserted restores the table exactly, whatever the
  table holds, for content keys.
\<close>

lemma iblt_delete_insert:
  assumes "iblt_insert (content_key_ops H) t key = Ok u" and "iblt_ok t"
    and "content_key_wf key" and "\<forall>b \<in> set (buckets t). content_key_wf (keysum b)"
  shows "iblt_delete (content_key_ops H) u key = Ok t"
proof -
  have "u = toggle (content_key_ops H) key 1 t"
    using assms(1,2) by (simp add: iblt_insert_toggle)
  then show ?thesis
    using content_key.represents_toggle_inverse [OF assms(2,4,3)] assms(2)
    by (simp add: iblt_delete_toggle)
qed

text \<open>
  A table filled from an empty one does not depend on the order of the insertions: two
  peers that hold the same keys compute the same table, whatever order their databases
  list them in.
\<close>

lemma iblt_insert_order:
  assumes "iblt_new H (content_key_ops H) m k k0 k1 = Ok t" and "m \<noteq> 0"
    and "mset xs = mset ys" and "\<forall>x \<in> set xs. content_key_wf x"
  shows "iblt_insert_all (content_key_ops H) xs t = iblt_insert_all (content_key_ops H) ys t"
  using content_key.insert_all_perm [OF iblt_new_ok(1,2) [OF assms(1,2)] assms(3,4)] .

end
