(* ===== verification/Iblt_Decode.thy ===== *)
theory Iblt_Decode
  imports Iblt
begin

text \<open>
  Listing the keys of a table: \<^verbatim>\<open>IBLTIterator\<close> of \<^verbatim>\<open>src/iblt.rs\<close>. The iterator
  peels buckets that hold a single signed key. On a table that is the sum of signed keys
  it ends, lists only keys of the sum, each at most once and with its sign, and stops only
  where no bucket holds exactly one key. On a table that is no such sum it need not end.
\<close>

section \<open>The iterator\<close>

datatype iblt_error = IncompleteIteration

datatype 'k iblt_entry = Inserted 'k | Deleted 'k

record 'k iblt_iterator =
  it_iblt :: "'k iblt"
  it_queue :: "nat list"
  it_incomplete :: bool

text \<open>\<^verbatim>\<open>i32::abs\<close>, which wraps at the least value.\<close>

definition i32_abs :: "i32 \<Rightarrow> i32" where
  "i32_abs c = (if sint c < 0 then - c else c)"

definition bucket_pure :: "'k key_ops \<Rightarrow> 'k iblt \<Rightarrow> 'k bucket \<Rightarrow> bool" where
  "bucket_pure K t b \<longleftrightarrow> i32_abs (bcount b) = 1 \<and> hashsum b = keyhash K t (keysum b)"

definition iblt_iterator_new :: "'k key_ops \<Rightarrow> 'k iblt \<Rightarrow> 'k iblt_iterator" where
  "iblt_iterator_new K t =
     \<lparr>it_iblt = t, it_queue = filter (\<lambda>i. bucket_pure K t (buckets t ! i)) [0..<length (buckets t)],
      it_incomplete = False\<rparr>"

text \<open>The inner \<open>for\<close> loop: take the key out of its buckets, queue those that became pure.\<close>

fun peel_loop ::
  "'k key_ops \<Rightarrow> 'k \<Rightarrow> u64 \<Rightarrow> i32 \<Rightarrow> nat list \<Rightarrow> 'k iblt \<times> nat list \<Rightarrow> 'k iblt \<times> nat list" where
  "peel_loop K key h c [] s = s"
| "peel_loop K key h c (n # ns) (t, q) =
     (let t' = update_bucket n (add_to_bucket K key h (- c)) t;
          q' = (if bucket_pure K t' (buckets t' ! n) then q @ [n] else q)
      in peel_loop K key h c ns (t', q'))"

text \<open>The \<open>while let Some(i) = self.queue.pop_front()\<close> loop up to its first \<open>return\<close>.\<close>

fun drain_queue ::
  "'k key_ops \<Rightarrow> 'k iblt \<Rightarrow> nat list \<Rightarrow> ('k iblt_entry option \<times> 'k iblt \<times> nat list) outcome" where
  "drain_queue K t [] = Ok (None, t, [])"
| "drain_queue K t (i # q) =
     (if i \<ge> length (buckets t) then Panic Index_out_of_bounds
      else let c = bcount (buckets t ! i)
        in if i32_abs c = 1
           then let key = keysum (buckets t ! i); h = keyhash K t key
                in obind (key_buckets K t key)
                     (\<lambda>ns. case peel_loop K key h c ns (t, q) of (t', q') \<Rightarrow>
                        Ok (Some (if c = 1 then Inserted key else Deleted key), t', q'))
           else drain_queue K t q)"

definition iblt_iterator_next ::
  "'k key_ops \<Rightarrow> 'k iblt_iterator \<Rightarrow> ((iblt_error + 'k iblt_entry) option \<times> 'k iblt_iterator) outcome" where
  "iblt_iterator_next K it =
     (if it_incomplete it then Ok (None, it)
      else obind (drain_queue K (it_iblt it) (it_queue it))
        (\<lambda>(e, t, q). case e of
             Some x \<Rightarrow> Ok (Some (Inr x), it\<lparr>it_iblt := t, it_queue := q\<rparr>)
           | None \<Rightarrow>
               if \<exists>b \<in> set (buckets t). bcount b \<noteq> 0
               then Ok (Some (Inl IncompleteIteration),
                        it\<lparr>it_iblt := t, it_queue := q, it_incomplete := True\<rparr>)
               else Ok (None, it\<lparr>it_iblt := t, it_queue := q\<rparr>)))"

text \<open>
  What a \<open>for\<close> loop over the iterator sees. The loop may not end, so it runs on fuel:
  \<open>Ok None\<close> says that \<open>fuel\<close> calls of \<open>next\<close> have not reached the end.
\<close>

fun iblt_entries ::
  "nat \<Rightarrow> 'k key_ops \<Rightarrow> 'k iblt_iterator \<Rightarrow> (iblt_error + 'k iblt_entry) list option outcome" where
  "iblt_entries 0 K it = Ok None"
| "iblt_entries (Suc fuel) K it =
     obind (iblt_iterator_next K it)
       (\<lambda>(x, it'). case x of
            None \<Rightarrow> Ok (Some [])
          | Some e \<Rightarrow> obind (iblt_entries fuel K it') (\<lambda>r. Ok (map_option ((#) e) r)))"

section \<open>Peeling a sum of signed keys\<close>

lemma i32_abs_one: "i32_abs c = 1 \<longleftrightarrow> c = 1 \<or> c = - 1"
proof -
  have "- c = 1 \<longleftrightarrow> c = - 1" by (metis minus_equation_iff)
  moreover have "sint (1 :: i32) = 1" "sint (- 1 :: i32) = - 1" by simp_all
  ultimately show ?thesis unfolding i32_abs_def by auto
qed

lemma bucket_pure_cong: "same_shape t u \<Longrightarrow> bucket_pure K t = bucket_pure K u"
  by (simp add: bucket_pure_def fun_eq_iff same_shape_cong)

lemma peel_loop_eq:
  assumes "distinct ns" and "set ns \<subseteq> {..<length (buckets t)}"
  shows "peel_loop K key h c ns (t, q) =
    (let u = fold (\<lambda>n. update_bucket n (add_to_bucket K key h (- c))) ns t
     in (u, q @ filter (\<lambda>n. bucket_pure K u (buckets u ! n)) ns))"
  using assms
proof (induction ns arbitrary: t q)
  case Nil
  then show ?case by simp
next
  case (Cons n ns)
  let ?f = "add_to_bucket K key h (- c)"
  let ?t = "update_bucket n ?f t"
  let ?u = "fold (\<lambda>n. update_bucket n ?f) ns ?t"
  have len: "length (buckets ?t) = length (buckets t)" by (simp add: update_bucket_def)
  have u: "?u = ?t\<lparr>buckets := map (\<lambda>m. if m \<in> set ns then ?f (buckets ?t ! m) else buckets ?t ! m)
      [0..<length (buckets ?t)]\<rparr>"
    using Cons.prems len by (intro fold_update_bucket) auto
  have "same_shape ?u ?t" by (subst u) (simp add: same_shape_def)
  moreover have "buckets ?u ! n = buckets ?t ! n"
    using Cons.prems by (subst u) (simp add: len)
  ultimately show ?case
    using Cons by (simp add: len Let_def bucket_pure_cong [of ?u ?t])
qed

lemma peel_loop_toggle:
  assumes "iblt_ok t"
  shows "peel_loop K key (keyhash K t key) c (key_indices K t key) (t, q) =
    (toggle K key (- c) t,
     q @ filter (\<lambda>n. bucket_pure K t (buckets (toggle K key (- c) t) ! n)) (key_indices K t key))"
  by (simp add: peel_loop_eq set_key_indices_bound [OF assms] fold_add_to_bucket [OF assms]
      Let_def bucket_pure_cong [OF toggle_shape])

definition entry_of :: "'k \<times> i32 \<Rightarrow> 'k iblt_entry" where
  "entry_of e = (if snd e = 1 then Inserted (fst e) else Deleted (fst e))"

text \<open>Distinct keys, each inserted or deleted once.\<close>

definition signed_set :: "('k \<times> i32) list \<Rightarrow> bool" where
  "signed_set es \<longleftrightarrow> distinct (map fst es) \<and> (\<forall>e \<in> set es. snd e = 1 \<or> snd e = - 1)"

text \<open>
  The assumption on the key hash: among the keys that meet in one bucket, no selection of
  several of them (or of none) looks like a single key.
\<close>

definition no_false_pure :: "'k key_ops \<Rightarrow> 'k iblt \<Rightarrow> ('k \<times> i32) list \<Rightarrow> bool" where
  "no_false_pure K t es \<longleftrightarrow>
     (\<forall>n < length (buckets t). \<forall>T \<in> set (subseqs (entries_at K t n es)).
        bucket_pure K t (bsum K t T) \<longrightarrow> length T = 1)"

text \<open>The state of a listing: what is left, and which buckets are queued.\<close>

definition peel_inv :: "'k key_ops \<Rightarrow> 'k iblt \<Rightarrow> nat list \<Rightarrow> ('k \<times> i32) list \<Rightarrow> bool" where
  "peel_inv K t q es \<longleftrightarrow> represents K t es \<and> signed_set es \<and> no_false_pure K t es
     \<and> (\<forall>i \<in> set q. i < length (buckets t) \<and> length (entries_at K t i es) \<le> 1)
     \<and> (\<forall>i < length (buckets t). length (entries_at K t i es) = 1 \<longrightarrow> i \<in> set q)"

lemma signed_set_distinct: "signed_set es \<Longrightarrow> distinct es"
  by (simp add: signed_set_def distinct_map)

lemma signed_set_remove1: "signed_set es \<Longrightarrow> signed_set (remove1 e es)"
  by (auto simp: signed_set_def distinct_map inj_on_def
      dest: notin_set_remove1)

lemma entries_at_remove1: "entries_at K t n (remove1 e es) = remove1 e (entries_at K t n es)"
  by (simp add: entries_at_def filter_remove1)

lemma entries_at_memD: "x \<in> set (entries_at K t n es) \<Longrightarrow> x \<in> set es"
  by (simp add: set_entries_at)

lemma remove1_in_subseqs: "remove1 e xs \<in> set (subseqs xs)"
  by (induction xs) (auto simp: Let_def subseqs_refl)

lemma subseqs_trans: "xs \<in> set (subseqs ys) \<Longrightarrow> ys \<in> set (subseqs zs) \<Longrightarrow> xs \<in> set (subseqs zs)"
proof (induction zs arbitrary: xs ys)
  case (Cons z zs)
  then show ?case by (fastforce simp: Let_def)
qed simp

lemma no_false_pure_remove1: "no_false_pure K t es \<Longrightarrow> no_false_pure K t (remove1 e es)"
  unfolding no_false_pure_def entries_at_remove1
  by (blast intro: subseqs_trans remove1_in_subseqs)

lemma no_false_pure_cong: "same_shape t u \<Longrightarrow> no_false_pure K t es \<longleftrightarrow> no_false_pure K u es"
  by (simp add: no_false_pure_def same_shape_cong bucket_pure_cong) (simp add: same_shape_def)

lemma bucket_pure_bunit: "snd e = 1 \<or> snd e = - 1 \<Longrightarrow> bucket_pure K t (bunit K t e)"
  by (auto simp: bucket_pure_def i32_abs_one)

lemma valid_entries_remove1: "valid_entries valid es \<Longrightarrow> valid_entries valid (remove1 e es)"
  by (auto simp: valid_entries_def dest: notin_set_remove1)

context iblt_key
begin

lemma represents_bucket:
  assumes "represents K t es" and "valid_entries valid es" and "n < length (buckets t)"
  shows "entries_at K t n es = [] \<Longrightarrow> buckets t ! n = bucket_default K"
    and "entries_at K t n es = [e] \<Longrightarrow> buckets t ! n = bunit K t e"
  using assms valid_entries_at [OF assms(2), of K t n]
  by (auto simp: represents_def)

lemma represents_peel:
  assumes "represents K t es" and "valid_entries valid es" and "e \<in> set es"
  shows "represents K (toggle K (fst e) (- snd e) t) (remove1 e es)"
proof -
  let ?t = "toggle K (fst e) (- snd e) t"
  have e: "valid (fst e)" using assms(2,3) by (simp add: valid_entries_def)
  have "represents K ?t ((fst e, - snd e) # es)"
    using assms e by (intro represents_toggle) auto
  then have "represents K ?t ((fst e, - snd e) # (fst e, - (- snd e)) # remove1 e es)"
    by (rule represents_perm) (use assms(2,3) e in \<open>auto\<close>)
  then show ?thesis
    by (rule represents_cancel) (use assms(2) e in \<open>auto intro: valid_entries_remove1\<close>)
qed

lemma peel_step_inv:
  assumes inv: "peel_inv K t (i # q) es" and v: "valid_entries valid es"
    and ok: "iblt_ok t" and e: "entries_at K t i es = [e]"
  defines "t' \<equiv> toggle K (fst e) (- snd e) t"
  defines "q' \<equiv> q @ filter (\<lambda>n. bucket_pure K t (buckets t' ! n)) (key_indices K t (fst e))"
  shows "peel_inv K t' q' (remove1 e es)"
proof -
  have shape: "same_shape t' t" and len: "length (buckets t') = length (buckets t)"
    by (simp_all add: t'_def)
  have mem: "e \<in> set (entries_at K t i es)" using e by simp
  then have es: "e \<in> set es" and ei: "i \<in> set (key_indices K t (fst e))"
    by (auto simp: set_entries_at)
  have rep: "represents K t' (remove1 e es)"
    using inv v es by (auto simp: t'_def peel_inv_def intro: represents_peel)
  have nfp: "no_false_pure K t (remove1 e es)"
    using inv by (auto simp: peel_inv_def intro: no_false_pure_remove1)
  have sgn: "signed_set (remove1 e es)"
    using inv by (auto simp: peel_inv_def intro: signed_set_remove1)
  have at: "buckets t' ! j = bsum K t (entries_at K t j (remove1 e es))"
    if "j < length (buckets t)" for j
    using rep that by (simp add: represents_def same_shape_cong [OF shape] len)
  have queued: "j < length (buckets t) \<and> length (entries_at K t j (remove1 e es)) \<le> 1"
    if "j \<in> set q'" for j
  proof (cases "j \<in> set q")
    case True
    have "length (entries_at K t j (remove1 e es)) \<le> length (entries_at K t j es)"
      by (simp add: entries_at_remove1 length_remove1)
    with True inv show ?thesis by (fastforce simp: peel_inv_def)
  next
    case False
    with that have "j \<in> set (key_indices K t (fst e))" and p: "bucket_pure K t (buckets t' ! j)"
      by (auto simp: q'_def)
    with set_key_indices_bound [OF ok] have j: "j < length (buckets t)" by auto
    then have "length (entries_at K t j (remove1 e es)) = 1"
      using nfp p subseqs_refl unfolding no_false_pure_def by (metis at)
    with j show ?thesis by simp
  qed
  have complete: "j \<in> set q'"
    if j: "j < length (buckets t)" and one: "length (entries_at K t j (remove1 e es)) = 1" for j
  proof (cases "j \<in> set (key_indices K t (fst e))")
    case True
    from one obtain x where x: "entries_at K t j (remove1 e es) = [x]"
      by (auto simp: length_Suc_conv)
    have "x \<in> set (remove1 e es)"
      by (rule entries_at_memD [of _ K t j]) (simp add: x)
    with sgn have "snd x = 1 \<or> snd x = - 1" by (simp add: signed_set_def)
    moreover have "buckets t' ! j = bunit K t x"
      using represents_bucket(2) [OF rep] x j v es
      by (simp add: same_shape_cong [OF shape] len valid_entries_remove1)
    ultimately show ?thesis using True by (simp add: q'_def bucket_pure_bunit)
  next
    case False
    then have "e \<notin> set (entries_at K t j es)" by (simp add: set_entries_at)
    then have "entries_at K t j (remove1 e es) = entries_at K t j es"
      by (simp add: entries_at_remove1 remove1_idem)
    with one j inv have "j \<in> set (i # q)" by (simp add: peel_inv_def)
    with False ei show ?thesis by (auto simp: q'_def)
  qed
  show ?thesis
    using rep sgn nfp queued complete
    by (simp add: peel_inv_def same_shape_cong [OF shape] no_false_pure_cong [OF shape] len)
qed

lemma drain_queue_cases:
  assumes "peel_inv K t q es" and "valid_entries valid es" and "iblt_ok t"
  shows "(\<exists>e t' q'. e \<in> set es \<and> drain_queue K t q = Ok (Some (entry_of e), t', q')
            \<and> same_shape t' t \<and> peel_inv K t' q' (remove1 e es))
       \<or> (drain_queue K t q = Ok (None, t, []) \<and> peel_inv K t [] es)"
  using assms
proof (induction q)
  case Nil
  then show ?case by simp
next
  case (Cons i q)
  have i: "i < length (buckets t)" and one: "length (entries_at K t i es) \<le> 1"
    using Cons.prems(1) by (auto simp: peel_inv_def)
  have rep: "represents K t es" using Cons.prems(1) by (simp add: peel_inv_def)
  show ?case
  proof (cases "entries_at K t i es")
    case Nil
    then have "bcount (buckets t ! i) = 0"
      using represents_bucket(1) [OF rep Cons.prems(2) i] by simp
    then have skip: "drain_queue K t (i # q) = drain_queue K t q"
      using i by (simp add: i32_abs_one)
    have "peel_inv K t q es"
      using Cons.prems(1) Nil by (auto simp: peel_inv_def)
    then show ?thesis
      unfolding skip using Cons.prems(2,3) by (rule Cons.IH)
  next
    case (Cons e rest)
    with one have e: "entries_at K t i es = [e]" by simp
    then have b: "buckets t ! i = bunit K t e"
      by (rule represents_bucket(2) [OF rep Cons.prems(2) i])
    have mem: "e \<in> set es"
      by (rule entries_at_memD [of _ K t i]) (simp add: e)
    then have "snd e = 1 \<or> snd e = - 1"
      using Cons.prems(1) by (simp add: peel_inv_def signed_set_def)
    then have "drain_queue K t (i # q) = Ok (Some (entry_of e), toggle K (fst e) (- snd e) t,
        q @ filter (\<lambda>n. bucket_pure K t (buckets (toggle K (fst e) (- snd e) t) ! n))
          (key_indices K t (fst e)))"
      using i by (simp add: b i32_abs_one key_buckets_eq [OF Cons.prems(3)]
          peel_loop_toggle [OF Cons.prems(3)] entry_of_def Let_def)
    with mem peel_step_inv [OF Cons.prems(1-3) e] show ?thesis
      by (intro disjI1 exI conjI) (assumption | rule toggle_shape)+
  qed
qed

lemma drained_counts:
  assumes "represents K t es"
  shows "(\<exists>b \<in> set (buckets t). bcount b \<noteq> 0) \<longleftrightarrow>
    (\<exists>n < length (buckets t). bcount (bsum K t (entries_at K t n es)) \<noteq> 0)"
proof -
  have "(\<exists>b \<in> set (buckets t). bcount b \<noteq> 0) \<longleftrightarrow>
      (\<exists>n < length (buckets t). bcount (buckets t ! n) \<noteq> 0)"
    by (metis in_set_conv_nth)
  with assms show ?thesis by (simp add: represents_def cong: conj_cong)
qed

lemma iblt_entries_inv:
  assumes "peel_inv K t q es" and "valid_entries valid es" and "iblt_ok t"
    and "length es + 2 \<le> fuel"
  shows "\<exists>found rest. mset es = mset (found @ rest)
    \<and> (\<forall>n < length (buckets t). length (entries_at K t n rest) \<noteq> 1)
    \<and> iblt_entries fuel K \<lparr>it_iblt = t, it_queue = q, it_incomplete = False\<rparr> =
        Ok (Some (map (\<lambda>e. Inr (entry_of e)) found @
          (if \<exists>n < length (buckets t). bcount (bsum K t (entries_at K t n rest)) \<noteq> 0
           then [Inl IncompleteIteration] else [])))"
  using assms
proof (induction fuel arbitrary: t q es)
  case 0
  then show ?case by simp
next
  case (Suc fuel)
  from drain_queue_cases [OF Suc.prems(1-3)] show ?case
  proof (elim disjE exE conjE)
    fix e t' q'
    assume e: "e \<in> set es" and dr: "drain_queue K t q = Ok (Some (entry_of e), t', q')"
      and sh: "same_shape t' t" and inv: "peel_inv K t' q' (remove1 e es)"
    have "length (remove1 e es) + 2 \<le> fuel"
      using Suc.prems(4) length_pos_if_in_set [OF e] by (simp add: length_remove1 e)
    then obtain found rest where "mset (remove1 e es) = mset (found @ rest)"
      and "\<forall>n < length (buckets t). length (entries_at K t n rest) \<noteq> 1"
      and "iblt_entries fuel K \<lparr>it_iblt = t', it_queue = q', it_incomplete = False\<rparr> =
        Ok (Some (map (\<lambda>e. Inr (entry_of e)) found @
          (if \<exists>n < length (buckets t). bcount (bsum K t (entries_at K t n rest)) \<noteq> 0
           then [Inl IncompleteIteration] else [])))"
      using Suc.IH [OF inv valid_entries_remove1 [OF Suc.prems(2)]] Suc.prems(3) sh
      by (simp add: same_shape_cong [OF sh] same_shape_length [OF sh]) blast
    moreover have "mset es = add_mset e (mset (remove1 e es))"
      using e by simp
    ultimately show ?thesis
      by (intro exI [of _ "e # found"] exI [of _ rest])
        (simp add: iblt_iterator_next_def dr del: mset_remove1)
  next
    assume dr: "drain_queue K t q = Ok (None, t, [])" and inv: "peel_inv K t [] es"
    from inv have "represents K t es"
      and "\<forall>n < length (buckets t). length (entries_at K t n es) \<noteq> 1"
      by (auto simp: peel_inv_def)
    moreover obtain f where "fuel = Suc f" using Suc.prems(4) by (cases fuel) auto
    ultimately show ?thesis
      by (intro exI [of _ "[]"] exI [of _ es])
        (simp add: iblt_iterator_next_def dr drained_counts)
  qed
qed

lemma peel_inv_new:
  assumes "represents K t es" and "valid_entries valid es" and "signed_set es"
    and "no_false_pure K t es"
  shows "peel_inv K t (it_queue (iblt_iterator_new K t)) es"
proof -
  have pure_iff: "bucket_pure K t (buckets t ! i) \<longleftrightarrow> length (entries_at K t i es) = 1"
    if i: "i < length (buckets t)" for i
  proof
    assume "bucket_pure K t (buckets t ! i)"
    with assms(1,4) i show "length (entries_at K t i es) = 1"
      using subseqs_refl unfolding no_false_pure_def represents_def by metis
  next
    assume "length (entries_at K t i es) = 1"
    then obtain x where x: "entries_at K t i es = [x]" by (auto simp: length_Suc_conv)
    have "x \<in> set es" by (rule entries_at_memD [of _ K t i]) (simp add: x)
    with assms(3) have "snd x = 1 \<or> snd x = - 1" by (simp add: signed_set_def)
    with represents_bucket(2) [OF assms(1,2) i x]
    show "bucket_pure K t (buckets t ! i)" by (simp add: bucket_pure_bunit)
  qed
  show ?thesis
    using assms by (auto simp: peel_inv_def iblt_iterator_new_def pure_iff)
qed

lemma iblt_entries_complete:
  assumes "represents K t es" and "valid_entries valid es" and "signed_set es"
    and "no_false_pure K t es" and "iblt_ok t" and "length es + 2 \<le> fuel"
  shows "\<exists>found rest. mset es = mset (found @ rest)
    \<and> (\<forall>n < length (buckets t). length (entries_at K t n rest) \<noteq> 1)
    \<and> iblt_entries fuel K (iblt_iterator_new K t) =
        Ok (Some (map (\<lambda>e. Inr (entry_of e)) found @
          (if \<exists>n < length (buckets t). bcount (bsum K t (entries_at K t n rest)) \<noteq> 0
           then [Inl IncompleteIteration] else [])))"
  using iblt_entries_inv [OF peel_inv_new [OF assms(1-4)] assms(2,5,6)]
  by (simp add: iblt_iterator_new_def)

lemma represents_cancel_pairs:
  assumes "represents K t (concat (map (\<lambda>k. [(k, 1), (k, - 1)]) cs) @ es)"
    and "valid_entries valid es" and "\<forall>k \<in> set cs. valid k"
  shows "represents K t es"
  using assms
proof (induction cs)
  case (Cons c cs)
  let ?r = "concat (map (\<lambda>k. [(k, 1), (k, - 1)]) cs) @ es"
  have "represents K t ((c, 1) # (c, - 1) # ?r)"
    using Cons.prems(1) by (simp only: list.map concat.simps append_Cons append_Nil append_assoc)
  moreover have "valid_entries valid ?r" and "valid c"
    using Cons.prems(2,3) by (auto simp: valid_entries_def)
  ultimately have "represents K t ?r" by (rule represents_cancel)
  then show ?case by (rule Cons.IH) (use Cons.prems in simp_all)
qed simp

end

text \<open>The signed difference of two sets of keys.\<close>

definition diff_entries :: "'k list \<Rightarrow> 'k list \<Rightarrow> ('k \<times> i32) list" where
  "diff_entries xs ys = map (\<lambda>k. (k, 1)) (filter (\<lambda>k. k \<notin> set ys) xs)
     @ map (\<lambda>k. (k, - 1)) (filter (\<lambda>k. k \<notin> set xs) ys)"

lemma mset_filter_compl: "mset (filter P xs) + mset (filter (\<lambda>x. \<not> P x) xs) = mset xs"
  by (induction xs) auto

lemma mset_signed_pairs:
  "mset (concat (map (\<lambda>k. [(k, 1), (k, - 1)]) cs)) =
     image_mset (\<lambda>k. (k, 1 :: i32)) (mset cs) + image_mset (\<lambda>k. (k, - 1)) (mset cs)"
  by (induction cs) auto

lemma mset_diff_entries:
  assumes "distinct xs" and "distinct ys"
  shows "mset (map (\<lambda>k. (k, 1)) xs @ map (\<lambda>k. (k, - 1)) ys) =
    mset (concat (map (\<lambda>k. [(k, 1), (k, - 1)]) (filter (\<lambda>k. k \<in> set ys) xs)) @ diff_entries xs ys)"
proof -
  let ?i = "\<lambda>d. image_mset (\<lambda>k. (k, d :: i32))"
  let ?c = "mset (filter (\<lambda>k. k \<in> set ys) xs)"
  have c: "mset (filter (\<lambda>k. k \<in> set xs) ys) = ?c"
    using assms by (intro set_eq_iff_mset_eq_distinct [THEN iffD1]) auto
  have "mset xs = ?c + mset (filter (\<lambda>k. k \<notin> set ys) xs)"
    by (simp only: mset_filter_compl [of "\<lambda>k. k \<in> set ys"])
  moreover have "mset ys = ?c + mset (filter (\<lambda>k. k \<notin> set xs) ys)"
    by (simp only: c [symmetric] mset_filter_compl [of "\<lambda>k. k \<in> set xs"])
  ultimately have "?i 1 (mset xs) + ?i (- 1) (mset ys) =
      ?i 1 ?c + ?i (- 1) ?c + (?i 1 (mset (filter (\<lambda>k. k \<notin> set ys) xs))
        + ?i (- 1) (mset (filter (\<lambda>k. k \<notin> set xs) ys)))"
    by (metis (no_types, lifting) image_mset_union add.assoc add.left_commute)
  then show ?thesis
    by (simp add: diff_entries_def mset_signed_pairs del: mset_filter)
qed

lemma signed_set_diff_entries: "distinct xs \<Longrightarrow> distinct ys \<Longrightarrow> signed_set (diff_entries xs ys)"
  by (auto simp: signed_set_def diff_entries_def comp_def)

lemma length_diff_entries: "length (diff_entries xs ys) \<le> length xs + length ys"
  by (simp add: diff_entries_def add_mono)

context iblt_key
begin

lemma represents_diff_entries:
  assumes "represents K t (map (\<lambda>k. (k, 1)) xs @ map (\<lambda>k. (k, - 1)) ys)"
    and "distinct xs" and "distinct ys" and "\<forall>k \<in> set xs \<union> set ys. valid k"
  shows "represents K t (diff_entries xs ys)"
proof (rule represents_cancel_pairs)
  show "represents K t (concat (map (\<lambda>k. [(k, 1), (k, - 1)]) (filter (\<lambda>k. k \<in> set ys) xs))
      @ diff_entries xs ys)"
    by (rule represents_perm [OF assms(1) mset_diff_entries])
      (use assms in \<open>auto simp: valid_entries_def\<close>)
qed (use assms(4) in \<open>auto simp: valid_entries_def diff_entries_def\<close>)

text \<open>Subtracting two filled tables gives the table of the signed difference.\<close>

lemma substract_filled:
  assumes "iblt_ok t" and "represents K t []"
    and "iblt_insert_all K xs t = Ok a" and "iblt_insert_all K ys t = Ok b"
    and "distinct xs" and "distinct ys" and "\<forall>k \<in> set xs \<union> set ys. valid k"
  shows "\<exists>d. substract K a b = Ok d \<and> same_shape d t \<and> represents K d (diff_entries xs ys)"
proof -
  let ?e = "\<lambda>ks. rev (map (\<lambda>k. (k, 1 :: i32)) ks)"
  have v: "valid_entries valid (?e xs)" "valid_entries valid (?e ys)"
    using assms(7) by (auto simp: valid_entries_def)
  have a: "same_shape a t" "represents K a (?e xs)"
    using insert_all_represents [OF assms(1,2), of xs] assms(3,7) by auto
  have b: "same_shape b t" "represents K b (?e ys)"
    using insert_all_represents [OF assms(1,2), of ys] assms(4,7) by auto
  have ab: "same_shape a b" by (rule same_shape_trans [OF a(1) same_shape_sym [OF b(1)]])
  obtain d where d: "substract K a b = Ok d" "same_shape d a"
    and rep: "represents K d (?e xs @ map negate (?e ys))"
    using represents_sub [OF a(2) b(2) ab v] by blast
  have "represents K d (map (\<lambda>k. (k, 1)) xs @ map (\<lambda>k. (k, - 1)) ys)"
    by (rule represents_perm [OF rep])
      (use v in \<open>auto simp: negate_def rev_map [symmetric] comp_def valid_entries_def\<close>)
  then have "represents K d (diff_entries xs ys)"
    using assms(5-7) by (rule represents_diff_entries)
  with d same_shape_trans [OF d(2) a(1)] show ?thesis by blast
qed

lemma reconcile:
  assumes "iblt_ok t" and "represents K t []"
    and "iblt_insert_all K xs t = Ok a" and "iblt_insert_all K ys t = Ok b"
    and "distinct xs" and "distinct ys" and "\<forall>k \<in> set xs \<union> set ys. valid k"
    and "no_false_pure K t (diff_entries xs ys)" and "length xs + length ys + 2 \<le> fuel"
  shows "\<exists>d found rest. substract K a b = Ok d \<and> mset (diff_entries xs ys) = mset (found @ rest)
    \<and> (\<forall>n < length (buckets t). length (entries_at K t n rest) \<noteq> 1)
    \<and> iblt_entries fuel K (iblt_iterator_new K d) =
        Ok (Some (map (\<lambda>e. Inr (entry_of e)) found @
          (if \<exists>n < length (buckets t). bcount (bsum K t (entries_at K t n rest)) \<noteq> 0
           then [Inl IncompleteIteration] else [])))"
proof -
  obtain d where d: "substract K a b = Ok d" and sh: "same_shape d t"
    and rep: "represents K d (diff_entries xs ys)"
    using substract_filled [OF assms(1-7)] by blast
  have "valid_entries valid (diff_entries xs ys)"
    using assms(7) by (auto simp: valid_entries_def diff_entries_def)
  moreover have "length (diff_entries xs ys) + 2 \<le> fuel"
    using length_diff_entries [of xs ys] assms(9) by linarith
  moreover have "iblt_ok d" and "no_false_pure K d (diff_entries xs ys)"
    using assms(1,8) by (simp_all add: no_false_pure_cong [OF sh] same_shape_cong [OF sh])
  ultimately show ?thesis
    using iblt_entries_complete [OF rep _ signed_set_diff_entries [OF assms(5,6)], of fuel] d
    unfolding same_shape_cong [OF sh] same_shape_length [OF sh] by blast
qed

end

section \<open>A table the listing of which does not end\<close>

text \<open>A table with one signed copy of a key in some of its buckets and nothing else.\<close>

definition rogue_table ::
  "'k key_ops \<Rightarrow> 'k iblt \<Rightarrow> 'k \<Rightarrow> nat set \<Rightarrow> i32 \<Rightarrow> 'k iblt" where
  "rogue_table K t key S s = t\<lparr>buckets := map (\<lambda>n. if n \<in> S
     then \<lparr>keysum = key, hashsum = keyhash K t key, bcount = s\<rparr> else bucket_default K)
     [0..<length (buckets t)]\<rparr>"

lemma rogue_shape: "same_shape (rogue_table K t key S s) t"
  by (simp add: rogue_table_def same_shape_def)

lemma rogue_length [simp]: "length (buckets (rogue_table K t key S s)) = length (buckets t)"
  by (simp add: rogue_table_def)

lemma rogue_nth: "n < length (buckets t) \<Longrightarrow> buckets (rogue_table K t key S s) ! n =
    (if n \<in> S then bunit K t (key, s) else bucket_default K)"
  by (simp add: rogue_table_def bunit_def)

lemma bucket_pure_default [simp]: "\<not> bucket_pure K t (bucket_default K)"
  by (simp add: bucket_pure_def i32_abs_one)

lemma filter_eq_singleton: "distinct xs \<Longrightarrow> i \<in> set xs \<Longrightarrow> filter (\<lambda>n. n = i) xs = [i]"
  by (induction xs) (auto simp: filter_empty_conv)

lemma rogue_pure:
  assumes "n < length (buckets t)" and "s = 1 \<or> s = - 1"
  shows "bucket_pure K t (buckets (rogue_table K t key S s) ! n) \<longleftrightarrow> n \<in> S"
  using assms
  by (auto simp: rogue_nth bucket_pure_bunit)

context iblt_key
begin

lemma toggle_rogue:
  assumes "valid key" and "S \<subseteq> set (key_indices K t key)"
  shows "toggle K key (- s) (rogue_table K t key S s) =
    rogue_table K t key (set (key_indices K t key) - S) (- s)"
proof (rule iblt_eqI)
  show "same_shape (toggle K key (- s) (rogue_table K t key S s))
      (rogue_table K t key (set (key_indices K t key) - S) (- s))"
    by (rule same_shape_trans [OF toggle_shape same_shape_trans [OF rogue_shape
          same_shape_sym [OF rogue_shape]]])
  fix n
  assume "n < length (buckets (toggle K key (- s) (rogue_table K t key S s)))"
  then have n: "n < length (buckets t)" by simp
  then show "buckets (toggle K key (- s) (rogue_table K t key S s)) ! n =
      buckets (rogue_table K t key (set (key_indices K t key) - S) (- s)) ! n"
    using assms
    by (auto simp: nth_toggle rogue_nth same_shape_cong [OF rogue_shape] bucket_eq_iff
        xor_self xor_default_left)
qed

lemma drain_rogue:
  assumes ok: "iblt_ok t" and key: "valid key" and S: "S \<subseteq> set (key_indices K t key)"
    and n: "n \<in> S" and s: "s = 1 \<or> s = - 1"
  shows "drain_queue K (rogue_table K t key S s) (n # q) =
    Ok (Some (entry_of (key, s)), rogue_table K t key (set (key_indices K t key) - S) (- s),
        q @ filter (\<lambda>n. n \<notin> S) (key_indices K t key))"
proof -
  let ?r = "rogue_table K t key S s"
  have ok': "iblt_ok ?r" using ok by (simp add: same_shape_cong [OF rogue_shape])
  have bound: "m < length (buckets t)" if "m \<in> set (key_indices K t key)" for m
    using set_key_indices_bound [OF ok] that by auto
  have "filter (\<lambda>n. bucket_pure K t (buckets (rogue_table K t key
        (set (key_indices K t key) - S) (- s)) ! n)) (key_indices K t key)
      = filter (\<lambda>n. n \<notin> S) (key_indices K t key)"
    by (rule filter_cong) (use s in \<open>auto simp: bound rogue_pure\<close>)
  moreover have "n < length (buckets t)" using n S bound by blast
  ultimately show ?thesis
    using peel_loop_toggle [OF ok', of K key s q] n s
    by (simp add: rogue_nth i32_abs_one key_buckets_eq [OF ok'] Let_def entry_of_def
        same_shape_cong [OF rogue_shape] bucket_pure_cong [OF rogue_shape]
        toggle_rogue [OF key S])
qed

lemma drain_rogue_skip:
  assumes "set js \<subseteq> {..<length (buckets t)} - S"
  shows "drain_queue K (rogue_table K t key S s) (js @ q) = drain_queue K (rogue_table K t key S s) q"
  using assms by (induction js) (auto simp: rogue_nth i32_abs_one)

text \<open>The two states the listing alternates between.\<close>

lemma rogue_listing:
  assumes ok: "iblt_ok t" and key: "valid key" and i: "i \<in> set (key_indices K t key)"
    and two: "set (key_indices K t key) - {i} \<noteq> {}"
  shows "(set js \<subseteq> set (key_indices K t key) - {i} \<longrightarrow> iblt_entries fuel K
      \<lparr>it_iblt = rogue_table K t key {i} 1, it_queue = js @ [i], it_incomplete = False\<rparr> = Ok None)
    \<and> (set js \<subseteq> set (key_indices K t key) - {i} \<and> js \<noteq> [] \<longrightarrow> iblt_entries fuel K
      \<lparr>it_iblt = rogue_table K t key (set (key_indices K t key) - {i}) (- 1), it_queue = js,
       it_incomplete = False\<rparr> = Ok None)"
proof (induction fuel arbitrary: js)
  case 0
  then show ?case by simp
next
  case (Suc fuel)
  let ?B = "set (key_indices K t key) - {i}"
  let ?js = "filter (\<lambda>n. n \<notin> {i}) (key_indices K t key)"
  have bound: "set (key_indices K t key) \<subseteq> {..<length (buckets t)}"
    by (rule set_key_indices_bound [OF ok])
  have js: "set ?js \<subseteq> ?B" "?js \<noteq> []" using two by (auto simp: filter_empty_conv)
  have A: "drain_queue K (rogue_table K t key {i} 1) (ks @ [i]) =
      Ok (Some (Inserted key), rogue_table K t key ?B (- 1), ?js)" if "set ks \<subseteq> ?B" for ks
    using drain_rogue [OF ok key, of "{i}" i 1 "[]"] drain_rogue_skip [of ks t "{i}" key 1 "[i]"]
      that i bound by (auto simp: entry_of_def)
  have "filter (\<lambda>n. n \<notin> ?B) (key_indices K t key) = filter (\<lambda>n. n = i) (key_indices K t key)"
    by (rule filter_cong) auto
  also have "\<dots> = [i]" using i distinct_key_indices by (simp add: filter_eq_singleton)
  finally have B: "drain_queue K (rogue_table K t key ?B (- 1)) (k # ks) =
      Ok (Some (Deleted key), rogue_table K t key {i} 1, ks @ [i])" if "k \<in> ?B" for k ks
    using drain_rogue [OF ok key, of ?B k "- 1" ks] that i
    by (simp add: entry_of_def double_diff)
  show ?case
  proof (intro conjI impI)
    assume "set js \<subseteq> ?B"
    with Suc.IH [of ?js] js A show "iblt_entries (Suc fuel) K
        \<lparr>it_iblt = rogue_table K t key {i} 1, it_queue = js @ [i], it_incomplete = False\<rparr> = Ok None"
      by (simp add: iblt_iterator_next_def del: drain_queue.simps)
  next
    assume "set js \<subseteq> ?B \<and> js \<noteq> []"
    then obtain k ks where "js = k # ks" "k \<in> ?B" "set ks \<subseteq> ?B" by (cases js) auto
    with Suc.IH [of ks] B [of k ks] show "iblt_entries (Suc fuel) K
        \<lparr>it_iblt = rogue_table K t key ?B (- 1), it_queue = js, it_incomplete = False\<rparr> = Ok None"
      by (simp add: iblt_iterator_next_def del: drain_queue.simps)
  qed
qed

text \<open>A key put into one of its buckets only.\<close>

lemma rogue_diverges:
  assumes "iblt_ok t" and "valid key" and "key_buckets K t key = Ok ns" and "i \<in> set ns" and "2 \<le> length ns"
  shows "iblt_entries fuel K (iblt_iterator_new K (rogue_table K t key {i} 1)) = Ok None"
proof -
  let ?r = "rogue_table K t key {i} 1"
  have ns: "ns = key_indices K t key" using assms(1,3) by (simp add: key_buckets_eq)
  have two: "set ns - {i} \<noteq> {}"
  proof
    assume "set ns - {i} = {}"
    then have "card (set ns) \<le> card {i}" by (intro card_mono) auto
    with assms(5) show False using distinct_key_indices by (simp add: ns distinct_card)
  qed
  have "i < length (buckets t)"
    using set_key_indices_bound [OF assms(1)] assms(4) ns by auto
  then have "filter (\<lambda>n. n = i) [0..<length (buckets t)] = [i]"
    by (intro filter_eq_singleton) auto
  moreover have "filter (\<lambda>n. bucket_pure K ?r (buckets ?r ! n)) [0..<length (buckets ?r)]
      = filter (\<lambda>n. n = i) [0..<length (buckets t)]"
    by (rule filter_cong) (auto simp: bucket_pure_cong [OF rogue_shape] rogue_pure)
  ultimately have "it_queue (iblt_iterator_new K ?r) = [i]"
    by (simp add: iblt_iterator_new_def)
  then show ?thesis
    using rogue_listing [OF assms(1,2), of i "[]" fuel] assms(4) two
    by (simp add: ns iblt_iterator_new_def)
qed

end

section \<open>Properties of the listing\<close>

lemma bcount_bsum: "bcount (bsum K t es) = sum_list (map snd es)"
  by (induction es) auto

lemma sum_list_ones: "\<forall>e \<in> set es. snd e = 1 \<Longrightarrow> sum_list (map snd es) = of_nat (length es)"
  by (induction es) auto

lemma positive_rest_empty:
  assumes "\<forall>e \<in> set rest. snd e = 1" and "length rest < 2 ^ 32"
    and "iblt_ok t" and "iblt_ksequence t \<noteq> []"
    and "\<forall>n < length (buckets t). bcount (bsum K t (entries_at K t n rest)) = 0"
  shows "rest = []"
proof (rule ccontr)
  assume "rest \<noteq> []"
  then obtain e where e: "e \<in> set rest" by (cases rest) auto
  obtain n where n: "n \<in> set (key_indices K t (fst e))"
    using key_indices_nonempty [OF assms(4)] by (metis list.set_intros(1) neq_Nil_conv)
  let ?at = "entries_at K t n rest"
  have "length ?at < 2 ^ 32"
    using assms(2) by (simp add: entries_at_def) (meson le_less_trans length_filter_le)
  moreover have "e \<in> set ?at" using e n by (simp add: set_entries_at)
  then have "0 < length ?at" by (rule length_pos_if_in_set)
  moreover have "bcount (bsum K t ?at) = of_nat (length ?at)"
    using assms(1) by (simp add: bcount_bsum sum_list_ones set_entries_at)
  moreover have "n < length (buckets t)"
    using set_key_indices_bound [OF assms(3)] n by auto
  ultimately show False
    using assms(5) by (simp add: of_nat_eq_0_iff word_of_nat_eq_0_iff nat_dvd_not_less)
qed

text \<open>
  C7. Set reconciliation. Let two peers fill tables of the same size and keys with the
  distinct content keys \<open>xs\<close> and \<open>ys\<close>, and let no sum of several keys of the difference look like a
  single key (\<open>no_false_pure\<close>, a condition on the key hash). Subtracting the second table from the first does not
  panic, and listing the result ends within \<open>length xs + length ys + 2\<close> calls. It lists only
  keys of the difference, each at most once, as inserted when it is only in \<open>xs\<close> and as
  deleted when it is only in \<open>ys\<close>; what it leaves out, it leaves out because no bucket
  holds exactly one of the remaining keys; and the listing ends with the error exactly when
  the signs of the remaining keys do not cancel in some bucket.
\<close>

theorem iblt_reconciliation:
  assumes "iblt_new H (content_key_ops H) m k k0 k1 = Ok t" and "m \<noteq> 0"
    and "iblt_insert_all (content_key_ops H) xs t = Ok a"
    and "iblt_insert_all (content_key_ops H) ys t = Ok b"
    and "distinct xs" and "distinct ys" and "\<forall>x \<in> set xs \<union> set ys. content_key_wf x"
    and "no_false_pure (content_key_ops H) t (diff_entries xs ys)"
  shows "\<exists>d found rest. substract (content_key_ops H) a b = Ok d
    \<and> mset (diff_entries xs ys) = mset (found @ rest)
    \<and> (\<forall>n < unat m. length (entries_at (content_key_ops H) t n rest) \<noteq> 1)
    \<and> iblt_entries (length xs + length ys + 2) (content_key_ops H)
        (iblt_iterator_new (content_key_ops H) d) =
        Ok (Some (map (\<lambda>e. Inr (entry_of e)) found @
          (if \<exists>n < unat m. bcount (bsum (content_key_ops H) t
                (entries_at (content_key_ops H) t n rest)) \<noteq> 0
           then [Inl IncompleteIteration] else [])))"
  using content_key.reconcile [OF iblt_new_ok(1,2) [OF assms(1,2)] assms(3-8) order_refl]
  by (simp add: iblt_new_ok(3) [OF assms(1,2)])

text \<open>
  When one peer's keys include the other's (fewer than \<open>2 ^ 32\<close> of them), a listing that
  does not end with the error is complete: it lists exactly the missing keys, as inserted.
\<close>

lemma iblt_superset_listing:
  assumes "iblt_new H (content_key_ops H) m k k0 k1 = Ok t" and "m \<noteq> 0" and "k \<noteq> 0"
    and "iblt_insert_all (content_key_ops H) xs t = Ok a"
    and "iblt_insert_all (content_key_ops H) ys t = Ok b"
    and "distinct xs" and "distinct ys" and "\<forall>x \<in> set xs. content_key_wf x"
    and "set ys \<subseteq> set xs" and "length xs < 2 ^ 32"
    and "no_false_pure (content_key_ops H) t (diff_entries xs ys)"
  shows "\<exists>d items. substract (content_key_ops H) a b = Ok d
    \<and> iblt_entries (length xs + length ys + 2) (content_key_ops H)
        (iblt_iterator_new (content_key_ops H) d) = Ok (Some items)
    \<and> (Inl IncompleteIteration \<notin> set items \<longrightarrow>
        mset items = mset (map (\<lambda>x. Inr (Inserted x)) (filter (\<lambda>x. x \<notin> set ys) xs)))"
proof -
  let ?K = "content_key_ops H" and ?missing = "filter (\<lambda>x. x \<notin> set ys) xs"
  have wf: "\<forall>x \<in> set xs \<union> set ys. content_key_wf x" using assms(8,9) by blast
  note t = iblt_new_ok [OF assms(1,2)]
  obtain d found rest where d: "substract ?K a b = Ok d"
    and m: "mset (diff_entries xs ys) = mset (found @ rest)"
    and items: "iblt_entries (length xs + length ys + 2) ?K (iblt_iterator_new ?K d) =
        Ok (Some (map (\<lambda>e. Inr (entry_of e)) found @
          (if \<exists>n < length (buckets t). bcount (bsum ?K t (entries_at ?K t n rest)) \<noteq> 0
           then [Inl IncompleteIteration] else [])))"
    using content_key.reconcile [OF t(1,2) assms(4-7) wf assms(11) order_refl] by blast
  have diff: "diff_entries xs ys = map (\<lambda>k. (k, 1)) ?missing"
    using assms(9) by (auto simp: diff_entries_def filter_empty_conv)
  have "mset (map (\<lambda>e. Inr (entry_of e)) found) = mset (map (\<lambda>x. Inr (Inserted x)) ?missing)"
    if "\<not> (\<exists>n < length (buckets t). bcount (bsum ?K t (entries_at ?K t n rest)) \<noteq> 0)"
  proof -
    have "set (map (\<lambda>k. (k, 1 :: i32)) ?missing) = set (found @ rest)"
      using m unfolding diff by (rule mset_eq_setD)
    then have "\<forall>e \<in> set rest. snd e = 1" by auto
    moreover have "length (map (\<lambda>k. (k, 1 :: i32)) ?missing) = length (found @ rest)"
      using m unfolding diff by (rule mset_eq_length)
    then have "length rest < 2 ^ 32"
      using assms(10) length_filter_le [of "\<lambda>x. x \<notin> set ys" xs] by simp
    ultimately have "rest = []"
      using that t assms(3) by (intro positive_rest_empty [of rest t ?K]) auto
    then have "mset found = image_mset (\<lambda>k. (k, 1)) (mset ?missing)"
      using m by (simp add: diff)
    then show ?thesis by (simp add: entry_of_def multiset.map_comp comp_def)
  qed
  with d items show ?thesis by (auto split: if_splits)
qed

lemma zero_counts_listing:
  assumes "\<forall>b \<in> set (buckets d). bcount b = 0"
  shows "iblt_entries (Suc fuel) K (iblt_iterator_new K d) = Ok (Some [])"
proof -
  have "filter (\<lambda>i. bucket_pure K d (buckets d ! i)) [0..<length (buckets d)] = []"
    using assms by (auto simp: filter_empty_conv bucket_pure_def i32_abs_one)
  then show ?thesis
    using assms by (simp add: iblt_iterator_next_def iblt_iterator_new_def)
qed

text \<open>
  A listing can end without the error although the two sets differ: when two keys fall
  into the same buckets and one was inserted on each side, every count of the difference is
  zero, and the listing is empty. The iterator's final check looks at the counts only.
\<close>

lemma iblt_silent_difference:
  assumes "iblt_ok t" and "key_buckets K t x = key_buckets K t y"
    and "iblt_insert K t x = Ok a" and "iblt_insert K t y = Ok b"
  shows "\<exists>d. substract K a b = Ok d
    \<and> iblt_entries (Suc fuel) K (iblt_iterator_new K d) = Ok (Some [])"
proof -
  have a: "a = toggle K x 1 t" and b: "b = toggle K y 1 t"
    using assms by (simp_all add: iblt_insert_toggle)
  have same: "key_indices K t x = key_indices K t y"
    using assms(1,2) by (simp add: key_buckets_eq)
  have shape: "same_shape a t" "same_shape b t" by (simp_all add: a b)
  let ?d = "a\<lparr>buckets := map2 (sub_bucket K) (buckets a) (buckets b)\<rparr>"
  have "substract K a b = Ok ?d"
    using shape by (simp add: substract_def same_shape_def)
  moreover have "\<forall>c \<in> set (buckets ?d). bcount c = 0"
    by (auto simp: set_zip a b sub_bucket_badd nth_toggle same)
  ultimately show ?thesis by (metis zero_counts_listing)
qed

text \<open>
  C37. The listing of a table that is not the difference of two filled tables need not end.
  Take any table size and any content key that falls into at least two buckets, and put the
  key into one of them only: the listing returns the key as inserted, then as deleted, and
  so on forever. Every number of calls of \<open>next\<close> leaves it unfinished. Such a table can be
  sent by a peer.
\<close>

theorem iblt_listing_diverges:
  assumes "iblt_ok t" and "content_key_wf key"
    and "key_buckets (content_key_ops H) t key = Ok ns" and "i \<in> set ns" and "2 \<le> length ns"
  shows "iblt_entries fuel (content_key_ops H) (iblt_iterator_new (content_key_ops H)
    (rogue_table (content_key_ops H) t key {i} 1)) = Ok None"
  by (rule content_key.rogue_diverges [OF assms])

end
