(* ===== verification/Iblt_Sync.thy ===== *)
theory Iblt_Sync
  imports Iblt_Decode
begin

text \<open>
  Reconciliation of a key set with the table of another one, \<^verbatim>\<open>IBLT::sync\<close> of \<^verbatim>\<open>src/iblt.rs\<close>, over the trait of
  key sets: what the tests of the tables use, and the specification of what the updater and
  discovery do with the entries they list.
\<close>

section \<open>Synchronisation\<close>

text \<open>The loop over the entries stops at an error, with the set as far as it was brought.\<close>

fun sync_entries :: "(iblt_error + 'k iblt_entry) list \<Rightarrow> 'k set \<Rightarrow> iblt_error option \<times> 'k set" where
  "sync_entries [] s = (None, s)"
| "sync_entries (Inl e # es) s = (Some e, s)"
| "sync_entries (Inr (Inserted k) # es) s = sync_entries es (snd (keyset_remove s k))"
| "sync_entries (Inr (Deleted k) # es) s = sync_entries es (snd (keyset_insert s k))"

definition iblt_sync ::
  "nat \<Rightarrow> 'k key_ops \<Rightarrow> 'k iblt \<Rightarrow> 'k iblt \<Rightarrow> 'k set \<Rightarrow> (iblt_error option \<times> 'k set) option outcome" where
  "iblt_sync fuel K t other s =
     obind (substract K t other)
       (\<lambda>d. obind (iblt_entries fuel K (iblt_iterator_new K d))
         (\<lambda>r. Ok (map_option (\<lambda>es. sync_entries es s) r)))"

section \<open>What it does to the set\<close>

text \<open>The keys of a signed list on one side.\<close>

definition side :: "i32 \<Rightarrow> ('k \<times> i32) list \<Rightarrow> 'k set" where
  "side d es = {k. (k, d) \<in> set es}"

lemma sync_entries_found:
  assumes "distinct (map fst es)" and "\<forall>e \<in> set es. snd e = 1 \<or> snd e = - 1"
  shows "sync_entries (map (\<lambda>e. Inr (entry_of e)) es @ ending) s = sync_entries ending ((s - side 1 es) \<union> side (- 1) es)"
  using assms
proof (induction es arbitrary: s)
  case Nil
  then show ?case by (simp add: side_def)
next
  case (Cons e es)
  obtain k d where e: "e = (k, d)" by (cases e)
  have fresh: "(k, b) \<notin> set es" for b using Cons.prems(1) by (force simp: e)
  have "d = 1 \<or> d = - 1" using Cons.prems(2) by (simp add: e)
  then show ?case
  proof
    assume "d = 1"
    then have "(s - {k} - side 1 es) \<union> side (- 1) es = (s - side 1 (e # es)) \<union> side (- 1) (e # es)"
      using fresh by (auto simp: side_def e)
    with Cons \<open>d = 1\<close> show ?thesis by (simp add: e entry_of_def keyset_remove_def)
  next
    assume "d = - 1"
    then have "(insert k s - side 1 es) \<union> side (- 1) es = (s - side 1 (e # es)) \<union> side (- 1) (e # es)"
      using fresh by (auto simp: side_def e)
    with Cons \<open>d = - 1\<close> show ?thesis by (simp add: e entry_of_def keyset_insert_def)
  qed
qed

lemma side_diff_entries [simp]:
  "side 1 (diff_entries xs ys) = set xs - set ys" "side (- 1) (diff_entries xs ys) = set ys - set xs"
  by (auto simp: side_def diff_entries_def)

text \<open>
  The set of one side becomes the set of the other, unless the listing is incomplete: then it is
  still between what both have and what either has.
\<close>

lemma sync_makes_equal:
  assumes "iblt_new H (content_key_ops H) m k k0 k1 = Ok t" and "m \<noteq> 0"
    and "iblt_insert_all (content_key_ops H) xs t = Ok a" and "iblt_insert_all (content_key_ops H) ys t = Ok b"
    and "distinct xs" and "distinct ys" and "\<forall>x \<in> set xs \<union> set ys. content_key_wf x"
    and "no_false_pure (content_key_ops H) t (diff_entries xs ys)"
  shows "\<exists>e s rest. iblt_sync (length xs + length ys + 2) (content_key_ops H) a b (set xs) = Ok (Some (e, s))
    \<and> set xs \<inter> set ys \<subseteq> s \<and> s \<subseteq> set xs \<union> set ys
    \<and> (\<forall>n < unat m. length (entries_at (content_key_ops H) t n rest) \<noteq> 1)
    \<and> set rest \<subseteq> set (diff_entries xs ys) \<and> (rest = [] \<longrightarrow> e = None \<and> s = set ys)"
proof -
  let ?K = "content_key_ops H" and ?D = "diff_entries xs ys"
  obtain d found rest where d: "substract ?K a b = Ok d" and m: "mset ?D = mset (found @ rest)"
    and one: "\<forall>n < unat m. length (entries_at ?K t n rest) \<noteq> 1"
    and es: "iblt_entries (length xs + length ys + 2) ?K (iblt_iterator_new ?K d) =
      Ok (Some (map (\<lambda>e. Inr (entry_of e)) found @
        (if \<exists>n < unat m. bcount (bsum ?K t (entries_at ?K t n rest)) \<noteq> 0 then [Inl IncompleteIteration] else [])))"
    using content_key.reconcile [OF iblt_new_ok(1,2) [OF assms(1,2)] assms(3-8) order_refl] iblt_new_ok(3) [OF assms(1,2)]
    by auto
  have sub: "set found \<subseteq> set ?D" "set rest \<subseteq> set ?D" and all: "rest = [] \<Longrightarrow> set found = set ?D"
    using mset_eq_setD [OF m] by auto
  have "mset (map fst ?D) = mset (map fst (found @ rest))" using m by (metis mset_map)
  moreover have "distinct (map fst ?D)" using assms(5,6) by (auto simp: diff_entries_def comp_def)
  ultimately have dist: "distinct (map fst found)" by (metis distinct_append map_append mset_eq_imp_distinct_iff)
  let ?s = "(set xs - side 1 found) \<union> side (- 1) found"
  have sides: "side 1 found \<subseteq> set xs - set ys" "side (- 1) found \<subseteq> set ys - set xs"
    using sub(1) side_diff_entries [of xs ys] by (auto simp: side_def)
  have signs: "\<forall>e \<in> set found. snd e = 1 \<or> snd e = - 1" using sub(1) by (auto simp: diff_entries_def)
  define ending where "ending = (if \<exists>n < unat m. bcount (bsum ?K t (entries_at ?K t n rest)) \<noteq> 0
    then [Inl IncompleteIteration] else [] :: (iblt_error + content_key iblt_entry) list)"
  have "\<exists>e. iblt_sync (length xs + length ys + 2) ?K a b (set xs) = Ok (Some (e, ?s)) \<and> (ending = [] \<longrightarrow> e = None)"
    using es sync_entries_found [OF dist signs, of ending "set xs"] by (auto simp: iblt_sync_def d ending_def)
  moreover have "ending = []" if "rest = []" by (simp add: ending_def that)
  moreover have "?s = set ys" if "rest = []"
    using all [OF that] side_diff_entries [of xs ys] by (auto simp: side_def)
  ultimately show ?thesis using sides one sub(2) by blast
qed

end
