(* ===== verification/Text_Codec.thy ===== *)
theory Text_Codec
  imports Prelude
begin

text \<open>
  The encoded text of an ad: \<^verbatim>\<open>src/text.rs\<close>. A Rust string is the list of its Unicode
  scalar values; its UTF-8 and UTF-16 forms and their decoders are the standard library's.
  The crates \<^verbatim>\<open>snap\<close> (compression) and \<^verbatim>\<open>byteorder\<close> are parameters.
\<close>

section \<open>Strings of the standard library\<close>

type_synonym rstring = "nat list"

definition scalar :: "nat \<Rightarrow> bool" where
  "scalar c \<longleftrightarrow> c < 0xD800 \<or> (0xE000 \<le> c \<and> c < 0x110000)"

definition valid_str :: "rstring \<Rightarrow> bool" where
  "valid_str s \<longleftrightarrow> (\<forall>c \<in> set s. scalar c)"

definition utf8_char :: "nat \<Rightarrow> nat list" where
  "utf8_char c =
     (if c < 0x80 then [c]
      else if c < 0x800 then [0xC0 + c div 64, 0x80 + c mod 64]
      else if c < 0x10000 then [0xE0 + c div 4096, 0x80 + c div 64 mod 64, 0x80 + c mod 64]
      else [0xF0 + c div 262144, 0x80 + c div 4096 mod 64, 0x80 + c div 64 mod 64, 0x80 + c mod 64])"

text \<open>\<^verbatim>\<open>str::as_bytes\<close>\<close>

definition str_as_bytes :: "rstring \<Rightarrow> bytes" where
  "str_as_bytes s = map of_nat (concat (map utf8_char s))"

definition cont :: "nat \<Rightarrow> bool" where
  "cont b \<longleftrightarrow> 0x80 \<le> b \<and> b < 0xC0"

fun decode_utf8 :: "nat list \<Rightarrow> rstring option" where
  "decode_utf8 [] = Some []"
| "decode_utf8 (b # bs) =
     (if b < 0x80 then map_option ((#) b) (decode_utf8 bs)
      else if 0xC2 \<le> b \<and> b \<le> 0xDF then
        (case bs of
           c1 # r \<Rightarrow>
             if cont c1 then map_option ((#) ((b - 0xC0) * 64 + (c1 - 0x80))) (decode_utf8 r)
             else None
         | _ \<Rightarrow> None)
      else if 0xE0 \<le> b \<and> b \<le> 0xEF then
        (case bs of
           c1 # c2 # r \<Rightarrow>
             let v = (b - 0xE0) * 4096 + (c1 - 0x80) * 64 + (c2 - 0x80)
             in if cont c1 \<and> cont c2 \<and> 0x800 \<le> v \<and> scalar v
                then map_option ((#) v) (decode_utf8 r) else None
         | _ \<Rightarrow> None)
      else if 0xF0 \<le> b \<and> b \<le> 0xF4 then
        (case bs of
           c1 # c2 # c3 # r \<Rightarrow>
             let v = (b - 0xF0) * 262144 + (c1 - 0x80) * 4096 + (c2 - 0x80) * 64 + (c3 - 0x80)
             in if cont c1 \<and> cont c2 \<and> cont c3 \<and> 0x10000 \<le> v \<and> v < 0x110000
                then map_option ((#) v) (decode_utf8 r) else None
         | _ \<Rightarrow> None)
      else None)"

text \<open>\<^verbatim>\<open>String::from_utf8\<close>\<close>

definition from_utf8 :: "bytes \<Rightarrow> rstring option" where
  "from_utf8 bs = decode_utf8 (map unat bs)"

text \<open>\<^verbatim>\<open>str::encode_utf16\<close>\<close>

definition utf16_char :: "nat \<Rightarrow> nat list" where
  "utf16_char c =
     (if c < 0x10000 then [c]
      else [0xD800 + (c - 0x10000) div 1024, 0xDC00 + (c - 0x10000) mod 1024])"

definition encode_utf16 :: "rstring \<Rightarrow> u16 list" where
  "encode_utf16 s = map of_nat (concat (map utf16_char s))"

fun decode_utf16 :: "nat list \<Rightarrow> rstring option" where
  "decode_utf16 [] = Some []"
| "decode_utf16 (u # us) =
     (if u < 0xD800 \<or> 0xE000 \<le> u then map_option ((#) u) (decode_utf16 us)
      else if u < 0xDC00 then
        (case us of
           l # r \<Rightarrow>
             if 0xDC00 \<le> l \<and> l < 0xE000
             then map_option ((#) (0x10000 + (u - 0xD800) * 1024 + (l - 0xDC00))) (decode_utf16 r)
             else None
         | _ \<Rightarrow> None)
      else None)"

text \<open>\<^verbatim>\<open>String::from_utf16\<close>\<close>

definition from_utf16 :: "u16 list \<Rightarrow> rstring option" where
  "from_utf16 us = decode_utf16 (map unat us)"

section \<open>Foreign code\<close>

text \<open>
  \<open>read_u16\<close> reads the next two bytes of a cursor and returns what is left, or nothing at
  the end. \<open>snap_compress\<close> and \<open>snap_decompress\<close> are the writer and the reader of \<^verbatim>\<open>snap\<close>.
\<close>

record text_crates =
  write_u16 :: "u16 \<Rightarrow> bytes"
  read_u16 :: "bytes \<Rightarrow> (u16 \<times> bytes) option"
  snap_compress :: "bytes \<Rightarrow> bytes"
  snap_decompress :: "bytes \<Rightarrow> bytes option"

text \<open>What the documentation of both crates promises.\<close>

definition text_crates_ok :: "text_crates \<Rightarrow> bool" where
  "text_crates_ok T \<longleftrightarrow>
     (\<forall>w r. read_u16 T (write_u16 T w @ r) = Some (w, r))
     \<and> read_u16 T [] = None \<and> (\<forall>w. length (write_u16 T w) = 2)
     \<and> (\<forall>d. snap_decompress T (snap_compress T d) = Some d)"

section \<open>The text type\<close>

record enc_text =
  encoded :: bytes

datatype text_error = Snap_Error | FromUtf8Error | FromUtf16Error

definition UTF_16 :: u8 where
  "UTF_16 = 1"

definition COMPRESSED :: u8 where
  "COMPRESSED = 2"

definition text_new :: "text_crates \<Rightarrow> rstring \<Rightarrow> enc_text" where
  "text_new T s =
     (let utf16encoded = concat (map (write_u16 T) (encode_utf16 s));
          (flag, data) = (if length (str_as_bytes s) < length utf16encoded
                          then (0, str_as_bytes s) else (0 OR UTF_16, utf16encoded));
          compressed = snap_compress T data;
          (flag, data) = (if length compressed < length data
                          then (flag OR COMPRESSED, compressed) else (flag, data))
      in \<lparr>encoded = flag # data\<rparr>)"

definition text_from_encoded :: "bytes \<Rightarrow> enc_text" where
  "text_from_encoded bs = \<lparr>encoded = bs\<rparr>"

definition text_as_bytes :: "enc_text \<Rightarrow> bytes" where
  "text_as_bytes t = encoded t"

text \<open>
  The reading loop of \<open>as_string\<close>. Every successful read consumes input, so a fuel of one
  more than the number of bytes is enough.
\<close>

fun read_all_u16 :: "text_crates \<Rightarrow> nat \<Rightarrow> bytes \<Rightarrow> u16 list" where
  "read_all_u16 T 0 bs = []"
| "read_all_u16 T (Suc fuel) bs =
     (case read_u16 T bs of None \<Rightarrow> [] | Some (w, r) \<Rightarrow> w # read_all_u16 T fuel r)"

definition text_as_string :: "text_crates \<Rightarrow> enc_text \<Rightarrow> (text_error + rstring) outcome" where
  "text_as_string T t =
     (case encoded t of
        [] \<Rightarrow> Panic Index_out_of_bounds
      | flag # rest \<Rightarrow>
          (case (if flag AND COMPRESSED \<noteq> 0 then snap_decompress T rest else Some rest) of
             None \<Rightarrow> Ok (Inl Snap_Error)
           | Some data \<Rightarrow>
               if flag AND UTF_16 \<noteq> 0
               then (case from_utf16 (read_all_u16 T (Suc (length data)) data) of
                       None \<Rightarrow> Ok (Inl FromUtf16Error) | Some s \<Rightarrow> Ok (Inr s))
               else (case from_utf8 data of
                       None \<Rightarrow> Ok (Inl FromUtf8Error) | Some s \<Rightarrow> Ok (Inr s))))"

definition text_encoding :: "enc_text \<Rightarrow> u8 outcome" where
  "text_encoding t = (case encoded t of [] \<Rightarrow> Panic Index_out_of_bounds | flag # _ \<Rightarrow> Ok flag)"

section \<open>Decoding inverts encoding\<close>

lemma base64_digits:
  fixes c :: nat
  shows "c div 4096 * 4096 + c div 64 mod 64 * 64 + c mod 64 = c"
    and "c div 262144 * 262144 + c div 4096 mod 64 * 4096 + c div 64 mod 64 * 64 + c mod 64 = c"
proof -
  have d: "c div 4096 = c div 64 div 64" "c div 262144 = c div 64 div 64 div 64"
    by (simp_all add: div_mult2_eq [symmetric])
  have a: "c div 64 * 64 + c mod 64 = c" "c div 64 div 64 * 64 + c div 64 mod 64 = c div 64"
    "c div 64 div 64 div 64 * 64 + c div 64 div 64 mod 64 = c div 64 div 64"
    by (rule div_mult_mod_eq)+
  show "c div 4096 * 4096 + c div 64 mod 64 * 64 + c mod 64 = c"
    unfolding d using a by linarith
  show "c div 262144 * 262144 + c div 4096 mod 64 * 4096 + c div 64 mod 64 * 64 + c mod 64 = c"
    unfolding d using a by linarith
qed

lemma decode_utf8_char:
  assumes "scalar c"
  shows "decode_utf8 (utf8_char c @ r) = map_option ((#) c) (decode_utf8 r)"
proof -
  consider "c < 0x80" | "0x80 \<le> c" "c < 0x800" | "0x800 \<le> c" "c < 0x10000"
    | "0x10000 \<le> c" "c < 0x110000"
    using assms unfolding scalar_def by linarith
  then show ?thesis
  proof cases
    case 1
    then show ?thesis by (simp add: utf8_char_def)
  next
    case 2
    then have "2 \<le> c div 64" "c div 64 < 32" by simp_all
    with 2 show ?thesis by (simp add: utf8_char_def cont_def)
  next
    case 3
    with base64_digits(1) [of c] assms show ?thesis by (simp add: utf8_char_def cont_def Let_def)
  next
    case 4
    with base64_digits(2) [of c] show ?thesis by (simp add: utf8_char_def cont_def Let_def)
  qed
qed

lemma utf8_char_bound: "scalar c \<Longrightarrow> b \<in> set (utf8_char c) \<Longrightarrow> b < 256"
  by (auto simp: utf8_char_def scalar_def split: if_splits)

lemma from_utf8_as_bytes: "valid_str s \<Longrightarrow> from_utf8 (str_as_bytes s) = Some s"
proof -
  assume v: "valid_str s"
  have "map (unat \<circ> (of_nat :: nat \<Rightarrow> u8)) (concat (map utf8_char s)) = concat (map utf8_char s)"
    using v by (intro map_idI)
      (auto simp: valid_str_def unat_of_nat intro!: mod_less dest: utf8_char_bound)
  moreover from v have "decode_utf8 (concat (map utf8_char s)) = Some s"
    by (induction s) (auto simp: valid_str_def decode_utf8_char)
  ultimately show ?thesis by (simp add: from_utf8_def str_as_bytes_def)
qed

lemma decode_utf16_char:
  assumes "scalar c"
  shows "decode_utf16 (utf16_char c @ r) = map_option ((#) c) (decode_utf16 r)"
proof (cases "c < 0x10000")
  case True
  with assms show ?thesis by (auto simp: utf16_char_def scalar_def)
next
  case False
  have "(c - 0x10000) div 1024 * 1024 + (c - 0x10000) mod 1024 = c - 0x10000"
    by (rule div_mult_mod_eq)
  moreover from False assms have "(c - 0x10000) div 1024 < 1024" by (simp add: scalar_def)
  ultimately show ?thesis using False assms by (simp add: utf16_char_def scalar_def)
qed

lemma utf16_char_bound: "scalar c \<Longrightarrow> u \<in> set (utf16_char c) \<Longrightarrow> u < 65536"
  by (auto simp: utf16_char_def scalar_def split: if_splits)

lemma from_utf16_encode: "valid_str s \<Longrightarrow> from_utf16 (encode_utf16 s) = Some s"
proof -
  assume v: "valid_str s"
  have "map (unat \<circ> (of_nat :: nat \<Rightarrow> u16)) (concat (map utf16_char s)) = concat (map utf16_char s)"
    using v by (intro map_idI)
      (auto simp: valid_str_def unat_of_nat intro!: mod_less dest: utf16_char_bound)
  moreover from v have "decode_utf16 (concat (map utf16_char s)) = Some s"
    by (induction s) (auto simp: valid_str_def decode_utf16_char)
  ultimately show ?thesis by (simp add: from_utf16_def encode_utf16_def)
qed

lemma read_all_u16_write:
  assumes "text_crates_ok T" and "length ws < fuel"
  shows "read_all_u16 T fuel (concat (map (write_u16 T) ws)) = ws"
  using assms(2)
proof (induction ws arbitrary: fuel)
  case Nil
  then show ?case using assms(1) by (cases fuel) (auto simp: text_crates_ok_def)
next
  case (Cons w ws)
  then show ?case using assms(1) by (cases fuel) (auto simp: text_crates_ok_def)
qed

lemma text_crates_okD:
  assumes "text_crates_ok T"
  shows "snap_decompress T (snap_compress T d) = Some d"
    and "read_all_u16 T (Suc (length (concat (map (write_u16 T) ws)))) (concat (map (write_u16 T) ws)) = ws"
proof -
  show "snap_decompress T (snap_compress T d) = Some d"
    using assms by (simp add: text_crates_ok_def)
  have "length ws \<le> length (concat (map (write_u16 T) ws))"
    using assms by (induction ws) (auto simp: text_crates_ok_def)
  then show "read_all_u16 T (Suc (length (concat (map (write_u16 T) ws)))) (concat (map (write_u16 T) ws)) = ws"
    by (intro read_all_u16_write assms) simp
qed

lemma text_as_string_new:
  assumes "text_crates_ok T" and "valid_str s"
  shows "text_as_string T (text_new T s) = Ok (Inr s)"
  using text_crates_okD [OF assms(1)] from_utf8_as_bytes [OF assms(2)] from_utf16_encode [OF assms(2)]
  by (auto simp: text_new_def text_as_string_def Let_def UTF_16_def COMPRESSED_def
      simp del: read_all_u16.simps)

text \<open>
  C18. Round trip: whatever of the four encodings \<^verbatim>\<open>Text::new\<close> chooses,
  \<^verbatim>\<open>Text::as_string\<close> gives the string back, for every string.
\<close>

theorem text_roundtrip:
  assumes "text_crates_ok T" and "valid_str s"
  shows "text_as_string T (text_new T s) = Ok (Inr s)"
  using assms by (rule text_as_string_new)

text \<open>
  Space: the encoded form never takes more than its flag byte over the shorter of the
  two plain encodings, and never more than the flag byte over the compressed form of that one.
\<close>

lemma text_new_size:
  "length (encoded (text_new T s)) \<le> 1 + length (str_as_bytes s)
   \<and> length (encoded (text_new T s)) \<le> 1 + length (concat (map (write_u16 T) (encode_utf16 s)))
   \<and> (\<exists>d \<in> {str_as_bytes s, concat (map (write_u16 T) (encode_utf16 s))}.
         length (encoded (text_new T s)) = 1 + min (length d) (length (snap_compress T d)))"
  by (auto simp: text_new_def Let_def)

section \<open>A run\<close>

text \<open>
  Little-endian pairs, and a compressor that shortens one input: the UTF-16 form of the two
  characters U+8077 U+8A8D.
\<close>

definition demo_swap :: "bytes \<Rightarrow> bytes" where
  "demo_swap d = (if d = [0x77, 0x80, 0x8D, 0x8A] then [9]
                  else if d = [9] then [0x77, 0x80, 0x8D, 0x8A] else d)"

definition demo_text_crates :: text_crates where
  "demo_text_crates =
     \<lparr>write_u16 = (\<lambda>w. [ucast w, ucast (drop_bit 8 w)]),
      read_u16 = (\<lambda>bs. case bs of a # b # r \<Rightarrow> Some (ucast a OR push_bit 8 (ucast b), r) | _ \<Rightarrow> None),
      snap_compress = demo_swap, snap_decompress = Some \<circ> demo_swap\<rparr>"

lemma demo_text_crates_ok: "text_crates_ok demo_text_crates"
proof -
  have "ucast (ucast w :: u8) OR push_bit 8 (ucast (ucast (drop_bit 8 w) :: u8)) = w" for w :: u16
    by (rule bit_word_eqI) (auto simp: bit_simps)
  then show ?thesis
    by (simp add: text_crates_ok_def demo_text_crates_def demo_swap_def)
qed

theorem text_roundtrip_witness:
  "text_crates_ok demo_text_crates \<and> valid_str [0x8077, 0x8A8D]
   \<and> text_new demo_text_crates [0x8077, 0x8A8D] = \<lparr>encoded = [3, 9]\<rparr>
   \<and> text_as_string demo_text_crates (text_new demo_text_crates [0x8077, 0x8A8D])
       = Ok (Inr [0x8077, 0x8A8D])"
proof -
  have v: "valid_str [0x8077, 0x8A8D]" by (simp add: valid_str_def scalar_def)
  have "text_new demo_text_crates [0x8077, 0x8A8D] = \<lparr>encoded = [3, 9]\<rparr>"
    by (simp add: text_new_def demo_text_crates_def str_as_bytes_def utf8_char_def
        encode_utf16_def utf16_char_def demo_swap_def UTF_16_def COMPRESSED_def)
  with text_roundtrip [OF demo_text_crates_ok v] v show ?thesis
    by (simp add: demo_text_crates_ok)
qed

end
