(* ===== verification/Content.thy ===== *)
theory Content
  imports Iblt_Key Text_Codec
begin

text \<open>
  Ads and content (\<^verbatim>\<open>src/ad.rs\<close>, \<^verbatim>\<open>src/content.rs\<close>), the structures of the Bitcoin crates
  whose fields the sources read or build, and the view of the header chain
  (\<^verbatim>\<open>src/trunk.rs\<close> and its implementation in \<^verbatim>\<open>src/p2p_bitcoin.rs\<close>).
\<close>

section \<open>Structures of the Bitcoin crates\<close>

record out_point =
  op_txid :: hash
  op_vout :: u32

record tx_in =
  previous_output :: out_point
  script_sig :: bytes
  sequence :: u32
  tx_witness :: "bytes list"

record tx_out =
  out_value :: u64
  script_pubkey :: bytes

record transaction =
  tx_version :: u32
  lock_time :: u32
  tx_input :: "tx_in list"
  tx_output :: "tx_out list"

record block_header =
  hd_version :: u32
  prev_blockhash :: hash
  merkle_root :: hash
  hd_time :: u32
  hd_bits :: u32
  hd_nonce :: u32

record block =
  header :: block_header
  txdata :: "transaction list"

text \<open>The default of a hash type: 32 zero bytes.\<close>

definition hash_default :: hash where
  "hash_default = replicate 32 0"

section \<open>Ads\<close>

record ad =
  ad_cat :: rstring
  ad_abs :: rstring
  ad_content :: enc_text

section \<open>Foreign functions\<close>

text \<open>
  The functions of the crates the content store calls, over the proof type \<open>'p\<close> of
  \<^verbatim>\<open>bitcoin_wallet\<close> and the public key type \<open>'k\<close> of \<^verbatim>\<open>bitcoin\<close>. \<open>proof_new\<close> is
  \<^verbatim>\<open>ProvedTransaction::new\<close>, \<open>build_script\<close> assembles the operations handed to
  \<^verbatim>\<open>script::Builder\<close>, \<open>p2wsh_script\<close> is the script of the pay-to-witness-script address.
\<close>

datatype script_op = Push_int int | Op_csv | Op_drop | Push_slice bytes | Op_checksig

record ('p, 'k) crates =
  hashing :: hash_crates
  texts :: text_crates
  sha256 :: "bytes \<Rightarrow> hash"
  sha256_to_hex :: "hash \<Rightarrow> string"
  sha256_from_hex :: "string \<Rightarrow> hash option"
  sha256d_to_hex :: "hash \<Rightarrow> string"
  sha256d_from_hex :: "string \<Rightarrow> hash option"
  cbor_ad :: "ad \<Rightarrow> bytes"
  uncbor_ad :: "bytes \<Rightarrow> ad option"
  cbor_proof :: "'p \<Rightarrow> bytes"
  uncbor_proof :: "bytes \<Rightarrow> 'p option"
  proof_new :: "block \<Rightarrow> nat \<Rightarrow> 'p"
  proof_block_hash :: "'p \<Rightarrow> hash"
  proof_merkle_root :: "'p \<Rightarrow> hash"
  proof_transaction :: "'p \<Rightarrow> transaction"
  header_hash :: "block_header \<Rightarrow> hash"
  txid :: "transaction \<Rightarrow> hash"
  serialize_tx :: "transaction \<Rightarrow> bytes"
  deserialize_tx :: "bytes \<Rightarrow> transaction option"
  pk_to_bytes :: "'k \<Rightarrow> bytes"
  pk_from_slice :: "bytes \<Rightarrow> 'k option"
  pk_to_string :: "'k \<Rightarrow> string"
  tweak_exp_add :: "'k \<Rightarrow> bytes \<Rightarrow> 'k option"
  build_script :: "script_op list \<Rightarrow> bytes"
  p2wsh_script :: "bytes \<Rightarrow> bytes"

text \<open>
  What the documentation of these crates promises: SHA-256 digests have 32 bytes, the
  textual and binary forms can be read back, and the serialization of an ad is not empty.
\<close>

definition crates_ok :: "('p, 'k) crates \<Rightarrow> bool" where
  "crates_ok C \<longleftrightarrow>
     text_crates_ok (texts C)
     \<and> (\<forall>d. length (sha256 C d) = DIGEST_LEN)
     \<and> (\<forall>h. length h = DIGEST_LEN \<longrightarrow> sha256_from_hex C (sha256_to_hex C h) = Some h)
     \<and> (\<forall>s h. sha256_from_hex C s = Some h \<longrightarrow> length h = DIGEST_LEN)
     \<and> (\<forall>h. length h = DIGEST_LEN \<longrightarrow> sha256d_from_hex C (sha256d_to_hex C h) = Some h)
     \<and> (\<forall>a. cbor_ad C a \<noteq> [])
     \<and> (\<forall>p. uncbor_proof C (cbor_proof C p) = Some p)
     \<and> (\<forall>k. pk_from_slice C (pk_to_bytes C k) = Some k)"

section \<open>Operations on ads and content\<close>

definition ad_new :: "('p, 'k) crates \<Rightarrow> rstring \<Rightarrow> rstring \<Rightarrow> rstring \<Rightarrow> ad" where
  "ad_new C cat abstr s = \<lparr>ad_cat = cat, ad_abs = abstr, ad_content = text_new (texts C) s\<rparr>"

definition ad_serialize :: "('p, 'k) crates \<Rightarrow> ad \<Rightarrow> bytes" where
  "ad_serialize C a = cbor_ad C a"

definition ad_deserialize :: "('p, 'k) crates \<Rightarrow> bytes \<Rightarrow> ad option" where
  "ad_deserialize C data = uncbor_ad C data"

definition ad_digest :: "('p, 'k) crates \<Rightarrow> ad \<Rightarrow> hash" where
  "ad_digest C a = sha256 C (ad_serialize C a)"

record ('p, 'k) content =
  ad :: ad
  funding :: 'p
  funder :: 'k
  content_term :: u16

definition content_length :: "('p, 'k) crates \<Rightarrow> ('p, 'k) content \<Rightarrow> u32" where
  "content_length C c = of_nat (length (ad_serialize C (ad c)))"

text \<open>An ad whose serialized length fits the \<^verbatim>\<open>u32\<close> the sources cast it to.\<close>

definition ad_fits :: "('p, 'k) crates \<Rightarrow> ad \<Rightarrow> bool" where
  "ad_fits C a \<longleftrightarrow> length (ad_serialize C a) < 2 ^ 32"

text \<open>
  The text of an ad as \<^verbatim>\<open>Text::new\<close> would have encoded it. An ad received from a peer need
  not have it: the encoded bytes are deserialized as they are.
\<close>

definition canonical_text :: "('p, 'k) crates \<Rightarrow> enc_text \<Rightarrow> bool" where
  "canonical_text C t \<longleftrightarrow>
     (case text_as_string (texts C) t of
        Ok (Inr s) \<Rightarrow> valid_str s \<and> text_new (texts C) s = t
      | _ \<Rightarrow> False)"

section \<open>The header chain\<close>

record trunk =
  is_on_trunk :: "hash \<Rightarrow> bool"
  get_header :: "hash \<Rightarrow> block_header option"
  get_header_for_height :: "u32 \<Rightarrow> block_header option"
  get_height :: "hash \<Rightarrow> u32 option"
  get_tip :: "block_header option"
  trunk_len :: u32

text \<open>
  \<^verbatim>\<open>ChainDBTrunk\<close>: the trait over the header cache of \<^verbatim>\<open>murmel\<close>, which is a parameter. A
  cached header carries its height.
\<close>

record cached_header =
  stored_header :: block_header
  stored_height :: u32

record chaindb =
  pos_on_trunk :: "hash \<Rightarrow> u32 option"
  cdb_get_header :: "hash \<Rightarrow> cached_header option"
  cdb_get_header_for_height :: "u32 \<Rightarrow> cached_header option"
  header_tip :: "cached_header option"

definition chaindb_trunk :: "chaindb \<Rightarrow> trunk" where
  "chaindb_trunk D =
     \<lparr>is_on_trunk = (\<lambda>h. pos_on_trunk D h \<noteq> None),
      get_header = (\<lambda>h. map_option stored_header (cdb_get_header D h)),
      get_header_for_height = (\<lambda>n. map_option stored_header (cdb_get_header_for_height D n)),
      get_height = pos_on_trunk D,
      get_tip = map_option stored_header (header_tip D),
      trunk_len = (case header_tip D of Some c \<Rightarrow> stored_height c | None \<Rightarrow> 0)\<rparr>"

text \<open>
  \<^verbatim>\<open>TestTrunk\<close> of the tests of \<^verbatim>\<open>src/store.rs\<close>: the chain is the vector of its headers.
\<close>

definition test_trunk :: "('p, 'k) crates \<Rightarrow> block_header list \<Rightarrow> trunk" where
  "test_trunk C hs =
     \<lparr>is_on_trunk = (\<lambda>b. \<exists>h \<in> set hs. header_hash C h = b),
      get_header = (\<lambda>b. find (\<lambda>h. header_hash C h = b) hs),
      get_header_for_height = (\<lambda>n. if unat n < length hs then Some (hs ! unat n) else None),
      get_height = (\<lambda>b. map_option of_nat
         (find (\<lambda>i. header_hash C (hs ! i) = b) [0..<length hs])),
      get_tip = (if 0 < length hs then Some (hs ! (length hs - 1)) else None),
      trunk_len = of_nat (length hs)\<rparr>"

section \<open>Facts on digests and texts\<close>

lemma crates_okD:
  assumes "crates_ok C"
  shows "text_crates_ok (texts C)" "length (sha256 C d) = DIGEST_LEN"
    and "length h = DIGEST_LEN \<Longrightarrow> sha256_from_hex C (sha256_to_hex C h) = Some h"
    and "sha256_from_hex C s = Some h \<Longrightarrow> length h = DIGEST_LEN"
    and "length h = DIGEST_LEN \<Longrightarrow> sha256d_from_hex C (sha256d_to_hex C h) = Some h"
    and "cbor_ad C a \<noteq> []"
    and "uncbor_proof C (cbor_proof C p) = Some p"
    and "pk_from_slice C (pk_to_bytes C k) = Some k"
  using assms by (auto simp: crates_ok_def)

lemma length_ad_digest: "crates_ok C \<Longrightarrow> length (ad_digest C a) = DIGEST_LEN"
  by (simp add: ad_digest_def crates_okD)

lemma content_length_pos:
  assumes "crates_ok C" and "ad_fits C (ad c)"
  shows "content_length C c \<noteq> 0"
proof -
  have "unat (content_length C c) = length (cbor_ad C (ad c))"
    using assms(2) by (simp add: content_length_def ad_fits_def ad_serialize_def unat_of_nat)
  with crates_okD(6) [OF assms(1), of "ad c"] show ?thesis by auto
qed

lemma ad_new_canonical:
  assumes "crates_ok C" and "valid_str s"
  shows "canonical_text C (ad_content (ad_new C cat abstr s))"
  using assms crates_okD(1) [OF assms(1)]
  by (simp add: canonical_text_def ad_new_def text_as_string_new)

end
