(* ===== verification/Wallet.thy ===== *)
theory Wallet
  imports Content
begin

text \<open>
  The wallet, \<^verbatim>\<open>src/wallet.rs\<close>: the balances, the processing of blocks, and the two operations
  that build a transaction, funding an ad and withdrawing. The coin set and the key
  hierarchy are types of the crate \<^verbatim>\<open>bitcoin_wallet\<close>, so they are type parameters with the
  functions the sources call on them. The build is the default one, without the
  \<^verbatim>\<open>bitcoinconsensus\<close> feature. The dialogue of \<^verbatim>\<open>Wallet::new\<close> is in the theory \<open>Wallet_New\<close>.
\<close>

section \<open>Types\<close>

record key_derivation =
  kd_account :: u32
  kd_sub :: u32
  kd_kix :: u32
  kd_tweak :: "bytes option"
  kd_csv :: "u16 option"

record coin =
  coin_output :: tx_out
  derivation :: key_derivation

record ('c, 'm) wallet =
  coins :: 'c
  master :: 'm

text \<open>
  An account is addressed by its number and sub-account number. \<open>next_key\<close> returns the script
  of the new key's address, \<open>key_script\<close> that of an existing key, \<open>account_columns\<close> the address
  type, the master public key and the serialized keys of an account.
\<close>

record ('p, 'k, 'c, 'm, 'u) wallet_crates =
  coins_new :: 'c
  confirmed_balance :: "'c \<Rightarrow> u64"
  unconfirmed_balance :: "'c \<Rightarrow> u64"
  coins_available_balance :: "'c \<Rightarrow> u32 \<Rightarrow> (hash \<Rightarrow> u32 option) \<Rightarrow> u64"
  coins_unwind_tip :: "'c \<Rightarrow> hash \<Rightarrow> 'c"
  coins_process :: "'c \<Rightarrow> 'm \<Rightarrow> block \<Rightarrow> bool \<times> 'c \<times> 'm"
  coins_process_unconfirmed :: "'c \<Rightarrow> 'm \<Rightarrow> transaction \<Rightarrow> 'c \<times> 'm"
  choose_inputs :: "'c \<Rightarrow> u64 \<Rightarrow> u32 \<Rightarrow> (hash \<Rightarrow> u32 option) \<Rightarrow> (out_point \<times> coin \<times> u32) list"
  confirmed_coins :: "'c \<Rightarrow> (out_point \<times> coin) list"
  unconfirmed_coins :: "'c \<Rightarrow> (out_point \<times> coin) list"
  coin_proofs :: "'c \<Rightarrow> (hash \<times> 'p) list"
  add_confirmed :: "'c \<Rightarrow> out_point \<Rightarrow> coin \<Rightarrow> 'p \<Rightarrow> 'c"
  unlocker_new :: "'m \<Rightarrow> string \<Rightarrow> string + 'u"
  has_account :: "'m \<Rightarrow> u32 \<times> u32 \<Rightarrow> bool"
  next_key :: "'m \<Rightarrow> u32 \<times> u32 \<Rightarrow> (bytes \<times> 'm) option"
  add_script_key ::
    "'m \<Rightarrow> u32 \<times> u32 \<Rightarrow> ('k \<Rightarrow> u16 option \<Rightarrow> bytes) \<Rightarrow> bytes option \<Rightarrow> u16 option \<Rightarrow> (u32 \<times> 'm) option"
  key_script :: "'m \<Rightarrow> u32 \<times> u32 \<Rightarrow> u32 \<Rightarrow> bytes option"
  base_public_key :: "'m \<Rightarrow> u32 \<times> u32 \<Rightarrow> u32 \<Rightarrow> 'k option"
  look_ahead :: "'m \<Rightarrow> u32 \<times> u32 \<Rightarrow> u32 \<Rightarrow> 'm option"
  sign :: "'m \<Rightarrow> 'u \<Rightarrow> (out_point \<Rightarrow> tx_out option) \<Rightarrow> transaction \<Rightarrow> string + (nat \<times> transaction)"
  get_weight :: "transaction \<Rightarrow> nat"
  account_numbers :: "'m \<Rightarrow> (u32 \<times> u32) list"
  account_columns :: "'m \<Rightarrow> u32 \<times> u32 \<Rightarrow> (u32 \<times> string \<times> bytes) option"
  hex_encode :: "bytes \<Rightarrow> string"
  hex_decode :: "string \<Rightarrow> bytes option"

definition DUST :: u64 where
  "DUST = 546"

definition MAX_FEE_PER_VBYTE :: u64 where
  "MAX_FEE_PER_VBYTE = 100"

definition MIN_FEE_PER_VBYTE :: u64 where
  "MIN_FEE_PER_VBYTE = 1"

definition MAX_TERM :: u16 where
  "MAX_TERM = 6 * 24 * 30"

definition RBF :: u32 where
  "RBF = 0xffffffff - 2"

section \<open>Balances and blocks\<close>

definition wallet_balance :: "('p, 'k, 'c, 'm, 'u) wallet_crates \<Rightarrow> ('c, 'm) wallet \<Rightarrow> u64" where
  "wallet_balance W w = confirmed_balance W (coins w) + unconfirmed_balance W (coins w)"

definition available_balance ::
  "('p, 'k, 'c, 'm, 'u) wallet_crates \<Rightarrow> ('c, 'm) wallet \<Rightarrow> u32 \<Rightarrow> (hash \<Rightarrow> u32 option) \<Rightarrow> u64" where
  "available_balance W w height height_for_block =
     coins_available_balance W (coins w) height height_for_block"

definition wallet_unwind_tip ::
  "('p, 'k, 'c, 'm, 'u) wallet_crates \<Rightarrow> hash \<Rightarrow> ('c, 'm) wallet \<Rightarrow> ('c, 'm) wallet" where
  "wallet_unwind_tip W b w = w\<lparr>coins := coins_unwind_tip W (coins w) b\<rparr>"

definition wallet_rescan ::
  "('p, 'k, 'c, 'm, 'u) wallet_crates \<Rightarrow> ('c, 'm) wallet \<Rightarrow> ('c, 'm) wallet" where
  "wallet_rescan W w = w\<lparr>coins := coins_new W\<rparr>"

definition wallet_process ::
  "('p, 'k, 'c, 'm, 'u) wallet_crates \<Rightarrow> block \<Rightarrow> ('c, 'm) wallet \<Rightarrow> bool \<times> ('c, 'm) wallet" where
  "wallet_process W b w =
     (case coins_process W (coins w) (master w) b of
        (changed, c, m) \<Rightarrow> (changed, w\<lparr>coins := c, master := m\<rparr>))"

definition prove :: "('p, 'k, 'c, 'm, 'u) wallet_crates \<Rightarrow> ('c, 'm) wallet \<Rightarrow> hash \<Rightarrow> 'p option" where
  "prove W w t = map_of (coin_proofs W (coins w)) t"

text \<open>\<^verbatim>\<open>from_storage\<close>: the key chains look ahead of every stored coin.\<close>

definition wallet_from_storage ::
  "('p, 'k, 'c, 'm, 'u) wallet_crates \<Rightarrow> 'c \<Rightarrow> 'm \<Rightarrow> ('c, 'm) wallet outcome" where
  "wallet_from_storage W c m =
     obind (ofold (\<lambda>(_, coin) m.
         let der = derivation coin; a = (kd_account der, kd_sub der)
         in if has_account W m a
            then expect ''can not look ahead of storage'' (look_ahead W m a (kd_kix der))
            else Panic Unwrap_failed)
       (confirmed_coins W c @ unconfirmed_coins W c) m)
     (\<lambda>m. Ok \<lparr>coins = c, master = m\<rparr>)"

section \<open>Building a transaction\<close>

definition coin_value_sum :: "(out_point \<times> coin \<times> u32) list \<Rightarrow> u64" where
  "coin_value_sum cs = sum_list (map (\<lambda>(_, c, _). out_value (coin_output c)) cs)"

definition spend_input :: "u32 \<Rightarrow> out_point \<times> coin \<times> u32 \<Rightarrow> tx_in" where
  "spend_input height x =
     (case x of (point, coin, h) \<Rightarrow>
        \<lparr>previous_output = point, script_sig = [],
         sequence = (case kd_csv (derivation coin) of
                       Some csv \<Rightarrow> min (ucast csv) (height - h) | None \<Rightarrow> RBF),
         tx_witness = []\<rparr>)"

definition spend_lookup :: "(out_point \<times> coin \<times> u32) list \<Rightarrow> out_point \<Rightarrow> tx_out option" where
  "spend_lookup cs point = map_option (\<lambda>(_, c, _). coin_output c) (find (\<lambda>(o', _, _). o' = point) cs)"

text \<open>
  The outputs one round of the loop writes: the target gets the amount less the fee, and the
  change goes before or after it, as the random number \<open>r\<close> says. The subtraction wraps around.
\<close>

definition spend_outputs :: "bytes \<Rightarrow> bytes \<Rightarrow> u64 \<Rightarrow> u64 \<Rightarrow> u64 \<Rightarrow> u32 \<Rightarrow> tx_out list outcome" where
  "spend_outputs target change amount total_in fee r =
     (if amount - fee > DUST
      then let t = \<lparr>out_value = amount - fee, script_pubkey = target\<rparr>;
               c = \<lparr>out_value = total_in - amount, script_pubkey = change\<rparr>
           in Ok (if total_in > amount \<and> total_in - amount > DUST
                  then (if r mod 2 = 0 then [c, t] else [t, c]) else [t])
      else Err (Unsupported ''withdraw amount is less than the fees needed (+DUST limit)''))"

definition spend_fee :: "('p, 'k, 'c, 'm, 'u) wallet_crates \<Rightarrow> u64 \<Rightarrow> transaction \<Rightarrow> u64" where
  "spend_fee W fee_per_vbyte tx = (of_nat (get_weight W tx) * fee_per_vbyte + 3) div 4"

text \<open>
  The \<^verbatim>\<open>loop\<close>: a first round with no fee measures the transaction, and the round with the fee
  set ends it. \<open>rnd i\<close> is the random number of round \<open>i\<close>. Without fuel the value is \<open>None\<close>;
  \<open>spend_terminates\<close> shows that two rounds are enough.
\<close>

fun spend_loop ::
  "('p, 'k, 'c, 'm, 'u) wallet_crates \<Rightarrow> 'm \<Rightarrow> 'u \<Rightarrow> (out_point \<times> coin \<times> u32) list \<Rightarrow> bytes \<Rightarrow> bytes
   \<Rightarrow> u64 \<Rightarrow> u64 \<Rightarrow> u64 \<Rightarrow> (nat \<Rightarrow> u32) \<Rightarrow> nat \<Rightarrow> nat \<Rightarrow> u64 \<Rightarrow> transaction
   \<Rightarrow> (transaction \<times> u64) outcome option" where
  "spend_loop W m u cs target change amount total_in fpv rnd 0 i fee tx = None"
| "spend_loop W m u cs target change amount total_in fpv rnd (Suc fuel) i fee tx =
     (case spend_outputs target change amount total_in fee (rnd i) of
        Err e \<Rightarrow> Some (Err e)
      | Panic p \<Rightarrow> Some (Panic p)
      | Ok outs \<Rightarrow>
          (case sign W m u (spend_lookup cs) (tx\<lparr>tx_output := outs\<rparr>) of
             Inl e \<Rightarrow> Some (Err (Wallet e))
           | Inr (n, tx') \<Rightarrow>
               if n \<noteq> length (tx_input tx') then Some (Err (Unsupported ''could not sign for all inputs''))
               else if fee = 0
               then spend_loop W m u cs target change amount total_in fpv rnd fuel (Suc i)
                      (spend_fee W fpv tx') tx'
               else Some (Ok (tx', fee))))"

definition spend_tx :: "u32 \<Rightarrow> (out_point \<times> coin \<times> u32) list \<Rightarrow> transaction" where
  "spend_tx height cs =
     \<lparr>tx_version = 2, lock_time = 0, tx_input = map (spend_input height) cs, tx_output = []\<rparr>"

definition clamp_fee :: "u64 \<Rightarrow> u64" where
  "clamp_fee fee_per_vbyte = min MAX_FEE_PER_VBYTE (max MIN_FEE_PER_VBYTE fee_per_vbyte)"

text \<open>
  What \<open>fund\<close> and \<open>withdraw\<close> share, from the check of the funds to the registration of the
  new transaction. They change the key chains before they can fail, so the wallet is
  returned with every outcome; \<open>None\<close> is a loop without end.
\<close>

definition spend ::
  "('p, 'k, 'c, 'm, 'u) wallet_crates \<Rightarrow> (nat \<Rightarrow> u32) \<Rightarrow> nat \<Rightarrow> 'u \<Rightarrow> (out_point \<times> coin \<times> u32) list
   \<Rightarrow> bytes \<Rightarrow> bytes \<Rightarrow> u64 \<Rightarrow> u64 \<Rightarrow> u32 \<Rightarrow> ('c, 'm) wallet
   \<Rightarrow> ((transaction \<times> u64) outcome \<times> ('c, 'm) wallet) option" where
  "spend W rnd fuel u cs target change amount fpv height w =
     (let total_in = coin_value_sum cs
      in if amount > total_in then Some (Err (Unsupported ''insufficient funds''), w)
         else map_option
           (\<lambda>r. (r, (case r of
                       Ok (tx, _) \<Rightarrow>
                         (case coins_process_unconfirmed W (coins w) (master w) tx of
                            (c, m) \<Rightarrow> w\<lparr>coins := c, master := m\<rparr>)
                     | _ \<Rightarrow> w)))
           (spend_loop W (master w) u cs target change amount total_in fpv rnd fuel 0 0
              (spend_tx height cs)))"

text \<open>The commitment key of an ad: the script of its address and the funder's base key.\<close>

definition commit_to_ad ::
  "('p, 'k, 'c, 'm, 'u) wallet_crates \<Rightarrow> ('k \<Rightarrow> u16 option \<Rightarrow> bytes) \<Rightarrow> hash \<Rightarrow> u16 \<Rightarrow> 'm
   \<Rightarrow> (bytes \<times> 'k) outcome \<times> 'm" where
  "commit_to_ad W scripter ident term m =
     (if \<not> has_account W m (1, 0) then (Panic Unwrap_failed, m)
      else (case add_script_key W m (1, 0) scripter (Some ident) (Some term) of
              None \<Rightarrow> (Panic (Expect_failed ''can not commit to ad''), m)
            | Some (kix, m') \<Rightarrow>
                (obind (unwrap (key_script W m' (1, 0) kix))
                   (\<lambda>contract. obind (expect ''can not compute base public key'' (base_public_key W m' (1, 0) kix))
                      (\<lambda>pk. Ok (contract, pk))), m')))"

definition wallet_fund ::
  "('p, 'k, 'c, 'm, 'u) wallet_crates \<Rightarrow> (nat \<Rightarrow> u32) \<Rightarrow> nat \<Rightarrow> hash \<Rightarrow> u16 \<Rightarrow> string \<Rightarrow> u64 \<Rightarrow> u64 \<Rightarrow> trunk
   \<Rightarrow> ('k \<Rightarrow> u16 option \<Rightarrow> bytes) \<Rightarrow> ('c, 'm) wallet
   \<Rightarrow> ((transaction \<times> 'k \<times> u64) outcome \<times> ('c, 'm) wallet) option" where
  "wallet_fund W rnd fuel ident term passphrase fee_per_vbyte amount T scripter w =
     (case unlocker_new W (master w) passphrase of
        Inl e \<Rightarrow> Some (Err (Wallet e), w)
      | Inr u \<Rightarrow>
          (case next_key W (master w) (0, 1) of
             None \<Rightarrow> Some (Panic Unwrap_failed, w)
           | Some (change, m1) \<Rightarrow>
               (let fpv = clamp_fee fee_per_vbyte; term' = min MAX_TERM term;
                    height = trunk_len T;
                    cs = choose_inputs W (coins w) amount height (get_height T)
                in (case commit_to_ad W scripter ident term' m1 of
                      (Panic p, m2) \<Rightarrow> Some (Panic p, w\<lparr>master := m2\<rparr>)
                    | (Err e, m2) \<Rightarrow> Some (Err e, w\<lparr>master := m2\<rparr>)
                    | (Ok (contract, pk), m2) \<Rightarrow>
                        map_option (\<lambda>(r, w'). (obind r (\<lambda>(tx, fee). Ok (tx, pk, fee)), w'))
                          (spend W rnd fuel u cs contract change amount fpv height
                             (w\<lparr>master := m2\<rparr>))))))"

definition wallet_withdraw ::
  "('p, 'k, 'c, 'm, 'u) wallet_crates \<Rightarrow> (nat \<Rightarrow> u32) \<Rightarrow> nat \<Rightarrow> string \<Rightarrow> bytes \<Rightarrow> u64 \<Rightarrow> u64 option \<Rightarrow> trunk
   \<Rightarrow> ('c, 'm) wallet \<Rightarrow> ((transaction \<times> u64) outcome \<times> ('c, 'm) wallet) option" where
  "wallet_withdraw W rnd fuel passphrase target fee_per_vbyte amount T w =
     (case unlocker_new W (master w) passphrase of
        Inl e \<Rightarrow> Some (Err (Wallet e), w)
      | Inr u \<Rightarrow>
          (let height = trunk_len T;
               balance = available_balance W w height (get_height T);
               amount' = (case amount of Some a \<Rightarrow> a | None \<Rightarrow> balance)
           in (case next_key W (master w) (0, 1) of
                 None \<Rightarrow> Some (Panic Unwrap_failed, w)
               | Some (change, m1) \<Rightarrow>
                   spend W rnd fuel u (choose_inputs W (coins w) amount' height (get_height T))
                     target change amount' (clamp_fee fee_per_vbyte) height (w\<lparr>master := m1\<rparr>))))"

section \<open>What a built transaction spends\<close>

lemma clamp_fee_bounds: "1 \<le> clamp_fee f \<and> clamp_fee f \<le> 100"
  by (auto simp: clamp_fee_def MAX_FEE_PER_VBYTE_def MIN_FEE_PER_VBYTE_def max_def)

text \<open>
  What the sources rely on of \<open>sign\<close>: it fills in witnesses and leaves the inputs' outpoints
  and the outputs as they are; a transaction has a weight, which is bounded by what fits in
  memory.
\<close>

definition signing_ok :: "('p, 'k, 'c, 'm, 'u) wallet_crates \<Rightarrow> bool" where
  "signing_ok W \<longleftrightarrow>
     (\<forall>m u l tx n tx'. sign W m u l tx = Inr (n, tx') \<longrightarrow>
        tx_output tx' = tx_output tx \<and> tx_version tx' = tx_version tx \<and>
        map previous_output (tx_input tx') = map previous_output (tx_input tx))
     \<and> (\<forall>tx. 0 < get_weight W tx \<and> get_weight W tx \<le> 2 ^ 56)"

lemma spend_fee_pos:
  assumes "signing_ok W"
  shows "spend_fee W (clamp_fee f) tx \<noteq> 0"
    and "unat (spend_fee W (clamp_fee f) tx) = (get_weight W tx * unat (clamp_fee f) + 3) div 4"
proof -
  let ?w = "get_weight W tx" and ?f = "unat (clamp_fee f)"
  have w: "0 < ?w" "?w \<le> 2 ^ 56" using assms by (auto simp: signing_ok_def)
  have f: "1 \<le> ?f" "?f \<le> 100" using clamp_fee_bounds [of f] by (simp_all add: word_le_nat_alt)
  from w(2) f(2) have "?w * ?f \<le> 2 ^ 56 * 100" by (rule mult_le_mono)
  then have "unat (of_nat ?w * clamp_fee f + 3) = ?w * ?f + 3"
    using w by (simp add: unat_word_ariths unat_of_nat)
  then show eq: "unat (spend_fee W (clamp_fee f) tx) = (?w * ?f + 3) div 4"
    by (simp add: spend_fee_def unat_div)
  have "1 * 1 \<le> ?w * ?f" using w f by (intro mult_le_mono) auto
  then have "4 div 4 \<le> (?w * ?f + 3) div 4" by (intro div_le_mono) simp
  then have "(?w * ?f + 3) div 4 \<noteq> 0" by simp
  with eq show "spend_fee W (clamp_fee f) tx \<noteq> 0" by (metis unat_0)
qed

lemma spend_outputs_Ok_iff:
  "spend_outputs target change amount total_in fee r = Ok outs \<longleftrightarrow>
     DUST < amount - fee \<and>
     outs = (let t = \<lparr>out_value = amount - fee, script_pubkey = target\<rparr>;
                 c = \<lparr>out_value = total_in - amount, script_pubkey = change\<rparr>
             in if total_in > amount \<and> total_in - amount > DUST
                then (if r mod 2 = 0 then [c, t] else [t, c]) else [t])"
  by (auto simp: spend_outputs_def Let_def)

lemma spend_loop_Ok:
  assumes "signing_ok W"
    and "spend_loop W m u cs target change amount total_in fpv rnd fuel i fee0 tx0 = Some (Ok (tx, fee))"
  shows "\<exists>r. spend_outputs target change amount total_in fee r = Ok (tx_output tx)
    \<and> map previous_output (tx_input tx) = map previous_output (tx_input tx0)
    \<and> tx_version tx = tx_version tx0
    \<and> (fee = fee0 \<and> fee0 \<noteq> 0 \<or> (\<exists>t. fee = spend_fee W fpv t))"
  using assms(2)
proof (induction fuel arbitrary: i fee0 tx0)
  case (Suc fuel)
  then obtain outs n tx' where o: "spend_outputs target change amount total_in fee0 (rnd i) = Ok outs"
    and s: "sign W m u (spend_lookup cs) (tx0\<lparr>tx_output := outs\<rparr>) = Inr (n, tx')"
    and n: "n = length (tx_input tx')"
    by (auto split: outcome.splits sum.splits if_splits prod.splits)
  have tx': "tx_output tx' = outs" "tx_version tx' = tx_version tx0"
    "map previous_output (tx_input tx') = map previous_output (tx_input tx0)"
    using assms(1) s by (auto simp: signing_ok_def)
  show ?case
  proof (cases "fee0 = 0")
    case True
    with Suc.prems o s n have "spend_loop W m u cs target change amount total_in fpv rnd fuel (Suc i)
        (spend_fee W fpv tx') tx' = Some (Ok (tx, fee))" by simp
    from Suc.IH [OF this] tx' show ?thesis by auto
  next
    case False
    with Suc.prems o s n tx' show ?thesis by auto
  qed
qed simp

lemma spend_loop_returns:
  assumes "signing_ok W" and "2 \<le> fuel"
  shows "\<exists>r. spend_loop W m u cs target change amount total_in (clamp_fee f) rnd fuel i fee tx = Some r"
proof -
  obtain k where k: "fuel = Suc (Suc k)" using le_Suc_ex [OF assms(2)] by auto
  show ?thesis
    by (simp add: k spend_fee_pos(1) [OF assms(1)] split: outcome.splits sum.splits prod.splits)
qed

text \<open>
  C20. Funding and withdrawing end: the loop that sets the fee needs two rounds, whatever the
  coins, the keys and the random numbers are.
\<close>

theorem spend_terminates:
  assumes "signing_ok W" and "2 \<le> fuel"
  shows "wallet_fund W rnd fuel ident term pass fpv amount T scripter w \<noteq> None
    \<and> wallet_withdraw W rnd fuel pass target fpv amount' T w \<noteq> None"
proof -
  have "spend W rnd fuel u cs tgt change a (clamp_fee fpv) height w' \<noteq> None" for u cs tgt change a height w'
    using spend_loop_returns [OF assms] by (fastforce simp: spend_def Let_def)
  then show ?thesis
    by (simp add: wallet_fund_def wallet_withdraw_def Let_def del: not_None_eq
        split: sum.splits option.splits outcome.splits prod.splits)
qed

lemma withdraw_Ok:
  assumes "signing_ok W"
    and "wallet_withdraw W rnd fuel pass target fpv (Some amount) T w = Some (Ok (tx, fee), w')"
    and "cs = choose_inputs W (coins w) amount (trunk_len T) (get_height T)"
  obtains r change t where "amount \<le> coin_value_sum cs"
    and "spend_outputs target change amount (coin_value_sum cs) fee r = Ok (tx_output tx)"
    and "map previous_output (tx_input tx) = map fst cs" and "tx_version tx = 2"
    and "fee = spend_fee W (clamp_fee fpv) t"
proof -
  obtain u change m where "spend_loop W m u cs target change amount (coin_value_sum cs) (clamp_fee fpv)
      rnd fuel 0 0 (spend_tx (trunk_len T) cs) = Some (Ok (tx, fee))" and "amount \<le> coin_value_sum cs"
    using assms(2,3)
    by (auto simp: wallet_withdraw_def spend_def Let_def not_less split: sum.splits option.splits prod.splits if_splits)
  moreover have "map previous_output (tx_input (spend_tx (trunk_len T) cs)) = map fst cs"
    by (auto simp: spend_tx_def spend_input_def)
  ultimately show ?thesis
    using spend_loop_Ok [OF assms(1)] that by (fastforce simp: spend_tx_def)
qed

text \<open>What a funding transaction pays: the script of the new key of the commitment account gets the amount less the fee.\<close>

lemma fund_Ok:
  assumes "signing_ok W"
    and "wallet_fund W rnd fuel ident term pass fpv amount T scripter w = Some (Ok (tx, pk, fee), w')"
  obtains m kix m' contract where
    "add_script_key W m (1, 0) scripter (Some ident) (Some (min MAX_TERM term)) = Some (kix, m')"
    and "key_script W m' (1, 0) kix = Some contract" and "base_public_key W m' (1, 0) kix = Some pk"
    and "\<lparr>out_value = amount - fee, script_pubkey = contract\<rparr> \<in> set (tx_output tx)" and "tx_version tx = 2"
proof -
  define cs where "cs = choose_inputs W (coins w) amount (trunk_len T) (get_height T)"
  obtain u m m' contract change w1 where
    c: "commit_to_ad W scripter ident (min MAX_TERM term) m = (Ok (contract, pk), m')"
    and s: "spend W rnd fuel u cs contract change amount (clamp_fee fpv) (trunk_len T) (w\<lparr>master := m'\<rparr>)
      = Some (Ok (tx, fee), w1)"
    using assms(2) unfolding wallet_fund_def Let_def cs_def [symmetric]
    by (auto split: sum.splits option.splits prod.splits outcome.splits)
  from s have "spend_loop W m' u cs contract change amount (coin_value_sum cs) (clamp_fee fpv) rnd fuel 0 0
      (spend_tx (trunk_len T) cs) = Some (Ok (tx, fee))"
    by (auto simp: spend_def Let_def split: if_splits)
  from spend_loop_Ok [OF assms(1) this] have
    "\<lparr>out_value = amount - fee, script_pubkey = contract\<rparr> \<in> set (tx_output tx)" "tx_version tx = 2"
    by (auto simp: spend_outputs_Ok_iff spend_tx_def Let_def split: if_splits)
  moreover obtain kix where "add_script_key W m (1, 0) scripter (Some ident) (Some (min MAX_TERM term)) = Some (kix, m')"
    "key_script W m' (1, 0) kix = Some contract" "base_public_key W m' (1, 0) kix = Some pk"
    using c by (auto simp: commit_to_ad_def split: if_splits option.splits)
  ultimately show ?thesis by (intro that)
qed

text \<open>
  C19. A withdrawal of a named amount whose fee does not exceed the amount conserves the coins: the inputs are
  the chosen coins, the target receives the amount less the fee and more than dust, and
  inputs, outputs and fee balance up to a change that would be dust.
\<close>

theorem withdraw_conserves:
  assumes "signing_ok W"
    and "wallet_withdraw W rnd fuel pass target fpv (Some amount) T w = Some (Ok (tx, fee), w')"
    and "fee \<le> amount"
  shows "\<exists>cs. cs = choose_inputs W (coins w) amount (trunk_len T) (get_height T)
    \<and> map previous_output (tx_input tx) = map fst cs
    \<and> \<lparr>out_value = amount - fee, script_pubkey = target\<rparr> \<in> set (tx_output tx) \<and> DUST < amount - fee
    \<and> sum_list (map (\<lambda>x. unat (out_value x)) (tx_output tx)) + unat fee \<le> unat (coin_value_sum cs)
    \<and> unat (coin_value_sum cs) \<le>
        sum_list (map (\<lambda>x. unat (out_value x)) (tx_output tx)) + unat fee + unat DUST"
proof -
  define cs where "cs = choose_inputs W (coins w) amount (trunk_len T) (get_height T)"
  obtain r change t where le: "amount \<le> coin_value_sum cs"
    and out: "spend_outputs target change amount (coin_value_sum cs) fee r = Ok (tx_output tx)"
    and inp: "map previous_output (tx_input tx) = map fst cs"
    by (rule withdraw_Ok [OF assms(1,2) cs_def])
  have sub: "unat (amount - fee) = unat amount - unat fee" "unat fee \<le> unat amount"
    "unat (coin_value_sum cs - amount) = unat (coin_value_sum cs) - unat amount"
    "unat amount \<le> unat (coin_value_sum cs)"
    using assms(3) le by (simp_all add: unat_sub word_le_nat_alt)
  have "unat (coin_value_sum cs) \<le> unat amount + unat DUST"
    if "\<not> (coin_value_sum cs > amount \<and> coin_value_sum cs - amount > DUST)"
    using that sub le by (auto simp: word_less_nat_alt not_less word_le_nat_alt)
  with out inp sub show ?thesis
    by (intro exI [of _ cs]) (auto simp: spend_outputs_Ok_iff Let_def cs_def [symmetric] split: if_splits)
qed

text \<open>
  The guard \<^verbatim>\<open>amount - fee > DUST\<close> does not protect a small withdrawal: when the fee exceeds
  the amount the subtraction wraps around in a release build, the guard holds, and the
  returned transaction has an output far above the value of its inputs.
\<close>

lemma withdraw_underflow:
  assumes "signing_ok W"
    and "wallet_withdraw W rnd fuel pass target fpv (Some amount) T w = Some (Ok (tx, fee), w')"
    and "amount < fee"
  shows "\<exists>x \<in> set (tx_output tx). 2 ^ 63 \<le> unat (out_value x)"
proof -
  define cs where "cs = choose_inputs W (coins w) amount (trunk_len T) (get_height T)"
  obtain r change t where
    out: "spend_outputs target change amount (coin_value_sum cs) fee r = Ok (tx_output tx)"
    and fee: "fee = spend_fee W (clamp_fee fpv) t"
    by (rule withdraw_Ok [OF assms(1,2) cs_def])
  have "get_weight W t * unat (clamp_fee fpv) \<le> 2 ^ 56 * 100"
    using assms(1) clamp_fee_bounds [of fpv]
    by (intro mult_le_mono) (auto simp: signing_ok_def word_le_nat_alt)
  then have "unat fee \<le> 2 ^ 62" using spend_fee_pos(2) [OF assms(1), of fpv t] by (simp add: fee)
  moreover have "unat (amount - fee) = 2 ^ 64 + unat amount - unat fee"
    using assms(3) by (simp add: unat_sub_if' word_less_nat_alt)
  ultimately have "2 ^ 63 \<le> unat (amount - fee)" by simp
  then show ?thesis using out by (auto simp: spend_outputs_Ok_iff Let_def)
qed

end
