(* ===== verification/Iblt_Examples.thy ===== *)
theory Iblt_Examples
  imports Iblt_Decode
begin

text \<open>
  Concrete tables at which the theorems of \<open>Iblt\<close> and \<open>Iblt_Decode\<close> apply: a small
  hash in place of the foreign one, five buckets and two hash functions.
\<close>

definition demo_hash :: hash_crates where
  "demo_hash = \<lparr>siphash = (\<lambda>k0 k1 cs. k0 + 3 * k1 + (case cs of (b # _) # _ \<Rightarrow> ucast b | _ \<Rightarrow> 0)),
     be_u64 = (\<lambda>w. [ucast w]), le_u16 = (\<lambda>w. [ucast w])\<rparr>"

definition demo_key :: "u8 \<Rightarrow> content_key" where
  "demo_key b = \<lparr>digest = replicate 32 b\<rparr>"

definition demo_table :: "content_key iblt" where
  "demo_table = \<lparr>buckets = replicate 5 (bucket_default (content_key_ops demo_hash)), iblt_k0 = 1, iblt_k1 = 2,
     iblt_k = 2, iblt_ksequence = generate_ksequence demo_hash 2 1 2\<rparr>"

lemma demo_table_new: "iblt_new demo_hash (content_key_ops demo_hash) 5 2 1 2 = Ok demo_table"
  by (simp add: iblt_new_def demo_table_def K_MAX_def)

lemma demo_key_wf: "content_key_wf (demo_key b)"
  by (simp add: content_key_wf_def demo_key_def DIGEST_LEN_def)

lemma demo_key_eq: "demo_key a = demo_key b \<longleftrightarrow> a = b"
  by (auto simp: demo_key_def)

theorem key_buckets_spec_witness:
  "0 < length (buckets demo_table) \<and> length (iblt_ksequence demo_table) \<le> K_MAX \<and>
   (\<exists>ns. key_buckets (content_key_ops demo_hash) demo_table (demo_key 7) = Ok ns \<and> sorted ns \<and> distinct ns
    \<and> set ns = (\<lambda>(k0, k1). unat (hash_to_u64_with_keys (content_key_ops demo_hash) (demo_key 7) k0 k1) mod length (buckets demo_table))
                 ` set (iblt_ksequence demo_table))"
proof -
  have "0 < length (buckets demo_table)" "length (iblt_ksequence demo_table) \<le> K_MAX" 
    by (simp_all add: demo_table_def K_MAX_def)
  with key_buckets_spec [of demo_table] show ?thesis by blast
qed

lemma key_buckets_panic_example:
  "key_buckets (content_key_ops demo_hash) (demo_table\<lparr>buckets := []\<rparr>) (demo_key 7) = Panic Rem_by_zero"
  using key_buckets_panic [of "demo_table\<lparr>buckets := []\<rparr>" "content_key_ops demo_hash" "demo_key 7"]
  by (simp add: demo_table_def Let_def)

definition demo_filled :: "u8 list \<Rightarrow> content_key iblt" where
  "demo_filled bs = (case iblt_insert_all (content_key_ops demo_hash) (map demo_key bs) demo_table of
     Ok t \<Rightarrow> t | _ \<Rightarrow> demo_table)"

lemma demo_filled_ok:
  "iblt_insert_all (content_key_ops demo_hash) (map demo_key bs) demo_table = Ok (demo_filled bs)"
  using content_key.insert_all_represents [OF iblt_new_ok(1,2) [OF demo_table_new], of "map demo_key bs"]
  by (auto simp: demo_key_wf demo_filled_def)

lemma iblt_delete_insert_example:
  "iblt_delete (content_key_ops demo_hash) (demo_filled [7]) (demo_key 7) = Ok demo_table"
  by (rule iblt_delete_insert [of demo_hash demo_table])
    (use demo_filled_ok [of "[7]"] iblt_new_ok(1) [OF demo_table_new] in
     \<open>auto simp: demo_key_wf iblt_insert_all_def, simp add: demo_table_def content_key_wf_def bucket_default_def content_key_default_def\<close>)

lemma iblt_insert_order_example:
  "iblt_insert_all (content_key_ops demo_hash) [demo_key 3, demo_key 4] demo_table
   = iblt_insert_all (content_key_ops demo_hash) [demo_key 4, demo_key 3] demo_table"
  by (rule iblt_insert_order [OF demo_table_new]) (auto simp: demo_key_wf)

lemma subseqs_length: "T \<in> set (subseqs xs) \<Longrightarrow> length T \<le> length xs \<and> set T \<subseteq> set xs"
  by (induction xs arbitrary: T) (fastforce simp: Let_def)+

lemma no_false_pure_two:
  assumes "signed_set es" and "length es \<le> 2"
  shows "no_false_pure K t es"
  unfolding no_false_pure_def
proof (intro allI ballI impI)
  fix n T
  assume T: "T \<in> set (subseqs (entries_at K t n es))" and p: "bucket_pure K t (bsum K t T)"
  have "length (entries_at K t n es) \<le> length es"
    by (simp add: entries_at_def)
  with subseqs_length [OF T] assms(2) have "length T \<le> 2" and "set T \<subseteq> set es"
    by (linarith, auto simp: set_entries_at)
  then consider "T = []" | "length T = 1" | a b where "T = [a, b]"
    by (cases T rule: remdups_adj.cases) auto
  then show "length T = 1"
  proof cases
    case 3
    with \<open>set T \<subseteq> set es\<close> assms(1)
    have "snd a = 1 \<or> snd a = - 1" and "snd b = 1 \<or> snd b = - 1"
      by (auto simp: signed_set_def)
    with p 3 show ?thesis by (auto simp: bucket_pure_def i32_abs_one bcount_bsum)
  qed (use p in auto)
qed

theorem iblt_reconciliation_witness:
  "\<exists>d found rest. substract (content_key_ops demo_hash) (demo_filled [3, 4]) (demo_filled [4, 5]) = Ok d
    \<and> mset (diff_entries (map demo_key [3, 4]) (map demo_key [4, 5])) = mset (found @ rest)
    \<and> (\<forall>n < unat (5 :: u32). length (entries_at (content_key_ops demo_hash) demo_table n rest) \<noteq> 1)
    \<and> iblt_entries (length (map demo_key [3, 4]) + length (map demo_key [4, 5]) + 2) (content_key_ops demo_hash)
        (iblt_iterator_new (content_key_ops demo_hash) d) =
        Ok (Some (map (\<lambda>e. Inr (entry_of e)) found @
          (if \<exists>n < unat (5 :: u32). bcount (bsum (content_key_ops demo_hash) demo_table
                (entries_at (content_key_ops demo_hash) demo_table n rest)) \<noteq> 0
           then [Inl IncompleteIteration] else [])))"
  by (rule iblt_reconciliation [OF demo_table_new _ demo_filled_ok demo_filled_ok])
    (auto simp: demo_key_wf demo_key_eq no_false_pure_two signed_set_def diff_entries_def)

lemma iblt_superset_listing_example:
  "\<exists>d items. substract (content_key_ops demo_hash) (demo_filled [3, 4]) (demo_filled [4]) = Ok d
    \<and> iblt_entries (length (map demo_key [3, 4]) + length (map demo_key [4]) + 2) (content_key_ops demo_hash)
        (iblt_iterator_new (content_key_ops demo_hash) d) = Ok (Some items)
    \<and> (Inl IncompleteIteration \<notin> set items \<longrightarrow>
        mset items = mset (map (\<lambda>x. Inr (Inserted x))
          (filter (\<lambda>x. x \<notin> set (map demo_key [4])) (map demo_key [3, 4]))))"
  by (rule iblt_superset_listing [OF demo_table_new _ _ demo_filled_ok demo_filled_ok])
    (auto simp: demo_key_wf demo_key_eq no_false_pure_two signed_set_def diff_entries_def)

lemma iblt_silent_difference_example:
  "\<exists>d. substract (content_key_ops demo_hash) (demo_filled [1]) (demo_filled [6]) = Ok d
    \<and> iblt_entries (Suc 0) (content_key_ops demo_hash) (iblt_iterator_new (content_key_ops demo_hash) d) = Ok (Some [])"
proof (rule iblt_silent_difference)
  show "iblt_ok demo_table" by (rule iblt_new_ok [OF demo_table_new]) simp
  show "key_buckets (content_key_ops demo_hash) demo_table (demo_key 1) =
    key_buckets (content_key_ops demo_hash) demo_table (demo_key 6)"
    by code_simp
qed (use demo_filled_ok [of "[1]"] demo_filled_ok [of "[6]"] in \<open>auto simp: iblt_insert_all_def\<close>)

theorem iblt_listing_diverges_witness:
  "iblt_entries 1000 (content_key_ops demo_hash) (iblt_iterator_new (content_key_ops demo_hash)
    (rogue_table (content_key_ops demo_hash) demo_table (demo_key 7) {3} 1)) = Ok None"
proof (rule iblt_listing_diverges)
  show "iblt_ok demo_table" by (rule iblt_new_ok [OF demo_table_new]) simp
  show "key_buckets (content_key_ops demo_hash) demo_table (demo_key 7) = Ok [0, 3]"
    by code_simp
qed (auto simp: demo_key_wf)
end
