(* ===== verification/Sketch.thy ===== *)
theory Sketch
  imports Complex_Main Iblt_Examples
begin

text \<open>
  Min-wise sketches of key sets and the estimate of the size of a set difference:
  \<open>min_sketch\<close>, \<open>add_to_min_sketch\<close> and \<open>estimate_diff_size\<close> of
  \<^verbatim>\<open>src/iblt.rs\<close>. The estimate is computed in single precision; the arithmetic is
  modelled on rational numbers with the rounding of IEEE 754.
\<close>

section \<open>Sketches\<close>

fun add_to_min_sketch_loop ::
  "'k key_ops \<Rightarrow> 'k \<Rightarrow> nat \<Rightarrow> (u64 \<times> u64) list \<Rightarrow> u64 list \<Rightarrow> u64 list outcome" where
  "add_to_min_sketch_loop K key i [] ms = Ok ms"
| "add_to_min_sketch_loop K key i ((k0, k1) # ks) ms =
     (if i < length ms
      then add_to_min_sketch_loop K key (Suc i) ks
             (ms[i := min (ms ! i) (hash_to_u64_with_keys K key k0 k1)])
      else Panic Index_out_of_bounds)"

definition add_to_min_sketch ::
  "'k key_ops \<Rightarrow> u64 list \<Rightarrow> 'k \<Rightarrow> (u64 \<times> u64) list \<Rightarrow> u64 list outcome" where
  "add_to_min_sketch K min_hashes key ksequence = add_to_min_sketch_loop K key 0 ksequence min_hashes"

definition min_sketch ::
  "hash_crates \<Rightarrow> 'k key_ops \<Rightarrow> nat \<Rightarrow> u64 \<Rightarrow> u64 \<Rightarrow> 'k list
   \<Rightarrow> (u64 list \<times> (u64 \<times> u64) list \<times> u32) outcome" where
  "min_sketch H K n k0 k1 ids =
     (let ksequence = generate_ksequence H n k0 k1
      in obind (ofold (\<lambda>id (min_hashes, n_keys).
                 obind (add_to_min_sketch K min_hashes id ksequence)
                   (\<lambda>ms. Ok (ms, n_keys + 1)))
               ids (replicate n 0xffffffffffffffff, 0))
           (\<lambda>(min_hashes, n_keys). Ok (min_hashes, ksequence, n_keys)))"

section \<open>The size estimate, in single precision\<close>

text \<open>
  A non-negative single precision number of the normal range, or not a number. The exponent
  search runs over the whole normal range (\<open>2 ^ -126\<close> up to \<open>2 ^ 128\<close>) in fewer than 300
  steps; the values of the estimate lie between \<open>2 ^ -64\<close> and \<open>2 ^ 65\<close>, or are zero.
\<close>

datatype f32 = F32 rat | F32_NaN

fun f32_exponent :: "nat \<Rightarrow> rat \<Rightarrow> int" where
  "f32_exponent 0 x = 0"
| "f32_exponent (Suc n) x =
     (if x \<ge> 2 ^ 24 then f32_exponent n (x / 2) + 1
      else if x < 2 ^ 23 then f32_exponent n (2 * x) - 1
      else 0)"

definition round_half_even :: "rat \<Rightarrow> int" where
  "round_half_even x =
     (let f = \<lfloor>x\<rfloor>; d = x - of_int f
      in if d < 1 / 2 then f else if d > 1 / 2 then f + 1 else if even f then f else f + 1)"

definition f32_round :: "rat \<Rightarrow> rat" where
  "f32_round x =
     (if x = 0 then 0
      else let e = f32_exponent 300 x
           in of_int (round_half_even (x / 2 powi e)) * 2 powi e)"

definition f32_of_nat :: "nat \<Rightarrow> f32" where
  "f32_of_nat n = F32 (f32_round (of_nat n))"

fun f32_lift :: "(rat \<Rightarrow> rat \<Rightarrow> rat) \<Rightarrow> f32 \<Rightarrow> f32 \<Rightarrow> f32" where
  "f32_lift f (F32 a) (F32 b) = F32 (f32_round (f a b))"
| "f32_lift f _ _ = F32_NaN"

text \<open>A division by zero is only reached as \<open>0 / 0\<close>, which is not a number.\<close>

definition f32_div :: "f32 \<Rightarrow> f32 \<Rightarrow> f32" where
  "f32_div a b = (if b = F32 0 then F32_NaN else f32_lift (/) a b)"

text \<open>\<^verbatim>\<open>as u32\<close> truncates, saturates, and takes not-a-number to zero.\<close>

fun f32_as_u32 :: "f32 \<Rightarrow> u32" where
  "f32_as_u32 (F32 x) = (if x \<ge> 2 ^ 32 then - 1 else of_int \<lfloor>x\<rfloor>)"
| "f32_as_u32 F32_NaN = 0"

definition estimate_diff_size :: "u64 list \<Rightarrow> u32 \<Rightarrow> u64 list \<Rightarrow> u32 \<Rightarrow> u32 outcome" where
  "estimate_diff_size sa al sb bl =
     (if length sa = length sb
      then let k = length sa;
               r = f32_div (f32_of_nat (length (filter (\<lambda>(a, b). a = b) (zip sa sb)))) (f32_of_nat k);
               one = F32 1
           in Ok (f32_as_u32 (f32_lift (*) (f32_div (f32_lift (-) one r) (f32_lift (+) one r))
                    (f32_of_nat (unat (al + bl)))))
      else Panic Assert_failed)"

section \<open>A sketch is the pointwise minimum of the hashes\<close>

definition sketch_of :: "'k key_ops \<Rightarrow> (u64 \<times> u64) list \<Rightarrow> 'k set \<Rightarrow> u64 list" where
  "sketch_of K ks A = map (\<lambda>(k0, k1). Min (insert (- 1) ((\<lambda>x. hash_to_u64_with_keys K x k0 k1) ` A))) ks"

lemma add_to_min_sketch_loop_eq:
  assumes "i + length ks \<le> length ms"
  shows "add_to_min_sketch_loop K key i ks ms =
    Ok (take i ms @ map2 (\<lambda>m (k0, k1). min m (hash_to_u64_with_keys K key k0 k1)) (drop i ms) ks
        @ drop (i + length ks) ms)"
  using assms
proof (induction ks arbitrary: i ms)
  case Nil
  then show ?case by simp
next
  case (Cons p ks)
  obtain k0 k1 where p: "p = (k0, k1)" by (cases p)
  from Cons.prems have i: "i < length ms" by simp
  with Cons.prems show ?case
    by (simp add: p Cons.IH take_Suc_conv_app_nth Cons_nth_drop_Suc [symmetric])
qed

lemma add_to_min_sketch_eq:
  assumes "length ks = length ms"
  shows "add_to_min_sketch K ms key ks =
    Ok (map2 (\<lambda>m (k0, k1). min m (hash_to_u64_with_keys K key k0 k1)) ms ks)"
  using add_to_min_sketch_loop_eq [of 0 ks ms K key] assms by (simp add: add_to_min_sketch_def)

lemma length_sketch_of [simp]: "length (sketch_of K ks A) = length ks"
  by (simp add: sketch_of_def)

lemma add_to_sketch_of:
  assumes "finite A"
  shows "add_to_min_sketch K (sketch_of K ks A) key ks = Ok (sketch_of K ks (insert key A))"
proof -
  have "map2 (\<lambda>m (k0, k1). min m (hash_to_u64_with_keys K key k0 k1)) (sketch_of K ks A) ks
      = sketch_of K ks (insert key A)"
  proof (rule nth_equalityI)
    fix i assume "i < length (map2 (\<lambda>m (k0, k1). min m (hash_to_u64_with_keys K key k0 k1))
      (sketch_of K ks A) ks)"
    with assms show "map2 (\<lambda>m (k0, k1). min m (hash_to_u64_with_keys K key k0 k1)) (sketch_of K ks A) ks ! i
        = sketch_of K ks (insert key A) ! i"
      by (simp add: sketch_of_def split_def insert_commute [of _ "hash_to_u64_with_keys K key _ _"] min.commute)
  qed simp
  then show ?thesis by (simp add: add_to_min_sketch_eq)
qed

text \<open>
  The sketch of a key set does not depend on the order or the repetition of the keys: each
  component is the least hash of the keys under one pair of the schedule, and the count
  is the number of keys the iterator returned.
\<close>

lemma min_sketch_eq:
  "min_sketch H K n k0 k1 ids =
     Ok (sketch_of K (generate_ksequence H n k0 k1) (set ids), generate_ksequence H n k0 k1,
         of_nat (length ids))"
proof -
  let ?ks = "generate_ksequence H n k0 k1"
  have loop: "ofold (\<lambda>id (ms, c). obind (add_to_min_sketch K ms id ?ks) (\<lambda>ms. Ok (ms, c + 1))) ids
      (sketch_of K ?ks A, c) = Ok (sketch_of K ?ks (A \<union> set ids), c + of_nat (length ids))"
    if "finite A" for A and c :: u32
    using that
    by (induction ids arbitrary: A c) (simp_all add: add_to_sketch_of Un_commute ac_simps)
  have start: "replicate n 0xffffffffffffffff = sketch_of K ?ks {}"
    by (simp add: sketch_of_def split_def map_replicate_const)
  show ?thesis
    using loop [of "{}" 0] by (simp add: min_sketch_def start Let_def)
qed

section \<open>The estimate at its two ends\<close>

lemma f32_exponent_lower:
  "2 ^ 23 \<le> x * 2 ^ fuel \<Longrightarrow> 2 ^ 23 \<le> x / 2 powi f32_exponent fuel x"
proof (induction fuel arbitrary: x)
  case 0
  then show ?case by simp
next
  case (Suc fuel)
  consider "x \<ge> 2 ^ 24" | "x < 2 ^ 23" | "2 ^ 23 \<le> x" "x < 2 ^ 24" by linarith
  then show ?case
  proof cases
    case 1
    then have "1 * 2 ^ 23 \<le> (2 :: rat) ^ fuel * (x / 2)" by (intro mult_mono) auto
    with Suc.IH [of "x / 2"] 1 show ?thesis
      by (simp add: power_int_add field_simps)
  next
    case 2
    with Suc.IH [of "2 * x"] Suc.prems show ?thesis
      by (simp add: power_int_diff field_simps)
  next
    case 3
    then show ?thesis by simp
  qed
qed

lemma f32_exponent_small: "x < 2 ^ 24 \<Longrightarrow> f32_exponent fuel x \<le> 0"
proof (induction fuel arbitrary: x)
  case (Suc fuel)
  have "f32_exponent fuel (2 * x) \<le> 0" if "x < 2 ^ 23" using that by (intro Suc.IH) simp
  with Suc.prems show ?case by force
qed simp

lemma floor_le_round_half_even: "\<lfloor>y\<rfloor> \<le> round_half_even y"
  by (simp add: round_half_even_def Let_def)

lemma f32_round_pos:
  assumes "1 \<le> x"
  shows "0 < f32_round x"
proof -
  let ?y = "x / 2 powi f32_exponent 300 x"
  have "(2 :: rat) ^ 23 \<le> 2 ^ 300" by simp
  also have "\<dots> \<le> x * 2 ^ 300" using assms by simp
  finally have "2 ^ 23 \<le> ?y" by (rule f32_exponent_lower)
  then have "1 \<le> ?y" by (rule order_trans [rotated]) simp
  then have "1 \<le> \<lfloor>?y\<rfloor>" by (rule one_le_floor [THEN iffD2])
  then have "1 \<le> round_half_even ?y" by (rule order_trans [OF _ floor_le_round_half_even])
  then show ?thesis using assms by (simp add: f32_round_def Let_def)
qed

lemma divide_powi_nonpos:
  assumes "e \<le> 0"
  shows "rat_of_nat n / 2 powi e = of_int (int n * 2 ^ nat (- e))"
proof -
  obtain m where "e = - int m" using assms by (metis nonpos_int_cases)
  then show ?thesis by (simp add: power_int_minus divide_inverse)
qed

lemma f32_round_exact:
  assumes "n < 2 ^ 24"
  shows "f32_round (of_nat n) = of_nat n"
proof (cases "n = 0")
  case True
  then show ?thesis by (simp add: f32_round_def)
next
  case False
  let ?e = "f32_exponent 300 (rat_of_nat n)"
  have "rat_of_nat n < rat_of_nat (2 ^ 24)" using assms by (simp only: of_nat_less_iff)
  then have "?e \<le> 0" by (intro f32_exponent_small) simp
  then have "rat_of_nat n / 2 powi ?e = of_int (int n * 2 ^ nat (- ?e))"
    by (rule divide_powi_nonpos)
  moreover have "round_half_even (of_int i) = i" for i
    by (simp add: round_half_even_def)
  ultimately have "of_int (round_half_even (rat_of_nat n / 2 powi ?e)) = rat_of_nat n / 2 powi ?e"
    by (simp only:)
  with False show ?thesis by (simp add: f32_round_def Let_def)
qed

lemma f32_round_01 [simp]: "f32_round 0 = 0" "f32_round 1 = 1"
  using f32_round_exact [of 1] by (simp_all add: f32_round_def)

lemma f32_of_nat_nonzero: "0 < n \<Longrightarrow> f32_of_nat n \<noteq> F32 0"
  using f32_round_pos [of "of_nat n"] by (auto simp: f32_of_nat_def)

lemma f32_div_self: "0 < n \<Longrightarrow> f32_div (f32_of_nat n) (f32_of_nat n) = F32 1"
  using f32_round_pos [of "of_nat n"] by (simp add: f32_div_def f32_of_nat_def)

lemma filter_zip_self: "length (filter (\<lambda>(a, b). a = b) (zip xs xs)) = length xs"
  by (induction xs) auto

text \<open>
  C31. The loop computes the reference definition, the pointwise minimum of the hashes, and a sketch
  that is kept up to date key by key is the one computed from all keys at once, whatever the
  key type and the schedule.
\<close>

theorem sketch_incremental:
  "min_sketch H K n k0 k1 ids =
     Ok (sketch_of K (generate_ksequence H n k0 k1) (set ids), generate_ksequence H n k0 k1,
         of_nat (length ids))
   \<and> obind (min_sketch H K n k0 k1 ids)
       (\<lambda>(ms, ks, c). obind (add_to_min_sketch K ms key ks) (\<lambda>ms'. Ok (ms', ks, c + 1)))
     = min_sketch H K n k0 k1 (ids @ [key])"
  by (simp add: min_sketch_eq add_to_sketch_of ac_simps)

text \<open>
  Peers with the same sketch are in sync: the estimate of the difference is zero,
  whatever set sizes they announce.
\<close>

lemma estimate_equal_sketches: "estimate_diff_size sa al sa bl = Ok 0"
proof (cases "sa = []")
  case True
  then show ?thesis
    by (simp add: estimate_diff_size_def f32_div_def f32_of_nat_def Let_def)
next
  case False
  then show ?thesis
    by (simp add: estimate_diff_size_def Let_def filter_zip_self f32_div_self)
      (simp add: f32_div_def f32_of_nat_def)
qed

text \<open>
  When no component of two sketches agrees, the estimate is the sum of the two set
  sizes, exactly as long as that sum has at most 24 bits.
\<close>

lemma estimate_disjoint_sketches:
  assumes "length sa = length sb" and "sa \<noteq> []"
    and "\<forall>(a, b) \<in> set (zip sa sb). a \<noteq> b"
    and "unat al + unat bl < 2 ^ 24"
  shows "estimate_diff_size sa al sb bl = Ok (al + bl)"
proof -
  have none: "filter (\<lambda>(a, b). a = b) (zip sa sb) = []"
    using assms(3) by (auto simp: filter_empty_conv)
  have sum: "unat (al + bl) = unat al + unat bl"
    using assms(4) by (simp add: unat_word_ariths)
  have "f32_div (f32_of_nat 0) (f32_of_nat (length sa)) = F32 0"
    using f32_of_nat_nonzero [of "length sa"] assms(2) by (simp add: f32_div_def f32_of_nat_def)
  moreover have "f32_round (of_nat (unat al + unat bl)) = of_nat (unat al + unat bl)"
    by (rule f32_round_exact [OF assms(4)])
  moreover have "unat al + unat bl < 2 ^ 32" using assms(4) by simp
  then have "rat_of_nat (unat al + unat bl) < rat_of_nat (2 ^ 32)" by (simp only: of_nat_less_iff)
  ultimately have "estimate_diff_size sa al sb bl = Ok (of_int (int (unat al + unat bl)))"
    using assms(1)
    by (simp add: estimate_diff_size_def none Let_def sum f32_of_nat_def f32_div_def del: of_nat_add)
  then show ?thesis by (simp add: sum [symmetric] del: of_nat_add)
qed

lemma estimate_disjoint_sketches_example:
  "estimate_diff_size [1, 2] 10 [3, 4] 20 = Ok ((10 :: u32) + 20)"
  by (rule estimate_disjoint_sketches) auto

end
