(* ===== verification/Iblt_Types.thy ===== *)
theory Iblt_Types
  imports Iblt_Decode
begin

text \<open>
  Typing of lookup tables. The decoder of a message guarantees of a received table no more than
  its type: every bucket holds a key of the key type, a digest of fixed length or an address of eight
  segments, whatever the peer filled in. The operations of a table keep the type, and so a listing
  yields keys of the type, of a sound table or of one a peer made up.
\<close>

definition iblt_typed :: "('k \<Rightarrow> bool) \<Rightarrow> 'k iblt \<Rightarrow> bool" where
  "iblt_typed valid t \<longleftrightarrow> (\<forall>b \<in> set (buckets t). valid (keysum b))"

fun entry_typed :: "('k \<Rightarrow> bool) \<Rightarrow> iblt_error + 'k iblt_entry \<Rightarrow> bool" where
  "entry_typed valid (Inl e) = True"
| "entry_typed valid (Inr (Inserted k)) = valid k"
| "entry_typed valid (Inr (Deleted k)) = valid k"

lemma iblt_typed_nth: "iblt_typed valid t \<Longrightarrow> i < length (buckets t) \<Longrightarrow> valid (keysum (buckets t ! i))"
  by (simp add: iblt_typed_def)

lemma iblt_typed_buckets:
  "iblt_typed valid t \<Longrightarrow> buckets u = buckets t \<Longrightarrow> iblt_typed valid u"
  by (simp add: iblt_typed_def)

context iblt_key
begin

lemma new_typed: "iblt_new H K m k k0 k1 = Ok t \<Longrightarrow> iblt_typed valid t"
  by (auto simp: iblt_new_def iblt_typed_def valid_default split: if_splits)

lemma update_typed:
  assumes "iblt_typed valid t" and "valid key"
  shows "iblt_typed valid (update_bucket n (add_to_bucket K key h d) t)"
proof (cases "n < length (buckets t)")
  case True
  then have "valid (key_xor K (keysum (buckets t ! n)) key)"
    using iblt_typed_nth [OF assms(1)] assms(2) valid_xor by blast
  then show ?thesis
    using assms(1) set_update_subset_insert [of "buckets t" n]
    by (fastforce simp: iblt_typed_def update_bucket_def add_to_bucket_def)
qed (use assms(1) in \<open>simp add: iblt_typed_def update_bucket_def list_update_beyond\<close>)

lemma fold_update_typed:
  "iblt_typed valid t \<Longrightarrow> valid key \<Longrightarrow>
     iblt_typed valid (fold (\<lambda>n. update_bucket n (add_to_bucket K key h d)) ns t)"
  by (induction ns arbitrary: t) (auto intro: update_typed)

lemma insert_typed: "iblt_insert K t key = Ok t' \<Longrightarrow> iblt_typed valid t \<Longrightarrow> valid key \<Longrightarrow> iblt_typed valid t'"
  by (auto simp: iblt_insert_def intro: fold_update_typed)

lemma delete_typed: "iblt_delete K t key = Ok t' \<Longrightarrow> iblt_typed valid t \<Longrightarrow> valid key \<Longrightarrow> iblt_typed valid t'"
  by (auto simp: iblt_delete_def intro: fold_update_typed)

lemma insert_all_typed:
  assumes "iblt_insert_all K ks t = Ok t'" and "iblt_typed valid t" and "\<forall>k \<in> set ks. valid k"
  shows "iblt_typed valid t'"
  using assms(1) unfolding iblt_insert_all_def
  by (rule ofold_invariant) (use assms(2,3) insert_typed in blast)+

lemma substract_typed:
  assumes "substract K t u = Ok d" and "iblt_typed valid t" and "iblt_typed valid u"
  shows "iblt_typed valid d"
proof -
  have d: "buckets d = map2 (sub_bucket K) (buckets t) (buckets u)"
    using assms(1) by (auto simp: substract_def split: if_splits)
  have "valid (keysum (sub_bucket K x y))" if "(x, y) \<in> set (zip (buckets t) (buckets u))" for x y
    using set_zip_leftD [OF that] set_zip_rightD [OF that] assms(2,3) valid_xor
    by (simp add: iblt_typed_def sub_bucket_def)
  then show ?thesis by (auto simp: iblt_typed_def d)
qed

lemma peel_loop_typed:
  "iblt_typed valid t \<Longrightarrow> valid key \<Longrightarrow> peel_loop K key h c ns (t, q) = (t', q') \<Longrightarrow> iblt_typed valid t'"
  by (induction ns arbitrary: t q) (auto simp: Let_def intro: update_typed)

lemma drain_queue_typed:
  assumes "drain_queue K t q = Ok (e, t', q')" and "iblt_typed valid t"
  shows "iblt_typed valid t' \<and> (\<forall>x. e = Some x \<longrightarrow> entry_typed valid (Inr x))"
  using assms
proof (induction q)
  case (Cons i q)
  show ?case
  proof (cases "i < length (buckets t) \<and> i32_abs (bcount (buckets t ! i)) = 1")
    case True
    let ?key = "keysum (buckets t ! i)"
    have "valid ?key" using iblt_typed_nth [OF assms(2)] True by blast
    moreover obtain ns where "peel_loop K ?key (keyhash K t ?key) (bcount (buckets t ! i)) ns (t, q) = (t', q')"
      "e = Some (if bcount (buckets t ! i) = 1 then Inserted ?key else Deleted ?key)"
      using Cons.prems(1) True by (auto simp: Let_def split: prod.splits)
    ultimately show ?thesis using peel_loop_typed [OF assms(2)] by auto
  qed (use Cons in \<open>auto simp: Let_def split: if_splits\<close>)
qed simp

lemma iterator_next_typed:
  assumes "iblt_iterator_next K it = Ok (x, it')" and "iblt_typed valid (it_iblt it)"
  shows "iblt_typed valid (it_iblt it') \<and> (\<forall>e. x = Some e \<longrightarrow> entry_typed valid e)"
  using assms drain_queue_typed [OF _ assms(2)]
  by (fastforce simp: iblt_iterator_next_def split: if_splits option.splits prod.splits)

lemma entries_typed:
  assumes "iblt_entries fuel K it = Ok (Some es)" and "iblt_typed valid (it_iblt it)"
  shows "\<forall>e \<in> set es. entry_typed valid e"
  using assms
proof (induction fuel arbitrary: it es)
  case (Suc fuel)
  then obtain x it' where n: "iblt_iterator_next K it = Ok (x, it')" by auto
  note t = iterator_next_typed [OF n Suc.prems(2)]
  show ?case
  proof (cases x)
    case (Some e)
    with Suc.prems(1) n obtain r where "iblt_entries fuel K it' = Ok (Some r)" "es = e # r" by auto
    with Suc.IH [of it' r] t Some show ?thesis by simp
  qed (use Suc.prems n in simp)
qed simp

lemma listing_typed:
  assumes "iblt_entries fuel K (iblt_iterator_new K t) = Ok (Some es)" and "iblt_typed valid t"
  shows "\<forall>e \<in> set es. entry_typed valid e"
  by (rule entries_typed [OF assms(1)]) (simp add: iblt_iterator_new_def assms(2))

end

end
