(* ===== verification/Net_Address.thy ===== *)
theory Net_Address
  imports Iblt_Types
begin

text \<open>
  Network addresses as keys of a lookup table: \<^verbatim>\<open>NetAddress\<close> of \<^verbatim>\<open>src/discovery.rs\<close>, its
  conversion from and to socket addresses, and the second implementation of the key trait.
\<close>

section \<open>Socket addresses of the standard library\<close>

text \<open>
  An IPv4 address is its four octets, an IPv6 address its eight segments. The flow
  information and the scope of a \<^verbatim>\<open>SocketAddrV6\<close> are not kept: the sources set them to zero.
\<close>

datatype socket_addr =
    V4 u8 u8 u8 u8 u16
  | V6 "u16 list" u16

fun socket_wf :: "socket_addr \<Rightarrow> bool" where
  "socket_wf (V4 a b c d p) = True"
| "socket_wf (V6 s p) = (length s = 8)"

text \<open>\<^verbatim>\<open>Ipv4Addr::to_ipv6_mapped\<close> and \<^verbatim>\<open>Ipv6Addr::to_ipv4\<close>.\<close>

definition segment :: "u8 \<Rightarrow> u8 \<Rightarrow> u16" where
  "segment a b = push_bit 8 (ucast a) OR ucast b"

definition to_ipv6_mapped :: "u8 \<Rightarrow> u8 \<Rightarrow> u8 \<Rightarrow> u8 \<Rightarrow> u16 list" where
  "to_ipv6_mapped a b c d = [0, 0, 0, 0, 0, 0xffff, segment a b, segment c d]"

definition to_ipv4 :: "u16 list \<Rightarrow> (u8 \<times> u8 \<times> u8 \<times> u8) option" where
  "to_ipv4 s =
     (if take 5 s = [0, 0, 0, 0, 0] \<and> (s ! 5 = 0 \<or> s ! 5 = 0xffff)
      then Some (ucast (drop_bit 8 (s ! 6)), ucast (s ! 6), ucast (drop_bit 8 (s ! 7)), ucast (s ! 7))
      else None)"

section \<open>Network addresses\<close>

record net_address =
  address :: "u16 list"
  port :: u16

definition ONION :: "u16 list" where
  "ONION = [0xFD87, 0xD87E, 0xEB43]"

fun net_address_new :: "socket_addr \<Rightarrow> net_address" where
  "net_address_new (V4 a b c d p) = \<lparr>address = to_ipv6_mapped a b c d, port = p\<rparr>"
| "net_address_new (V6 s p) = \<lparr>address = s, port = p\<rparr>"

definition socket_address :: "net_address \<Rightarrow> socket_addr outcome" where
  "socket_address n =
     (if take 3 (address n) = ONION then Err (IO AddrNotAvailable)
      else (case to_ipv4 (address n) of
              Some (a, b, c, d) \<Rightarrow> Ok (V4 a b c d (port n))
            | None \<Rightarrow> Ok (V6 (address n) (port n))))"

definition net_address_bitxor_assign :: "net_address \<Rightarrow> net_address \<Rightarrow> net_address" where
  "net_address_bitxor_assign a rhs =
     \<lparr>address = xor_words (address a) (address rhs), port = port a XOR port rhs\<rparr>"

definition net_address_hash :: "hash_crates \<Rightarrow> net_address \<Rightarrow> u64 \<Rightarrow> u64 \<Rightarrow> u64" where
  "net_address_hash H a k0 k1 = siphash H k0 k1 (map (le_u16 H) (address a) @ [le_u16 H (port a)])"

definition net_address_default :: net_address where
  "net_address_default = \<lparr>address = replicate 8 0, port = 0\<rparr>"

definition net_address_ops :: "hash_crates \<Rightarrow> net_address key_ops" where
  "net_address_ops H =
     \<lparr>key_xor = net_address_bitxor_assign, key_default = net_address_default,
      hash_to_u64_with_keys = net_address_hash H\<rparr>"

text \<open>The array type \<^verbatim>\<open>[u16; 8]\<close>.\<close>

definition net_address_wf :: "net_address \<Rightarrow> bool" where
  "net_address_wf a \<longleftrightarrow> length (address a) = 8"

interpretation net_address: iblt_key "net_address_ops H" net_address_wf for H
  by unfold_locales
    (auto simp: net_address_wf_def net_address_ops_def net_address_bitxor_assign_def
      net_address_default_def xor_words_ac xor_words_zero xor_words_self ac_simps)

lemma net_address_new_wf: "socket_wf s \<Longrightarrow> net_address_wf (net_address_new s)"
  by (cases s) (simp_all add: net_address_wf_def to_ipv6_mapped_def)

lemma segment_bytes [simp]:
  "ucast (drop_bit 8 (segment a b)) = a" "ucast (segment a b) = b"
  by (rule bit_word_eqI, auto simp: segment_def bit_simps dest: bit_imp_le_length)+

text \<open>
  A socket address survives the exchange as a network address: an IPv4 address always
  does, an IPv6 address does unless it lies in the onion range, which is refused, or in the
  IPv4-compatible range \<open>::/96\<close> or the mapped range, which come back as an IPv4 address.
\<close>

lemma net_address_roundtrip:
  "socket_address (net_address_new (V4 a b c d p)) = Ok (V4 a b c d p)
   \<and> socket_address (net_address_new (V6 s p)) =
       (if take 3 s = ONION then Err (IO AddrNotAvailable)
        else if take 5 s = [0, 0, 0, 0, 0] \<and> (s ! 5 = 0 \<or> s ! 5 = 0xffff)
        then Ok (V4 (ucast (drop_bit 8 (s ! 6))) (ucast (s ! 6)) (ucast (drop_bit 8 (s ! 7)))
                    (ucast (s ! 7)) p)
        else Ok (V6 s p))"
  by (auto simp: socket_address_def to_ipv6_mapped_def to_ipv4_def ONION_def)

text \<open>
  The text of an address. \<open>show\<close> and \<open>parse\<close> are the formatter and the parser of the standard library for
  socket addresses. What is written is read back, but for the ranges above: they are refused
  or come back as the mapped address.
\<close>

definition net_address_to_string :: "(socket_addr \<Rightarrow> string) \<Rightarrow> net_address \<Rightarrow> string outcome" where
  "net_address_to_string show n = obind (socket_address n) (\<lambda>a. Ok (show a))"

definition net_address_from_str :: "(string \<Rightarrow> socket_addr option) \<Rightarrow> string \<Rightarrow> net_address outcome" where
  "net_address_from_str parse s =
     (case parse s of None \<Rightarrow> Err (IO InvalidInput) | Some a \<Rightarrow> Ok (net_address_new a))"

lemma net_address_text_roundtrip:
  assumes "\<And>a. parse (show a) = Some a" and "net_address_to_string show n = Ok str"
  shows "\<exists>a. socket_address n = Ok a \<and> net_address_from_str parse str = Ok (net_address_new a)"
  using assms by (auto simp: net_address_to_string_def net_address_from_str_def)

text \<open>
  Address tables do not depend on the order in which the database lists the addresses,
  by the same argument as content tables.
\<close>

lemma address_table_order:
  assumes "iblt_new H (net_address_ops H) m k k0 k1 = Ok t" and "m \<noteq> 0"
    and "mset xs = mset ys" and "\<forall>x \<in> set xs. net_address_wf x"
  shows "iblt_insert_all (net_address_ops H) xs t = iblt_insert_all (net_address_ops H) ys t"
  by (rule net_address.insert_all_perm [OF iblt_new_ok(1,2) [OF assms(1,2)] assms(3,4)])

end
