(* ===== verification/Database.thy ===== *)
theory Database
  imports Content Sketch Net_Address "HOL-Library.List_Lexorder"
begin

text \<open>
  The database, \<^verbatim>\<open>src/db.rs\<close>: its tables as lists of rows in a record, and the operations on
  the content, publication, transaction and housekeeping tables. (The address table is in
  \<open>Address_Book\<close>, the coins and accounts in \<open>Wallet_Db\<close>.)

  A table is a list whose order stands for the order in which the engine happens to return
  rows; every statement holds for every order. \<^verbatim>\<open>insert or replace\<close> removes the row with the
  same primary key. Arithmetic inside SQL is on the engine's 64-bit integers and does not
  overflow on the 32- and 16-bit columns it is applied to. A failing function leaves the
  database as it was: its transaction is dropped without commit, so only \<open>Ok\<close> carries a new
  state. Errors of the engine itself (disk, locking) are not modelled.
\<close>

section \<open>Tables\<close>

record content_row =
  row_id :: string
  row_cat :: rstring
  row_abs :: rstring
  row_ad :: rstring
  row_block_id :: string
  row_height :: u32
  row_proof :: bytes
  row_publisher :: bytes
  row_term :: u16
  row_weight :: u32
  row_length :: u32

record publication_row =
  pub_id :: string
  pub_cat :: rstring
  pub_abs :: rstring
  pub_ad :: rstring
  pub_length :: u32

record txout_row =
  txo_txid :: string
  txo_tx :: bytes
  txo_confirmed :: "string option"
  txo_publisher :: "bytes option"
  txo_id :: "string option"
  txo_term :: "u16 option"

record coin_row =
  coin_txid :: string
  coin_vout :: u32
  coin_value :: u64
  coin_script :: bytes
  coin_account :: u32
  coin_sub :: u32
  coin_kix :: u32
  coin_tweak :: "string option"
  coin_csv :: "u16 option"
  coin_proof :: bytes

record account_row =
  acc_account :: u32
  acc_sub :: u32
  acc_address_type :: u32
  acc_master :: string
  acc_instantiated :: bytes

record address_row =
  adr_network :: string
  adr_slot :: u16
  adr_ip :: socket_addr
  adr_connected :: u64
  adr_last_seen :: u64
  adr_banned :: u64

record db =
  seed_tbl :: "(u64 \<times> u64) option"
  address_tbl :: "address_row list"
  content_tbl :: "content_row list"
  publication_tbl :: "publication_row list"
  account_tbl :: "account_row list"
  coins_tbl :: "coin_row list"
  processed_tbl :: "string option"
  txout_tbl :: "txout_row list"

text \<open>
  A transaction works on a copy: a commit makes the copy the database, a rollback, or dropping the
  transaction without a commit, leaves the database as it was.
\<close>

definition in_transaction :: "(db \<Rightarrow> 'a \<times> db) \<Rightarrow> bool \<Rightarrow> db \<Rightarrow> 'a \<times> db" where
  "in_transaction f committed d = (case f d of (x, d') \<Rightarrow> (x, if committed then d' else d))"

text \<open>\<^verbatim>\<open>create_tables\<close> on a fresh database.\<close>

definition db_empty :: db where
  "db_empty = \<lparr>seed_tbl = None, address_tbl = [], content_tbl = [], publication_tbl = [],
     account_tbl = [], coins_tbl = [], processed_tbl = None, txout_tbl = []\<rparr>"

text \<open>\<^verbatim>\<open>insert or replace\<close>\<close>

definition upsert :: "('r \<Rightarrow> 'x) \<Rightarrow> 'r \<Rightarrow> 'r list \<Rightarrow> 'r list" where
  "upsert key r tbl = filter (\<lambda>q. key q \<noteq> key r) tbl @ [r]"

text \<open>\<^verbatim>\<open>order by weight desc\<close>: a stable sort of the rows in the engine's order.\<close>

definition by_weight_desc :: "content_row list \<Rightarrow> content_row list" where
  "by_weight_desc = sort_key (\<lambda>r. - int (unat (row_weight r)))"

section \<open>Content\<close>

definition NH :: nat where
  "NH = 4"

definition K0 :: u64 where
  "K0 = 1614418600579272000"

definition K1 :: u64 where
  "K1 = 8727507265883984962"

text \<open>\<^verbatim>\<open>ContentKey::new(&sha256::Hash::from_hex(id)?[..])\<close>\<close>

definition key_of_hex :: "('p, 'k) crates \<Rightarrow> string \<Rightarrow> content_key outcome" where
  "key_of_hex C s =
     (case sha256_from_hex C s of None \<Rightarrow> Err (IO InvalidInput) | Some h \<Rightarrow> content_key_new h)"

text \<open>\<^verbatim>\<open>Text::as_string().expect(..)\<close>\<close>

definition text_expect :: "('p, 'k) crates \<Rightarrow> enc_text \<Rightarrow> rstring outcome" where
  "text_expect C t =
     obind (text_as_string (texts C) t)
       (\<lambda>r. case r of Inr s \<Rightarrow> Ok s | Inl _ \<Rightarrow> Panic (Expect_failed ''can not decompress ad content''))"

definition store_content ::
  "('p, 'k) crates \<Rightarrow> u32 \<Rightarrow> hash \<Rightarrow> ('p, 'k) content \<Rightarrow> u64 \<Rightarrow> db \<Rightarrow> (nat \<times> db) outcome" where
  "store_content C height block_id c amount d =
     (let id = ad_digest C (ad c); len = content_length C c
      in obind (text_expect C (ad_content (ad c)))
           (\<lambda>s. if len = 0 then Panic Div_by_zero
                else Ok (1, d\<lparr>content_tbl := upsert row_id
                       \<lparr>row_id = sha256_to_hex C id, row_cat = ad_cat (ad c), row_abs = ad_abs (ad c),
                        row_ad = s, row_block_id = sha256d_to_hex C block_id, row_height = height,
                        row_proof = cbor_proof C (funding c), row_publisher = pk_to_bytes C (funder c),
                        row_term = content_term c, row_weight = ucast (amount div ucast len),
                        row_length = len\<rparr> (content_tbl d)\<rparr>)))"

definition read_content ::
  "('p, 'k) crates \<Rightarrow> hash \<Rightarrow> db \<Rightarrow> ('p, 'k) content option outcome" where
  "read_content C dig d =
     (case find (\<lambda>r. row_id r = sha256_to_hex C dig) (content_tbl d) of
        None \<Rightarrow> Err (DB QueryReturnedNoRows)
      | Some r \<Rightarrow>
          obind (unwrap (uncbor_proof C (row_proof r)))
            (\<lambda>p. obind (unwrap (pk_from_slice C (row_publisher r)))
               (\<lambda>k. Ok (Some \<lparr>ad = ad_new C (row_cat r) (row_abs r) (row_ad r), funding = p,
                              funder = k, content_term = row_term r\<rparr>))))"

fun truncate_scan :: "u64 \<Rightarrow> u64 \<Rightarrow> content_row list \<Rightarrow> string list" where
  "truncate_scan limit sz [] = []"
| "truncate_scan limit sz (r # rs) =
     (let sz' = sz + ucast (row_length r)
      in (if sz' > limit then [row_id r] else []) @ truncate_scan limit sz' rs)"

definition truncate_content ::
  "('p, 'k) crates \<Rightarrow> u64 \<Rightarrow> db \<Rightarrow> (content_key list \<times> db) outcome" where
  "truncate_content C limit d =
     ofold (\<lambda>id (keys, d).
         obind (key_of_hex C id)
           (\<lambda>k. Ok (keys @ [k], d\<lparr>content_tbl := filter (\<lambda>r. row_id r \<noteq> id) (content_tbl d)\<rparr>)))
       (truncate_scan limit 0 (by_weight_desc (content_tbl d))) ([], d)"

definition delete_ids ::
  "('p, 'k) crates \<Rightarrow> string list \<Rightarrow> db \<Rightarrow> (content_key list \<times> db) outcome" where
  "delete_ids C ids d =
     obind (omap (key_of_hex C) ids)
       (\<lambda>keys. Ok (keys, d\<lparr>content_tbl := filter (\<lambda>r. row_id r \<notin> set ids) (content_tbl d)\<rparr>))"

definition delete_expired ::
  "('p, 'k) crates \<Rightarrow> u32 \<Rightarrow> db \<Rightarrow> (content_key list \<times> db) outcome" where
  "delete_expired C height d =
     delete_ids C (map row_id (filter (\<lambda>r. unat (row_height r) + unat (row_term r) \<le> unat height)
                                (content_tbl d))) d"

definition delete_confirmed ::
  "('p, 'k) crates \<Rightarrow> hash \<Rightarrow> db \<Rightarrow> (content_key list \<times> db) outcome" where
  "delete_confirmed C block_id d =
     delete_ids C (map row_id (filter (\<lambda>r. row_block_id r = sha256d_to_hex C block_id)
                                (content_tbl d))) d"

definition compute_content_iblt ::
  "('p, 'k) crates \<Rightarrow> u32 \<Rightarrow> db \<Rightarrow> content_key iblt outcome" where
  "compute_content_iblt C len d =
     obind (iblt_new (hashing C) (content_key_ops (hashing C)) len NH K0 K1)
       (\<lambda>t. ofold (\<lambda>id t. obind (key_of_hex C id)
                    (\<lambda>k. iblt_insert (content_key_ops (hashing C)) t k))
              (map row_id (content_tbl d)) t)"

definition compute_content_sketch ::
  "('p, 'k) crates \<Rightarrow> nat \<Rightarrow> db \<Rightarrow> (u64 list \<times> (u64 \<times> u64) list \<times> u32) outcome" where
  "compute_content_sketch C len d =
     obind (omap (\<lambda>id. obind (unwrap (sha256_from_hex C id)) content_key_new)
              (map row_id (content_tbl d)))
       (min_sketch (hashing C) (content_key_ops (hashing C)) len K0 K1)"

text \<open>\<^verbatim>\<open>RetrievedContent\<close>\<close>

record retrieved_content =
  ret_id :: string
  ret_cat :: rstring
  ret_abs :: rstring
  ret_text :: rstring
  ret_publisher :: string
  ret_height :: u32
  ret_term :: u16
  ret_length :: u32
  ret_weight :: u32

definition list_categories :: "db \<Rightarrow> rstring list" where
  "list_categories d = sort (remdups (map row_cat (content_tbl d)))"

text \<open>\<^verbatim>\<open>order by cat, weight desc\<close>; every row is returned as its id, category and abstract.\<close>

definition list_abstracts :: "rstring list \<Rightarrow> db \<Rightarrow> (string \<times> rstring \<times> rstring) list" where
  "list_abstracts cats d =
     map (\<lambda>r. (row_id r, row_cat r, row_abs r))
       (sort_key row_cat (by_weight_desc (filter (\<lambda>r. row_cat r \<in> set cats) (content_tbl d))))"

definition retrieve_contents ::
  "('p, 'k) crates \<Rightarrow> string list \<Rightarrow> db \<Rightarrow> retrieved_content list outcome" where
  "retrieve_contents C ids d =
     omap (\<lambda>r. obind (unwrap (pk_from_slice C (row_publisher r)))
         (\<lambda>k. Ok \<lparr>ret_id = row_id r, ret_cat = row_cat r, ret_abs = row_abs r, ret_text = row_ad r,
                  ret_publisher = pk_to_string C k, ret_height = row_height r, ret_term = row_term r,
                  ret_length = row_length r, ret_weight = row_weight r\<rparr>))
       (by_weight_desc (filter (\<lambda>r. row_id r \<in> set ids) (content_tbl d)))"

section \<open>Publications\<close>

definition read_publication :: "('p, 'k) crates \<Rightarrow> hash \<Rightarrow> db \<Rightarrow> ad option" where
  "read_publication C i d =
     map_option (\<lambda>r. ad_new C (pub_cat r) (pub_abs r) (pub_ad r))
       (find (\<lambda>r. pub_id r = sha256_to_hex C i) (publication_tbl d))"

definition list_publication :: "('p, 'k) crates \<Rightarrow> db \<Rightarrow> hash list outcome" where
  "list_publication C d =
     omap (\<lambda>r. expect ''can not deserialize stored publication id'' (sha256_from_hex C (pub_id r)))
       (publication_tbl d)"

definition prepare_publication :: "('p, 'k) crates \<Rightarrow> ad \<Rightarrow> db \<Rightarrow> (hash \<times> db) outcome" where
  "prepare_publication C a d =
     (let id = ad_digest C a
      in obind (text_expect C (ad_content a))
           (\<lambda>s. Ok (id, d\<lparr>publication_tbl := upsert pub_id
                \<lparr>pub_id = sha256_to_hex C id, pub_cat = ad_cat a, pub_abs = ad_abs a, pub_ad = s,
                 pub_length = of_nat (length (ad_serialize C a))\<rparr> (publication_tbl d)\<rparr>)))"

section \<open>Outgoing transactions, processed block, seed\<close>

definition store_txout ::
  "('p, 'k) crates \<Rightarrow> transaction \<Rightarrow> ('k \<times> hash \<times> u16) option \<Rightarrow> db \<Rightarrow> db" where
  "store_txout C t fund d =
     (let row = \<lparr>txo_txid = sha256d_to_hex C (txid C t), txo_tx = serialize_tx C t, txo_confirmed = None,
                 txo_publisher = map_option (\<lambda>(p, _, _). pk_to_bytes C p) fund,
                 txo_id = map_option (\<lambda>(_, i, _). sha256_to_hex C i) fund,
                 txo_term = map_option (\<lambda>(_, _, n). n) fund\<rparr>
      in d\<lparr>txout_tbl := upsert txo_txid row (txout_tbl d)\<rparr>)"

definition unconfirmed_of_row ::
  "('p, 'k) crates \<Rightarrow> txout_row \<Rightarrow> (transaction \<times> ('k \<times> hash \<times> u16) option) outcome" where
  "unconfirmed_of_row C r =
     obind (expect ''can not deserialize stored transaction'' (deserialize_tx C (txo_tx r)))
       (\<lambda>t. case txo_publisher r of
              None \<Rightarrow> Ok (t, None)
            | Some pb \<Rightarrow>
                obind (expect ''stored publisher in txout not a pubkey'' (pk_from_slice C pb))
                  (\<lambda>p. obind (unwrap (txo_id r))
                  (\<lambda>s. obind (expect ''stored id in txout not hex'' (sha256_from_hex C s))
                  (\<lambda>i. obind (unwrap (txo_term r)) (\<lambda>n. Ok (t, Some (p, i, n)))))))"

definition read_unconfirmed ::
  "('p, 'k) crates \<Rightarrow> db \<Rightarrow> (transaction \<times> ('k \<times> hash \<times> u16) option) list outcome" where
  "read_unconfirmed C d =
     omap (unconfirmed_of_row C) (filter (\<lambda>r. txo_confirmed r = None) (txout_tbl d))"

definition rescan :: "('p, 'k) crates \<Rightarrow> hash \<Rightarrow> db \<Rightarrow> db" where
  "rescan C after d =
     d\<lparr>processed_tbl := map_option (\<lambda>_. sha256d_to_hex C after) (processed_tbl d),
       txout_tbl := [], coins_tbl := []\<rparr>"

definition store_processed :: "('p, 'k) crates \<Rightarrow> hash \<Rightarrow> db \<Rightarrow> db" where
  "store_processed C block_id d = d\<lparr>processed_tbl := Some (sha256d_to_hex C block_id)\<rparr>"

definition read_processed :: "('p, 'k) crates \<Rightarrow> db \<Rightarrow> hash option outcome" where
  "read_processed C d =
     (case processed_tbl d of
        None \<Rightarrow> Ok None
      | Some s \<Rightarrow> obind (expect ''stored block not hex'' (sha256d_from_hex C s)) (\<lambda>h. Ok (Some h)))"

text \<open>\<open>r0\<close> and \<open>r1\<close> are what the random generator returns.\<close>

definition read_seed :: "u64 \<Rightarrow> u64 \<Rightarrow> db \<Rightarrow> (u64 \<times> u64) \<times> db" where
  "read_seed r0 r1 d =
     (case seed_tbl d of
        Some seed \<Rightarrow> (seed, d)
      | None \<Rightarrow> ((r0, r1), d\<lparr>seed_tbl := Some (r0, r1)\<rparr>))"

end
