(* ===== verification/Content_Table.thy ===== *)
theory Content_Table
  imports Database
begin

text \<open>
  Properties of the content table: its invariant, which keys each operation removes, the
  order and the bound that truncation to the storage limit establishes, and the round trip
  of stored content.
\<close>

section \<open>Invariant\<close>

text \<open>
  Every identifier is the hexadecimal form of a digest and identifies one row, and the
  binary columns can be read back.
\<close>

definition row_ok :: "('p, 'k) crates \<Rightarrow> content_row \<Rightarrow> bool" where
  "row_ok C r \<longleftrightarrow>
     (case sha256_from_hex C (row_id r) of None \<Rightarrow> False | Some h \<Rightarrow> sha256_to_hex C h = row_id r)
     \<and> uncbor_proof C (row_proof r) \<noteq> None \<and> pk_from_slice C (row_publisher r) \<noteq> None"

definition db_ok :: "('p, 'k) crates \<Rightarrow> db \<Rightarrow> bool" where
  "db_ok C d \<longleftrightarrow> distinct (map row_id (content_tbl d)) \<and> (\<forall>r \<in> set (content_tbl d). row_ok C r)"

text \<open>The key of a row, and the keys a node holds.\<close>

definition row_key :: "('p, 'k) crates \<Rightarrow> content_row \<Rightarrow> content_key" where
  "row_key C r = \<lparr>digest = (case sha256_from_hex C (row_id r) of None \<Rightarrow> [] | Some h \<Rightarrow> h)\<rparr>"

definition content_keys :: "('p, 'k) crates \<Rightarrow> db \<Rightarrow> content_key list" where
  "content_keys C d = map (row_key C) (content_tbl d)"

definition total_length :: "content_row list \<Rightarrow> nat" where
  "total_length rs = sum_list (map (\<lambda>r. unat (row_length r)) rs)"

lemma row_okE:
  assumes "row_ok C r"
  obtains h where "sha256_from_hex C (row_id r) = Some h" "sha256_to_hex C h = row_id r"
    "row_key C r = \<lparr>digest = h\<rparr>"
  using assms by (auto simp: row_ok_def row_key_def split: option.splits)

lemma key_of_hex_row:
  assumes "crates_ok C" and "row_ok C r"
  shows "key_of_hex C (row_id r) = Ok (row_key C r)"
    and "obind (unwrap (sha256_from_hex C (row_id r))) content_key_new = Ok (row_key C r)"
    and "content_key_wf (row_key C r)"
  using assms(2) crates_okD(4) [OF assms(1)]
  by (auto elim!: row_okE simp: key_of_hex_def content_key_new_def content_key_wf_def)

lemma row_key_eq_iff:
  assumes "row_ok C r" and "row_ok C q"
  shows "row_key C r = row_key C q \<longleftrightarrow> row_id r = row_id q"
proof
  assume "row_key C r = row_key C q"
  with assms show "row_id r = row_id q" by (metis row_okE content_key.ext_inject)
qed (simp add: row_key_def)

lemma omap_key_of_hex:
  assumes "crates_ok C" and "\<forall>r \<in> set rs. row_ok C r"
  shows "omap (key_of_hex C) (map row_id rs) = Ok (map (row_key C) rs)"
    and "omap (\<lambda>i. obind (unwrap (sha256_from_hex C i)) content_key_new) (map row_id rs)
         = Ok (map (row_key C) rs)"
  using assms(2) key_of_hex_row [OF assms(1)] by (induction rs) auto

lemma db_ok_filter:
  "db_ok C d \<Longrightarrow> db_ok C (d\<lparr>content_tbl := filter P (content_tbl d)\<rparr>)"
  by (simp add: db_ok_def distinct_map_filter)

lemma content_keys_wf:
  "crates_ok C \<Longrightarrow> db_ok C d \<Longrightarrow> k \<in> set (content_keys C d) \<Longrightarrow> content_key_wf k"
  by (auto simp: content_keys_def db_ok_def key_of_hex_row)

lemma distinct_content_keys: "db_ok C d \<Longrightarrow> distinct (content_keys C d)"
proof -
  assume d: "db_ok C d"
  then have "inj_on (row_key C) (set (content_tbl d))"
    by (auto simp: db_ok_def inj_on_def row_key_eq_iff distinct_map)
  with d show ?thesis by (auto simp: content_keys_def db_ok_def distinct_map)
qed

section \<open>Deletion\<close>

text \<open>Deleting the rows a query selects returns their keys.\<close>

lemma delete_ids_filter:
  assumes "crates_ok C" and "db_ok C d"
  shows "delete_ids C (map row_id (filter P (content_tbl d))) d =
    Ok (map (row_key C) (filter P (content_tbl d)),
        d\<lparr>content_tbl := filter (\<lambda>r. \<not> P r) (content_tbl d)\<rparr>)"
proof -
  have inj: "inj_on row_id (set (content_tbl d))"
    using assms(2) by (simp add: db_ok_def distinct_map)
  have "filter (\<lambda>r. row_id r \<notin> row_id ` {r \<in> set (content_tbl d). P r}) (content_tbl d)
      = filter (\<lambda>r. \<not> P r) (content_tbl d)"
    using inj by (intro filter_cong) (auto dest: inj_onD)
  then show ?thesis
    using assms omap_key_of_hex(1) [OF assms(1), of "filter P (content_tbl d)"]
    by (simp add: delete_ids_def db_ok_def)
qed

lemma delete_expired_eq:
  assumes "crates_ok C" and "db_ok C d"
  shows "delete_expired C height d =
    Ok (map (row_key C) (filter (\<lambda>r. unat (row_height r) + unat (row_term r) \<le> unat height) (content_tbl d)),
        d\<lparr>content_tbl := filter (\<lambda>r. \<not> unat (row_height r) + unat (row_term r) \<le> unat height)
                          (content_tbl d)\<rparr>)"
  unfolding delete_expired_def by (rule delete_ids_filter [OF assms])

lemma delete_confirmed_eq:
  assumes "crates_ok C" and "db_ok C d"
  shows "delete_confirmed C block_id d =
    Ok (map (row_key C) (filter (\<lambda>r. row_block_id r = sha256d_to_hex C block_id) (content_tbl d)),
        d\<lparr>content_tbl := filter (\<lambda>r. \<not> row_block_id r = sha256d_to_hex C block_id) (content_tbl d)\<rparr>)"
  unfolding delete_confirmed_def by (rule delete_ids_filter [OF assms])

text \<open>What a deleting operation does to the keys of the table.\<close>

lemma mset_content_keys_partition:
  "mset (content_keys C d) =
     mset (map (row_key C) (filter P (content_tbl d)))
     + mset (content_keys C (d\<lparr>content_tbl := filter (\<lambda>r. \<not> P r) (content_tbl d)\<rparr>))"
  by (simp add: content_keys_def multiset_partition [of _ P] flip: image_mset_union)

section \<open>Truncation\<close>

text \<open>The rows that stay: the longest prefix within the limit, in the order of the query.\<close>

fun fitting :: "nat \<Rightarrow> nat \<Rightarrow> content_row list \<Rightarrow> content_row list" where
  "fitting limit n [] = []"
| "fitting limit n (r # rs) =
     (if limit < n + unat (row_length r) then [] else r # fitting limit (n + unat (row_length r)) rs)"

lemma fitting_prefix: "fitting limit n rs = take (length (fitting limit n rs)) rs"
  by (induction limit n rs rule: fitting.induct) auto

lemma fitting_total:
  assumes "n \<le> limit"
  shows "n + total_length (fitting limit n rs) \<le> limit"
  using assms by (induction limit n rs rule: fitting.induct) (auto simp: total_length_def)

lemma fitting_maximal:
  assumes "drop (length (fitting limit n rs)) rs = q # qs"
  shows "limit < n + total_length (fitting limit n rs) + unat (row_length q)"
  using assms
  by (induction limit n rs rule: fitting.induct) (auto simp: total_length_def split: if_splits)

lemma unat_add_length:
  fixes sz :: u64 and len :: u32
  assumes "unat sz + unat len < 2 ^ 64"
  shows "unat (sz + ucast len) = unat sz + unat len"
  using assms by (simp add: unat_word_ariths)

lemma truncate_scan_over:
  assumes "limit < sz" and "unat sz + total_length rs < 2 ^ 64"
  shows "truncate_scan limit sz rs = map row_id rs"
  using assms
proof (induction rs arbitrary: sz)
  case (Cons r rs)
  have u: "unat (sz + ucast (row_length r)) = unat sz + unat (row_length r)"
    using Cons.prems(2) by (intro unat_add_length) (simp add: total_length_def)
  with Cons.prems(1) have "limit < sz + ucast (row_length r)" by (simp add: word_less_nat_alt)
  with Cons.IH [of "sz + ucast (row_length r)"] Cons.prems(2) u show ?case
    by (simp add: Let_def total_length_def)
qed simp

lemma truncate_scan_eq:
  assumes "unat sz + total_length rs < 2 ^ 64"
  shows "truncate_scan limit sz rs = map row_id (drop (length (fitting (unat limit) (unat sz) rs)) rs)"
  using assms
proof (induction rs arbitrary: sz)
  case (Cons r rs)
  let ?sz = "sz + ucast (row_length r)"
  have u: "unat ?sz = unat sz + unat (row_length r)"
    using Cons.prems by (intro unat_add_length) (simp add: total_length_def)
  have b: "unat ?sz + total_length rs < 2 ^ 64" using Cons.prems by (simp add: u total_length_def)
  show ?case
  proof (cases "limit < ?sz")
    case True
    then have "unat limit < unat sz + unat (row_length r)" by (simp add: word_less_nat_alt u)
    with truncate_scan_over [OF True b] True show ?thesis by (simp add: Let_def)
  next
    case False
    then have "\<not> unat limit < unat sz + unat (row_length r)" by (simp add: word_less_nat_alt u)
    with False Cons.IH [OF b] show ?thesis by (simp add: Let_def u)
  qed
qed simp

lemma truncate_loop:
  assumes "crates_ok C" and "\<forall>r \<in> set rs. row_ok C r"
  shows "ofold (\<lambda>i (keys, d).
         obind (key_of_hex C i)
           (\<lambda>k. Ok (keys @ [k], d\<lparr>content_tbl := filter (\<lambda>r. row_id r \<noteq> i) (content_tbl d)\<rparr>)))
       (map row_id rs) (ks, d)
     = Ok (ks @ map (row_key C) rs,
           d\<lparr>content_tbl := filter (\<lambda>r. row_id r \<notin> row_id ` set rs) (content_tbl d)\<rparr>)"
  using assms(2)
  by (induction rs arbitrary: ks d) (auto simp: key_of_hex_row [OF assms(1)] conj_commute)

text \<open>The rows truncation drops.\<close>

definition excess_rows :: "u64 \<Rightarrow> db \<Rightarrow> content_row list" where
  "excess_rows limit d =
     (let rs = by_weight_desc (content_tbl d) in drop (length (fitting (unat limit) 0 rs)) rs)"

lemma set_excess_rows: "set (excess_rows limit d) \<subseteq> set (content_tbl d)"
  using set_drop_subset by (fastforce simp: excess_rows_def Let_def by_weight_desc_def)

lemma total_length_mset: "mset rs = mset qs \<Longrightarrow> total_length rs = total_length qs"
  by (simp add: total_length_def sum_mset_sum_list [symmetric])

lemma truncate_content_eq:
  assumes "crates_ok C" and "db_ok C d" and "total_length (content_tbl d) < 2 ^ 64"
  shows "truncate_content C limit d =
    Ok (map (row_key C) (excess_rows limit d),
        d\<lparr>content_tbl := filter (\<lambda>r. r \<notin> set (excess_rows limit d)) (content_tbl d)\<rparr>)"
proof -
  let ?rs = "by_weight_desc (content_tbl d)" and ?ex = "excess_rows limit d"
  have "total_length ?rs = total_length (content_tbl d)"
    by (rule total_length_mset) (simp add: by_weight_desc_def)
  then have scan: "truncate_scan limit 0 ?rs = map row_id ?ex"
    using truncate_scan_eq [of 0 ?rs limit] assms(3) by (simp add: excess_rows_def Let_def)
  have inj: "inj_on row_id (set (content_tbl d))"
    using assms(2) by (simp add: db_ok_def distinct_map)
  have "row_id r \<in> row_id ` set ?ex \<longleftrightarrow> r \<in> set ?ex" if "r \<in> set (content_tbl d)" for r
    using that inj set_excess_rows [of limit d] by (auto dest: inj_onD)
  then have "filter (\<lambda>r. row_id r \<notin> row_id ` set ?ex) (content_tbl d)
      = filter (\<lambda>r. r \<notin> set ?ex) (content_tbl d)"
    by (intro filter_cong) auto
  with truncate_loop [OF assms(1), of ?ex "[]" d] show ?thesis
    using assms(2) set_excess_rows [of limit d]
    by (auto simp: truncate_content_def scan db_ok_def)
qed

lemma kept_rows:
  assumes "db_ok C d"
  shows "mset (filter (\<lambda>r. r \<notin> set (excess_rows limit d)) (content_tbl d))
    = mset (fitting (unat limit) 0 (by_weight_desc (content_tbl d)))"
proof -
  let ?rs = "by_weight_desc (content_tbl d)"
  let ?n = "length (fitting (unat limit) 0 ?rs)"
  have ms: "mset ?rs = mset (content_tbl d)" by (simp add: by_weight_desc_def)
  have dist: "distinct ?rs"
    using assms by (auto simp: by_weight_desc_def db_ok_def distinct_map)
  then have "set (take ?n ?rs) \<inter> set (drop ?n ?rs) = {}"
    by (simp add: set_take_disj_set_drop_if_distinct)
  then have "filter (\<lambda>r. r \<notin> set (drop ?n ?rs)) (take ?n ?rs @ drop ?n ?rs) = take ?n ?rs"
    unfolding filter_append by (auto simp: filter_id_conv filter_empty_conv)
  then have "filter (\<lambda>r. r \<notin> set (excess_rows limit d)) ?rs = fitting (unat limit) 0 ?rs"
    unfolding append_take_drop_id
    by (simp add: excess_rows_def Let_def fitting_prefix [of "unat limit" 0 ?rs, symmetric])
  then show ?thesis using ms by (metis mset_filter)
qed

lemma mset_excess_rows:
  assumes "db_ok C d"
  shows "mset (excess_rows limit d) = mset (filter (\<lambda>r. r \<in> set (excess_rows limit d)) (content_tbl d))"
proof -
  have "distinct (content_tbl d)" "distinct (excess_rows limit d)"
    using assms by (auto simp: db_ok_def distinct_map excess_rows_def by_weight_desc_def Let_def)
  moreover have "set (excess_rows limit d)
      = set (filter (\<lambda>r. r \<in> set (excess_rows limit d)) (content_tbl d))"
    using set_excess_rows [of limit d] by auto
  ultimately show ?thesis by (metis distinct_filter set_eq_iff_mset_eq_distinct)
qed

lemma excess_weight:
  assumes "r \<in> set (fitting (unat limit) 0 (by_weight_desc (content_tbl d)))"
    and "q \<in> set (excess_rows limit d)"
  shows "row_weight q \<le> row_weight r"
proof -
  let ?rs = "by_weight_desc (content_tbl d)" and ?f = "\<lambda>r. - int (unat (row_weight r))"
  let ?n = "length (fitting (unat limit) 0 ?rs)"
  have "sorted (map ?f (take ?n ?rs @ drop ?n ?rs))"
    using sorted_sort_key [of ?f "content_tbl d"] by (simp add: by_weight_desc_def)
  then have "\<forall>x \<in> set (take ?n ?rs). \<forall>y \<in> set (drop ?n ?rs). ?f x \<le> ?f y"
    unfolding map_append sorted_append by auto
  with assms fitting_prefix [of "unat limit" 0 ?rs] have "?f r \<le> ?f q"
    by (metis excess_rows_def)
  then show ?thesis by (simp add: word_le_def)
qed

section \<open>Properties\<close>

text \<open>
  C16. Truncation to the storage limit keeps the most valuable content: what stays fits the
  limit, nothing that is dropped weighs more than anything that stays, one more of the dropped
  rows would exceed the limit, the returned keys are those of the dropped rows, and nothing is
  dropped from a table within the limit.
\<close>

theorem truncate_content_spec:
  assumes "crates_ok C" and "db_ok C d" and "total_length (content_tbl d) < 2 ^ 64"
  shows "\<exists>keys dropped d'. truncate_content C limit d = Ok (keys, d')
    \<and> keys = map (row_key C) dropped
    \<and> mset (content_tbl d) = mset (content_tbl d') + mset dropped
    \<and> total_length (content_tbl d') \<le> unat limit
    \<and> (\<forall>r \<in> set (content_tbl d'). \<forall>q \<in> set dropped. row_weight q \<le> row_weight r)
    \<and> (dropped \<noteq> [] \<longrightarrow> unat limit < total_length (content_tbl d') + unat (row_length (hd dropped)))
    \<and> db_ok C d'"
proof -
  let ?ex = "excess_rows limit d" and ?rs = "by_weight_desc (content_tbl d)"
  let ?d = "d\<lparr>content_tbl := filter (\<lambda>r. r \<notin> set ?ex) (content_tbl d)\<rparr>"
  let ?fit = "fitting (unat limit) 0 ?rs"
  note kept = kept_rows [OF assms(2), of limit]
  have total: "total_length (content_tbl ?d) = total_length ?fit"
    using total_length_mset [OF kept] by simp
  have "mset (content_tbl d) = mset ?fit + mset ?ex"
  proof -
    have "mset (content_tbl d) = mset (take (length ?fit) ?rs @ drop (length ?fit) ?rs)"
      by (simp add: by_weight_desc_def)
    also have "take (length ?fit) ?rs = ?fit" by (rule fitting_prefix [symmetric])
    finally show ?thesis by (simp add: excess_rows_def Let_def)
  qed
  moreover have "\<forall>r \<in> set (content_tbl ?d). \<forall>q \<in> set ?ex. row_weight q \<le> row_weight r"
    using excess_weight [of _ limit d] mset_eq_setD [OF kept] by auto
  moreover have "unat limit < total_length ?fit + unat (row_length (hd ?ex))" if "?ex \<noteq> []"
    using fitting_maximal [of "unat limit" 0 ?rs "hd ?ex" "tl ?ex"] that
    by (simp add: excess_rows_def Let_def)
  ultimately show ?thesis
    using truncate_content_eq [OF assms, of limit] fitting_total [of 0 "unat limit" ?rs] total kept
      db_ok_filter [OF assms(2)]
    by (intro exI [of _ "map (row_key C) ?ex"] exI [of _ ?ex] exI [of _ ?d]) simp
qed

text \<open>
  The deletion at a new height removes exactly the content whose term has run out, and
  returns exactly its keys; what stays expires strictly above that height.
\<close>

lemma delete_expired_spec:
  assumes "crates_ok C" and "db_ok C d"
  shows "\<exists>keys d'. delete_expired C height d = Ok (keys, d') \<and> db_ok C d'
    \<and> set (content_tbl d') =
        {r \<in> set (content_tbl d). unat height < unat (row_height r) + unat (row_term r)}
    \<and> mset (content_keys C d) = mset keys + mset (content_keys C d')"
  by (intro exI conjI, rule delete_expired_eq [OF assms], rule db_ok_filter [OF assms(2)],
      force simp: not_le, rule mset_content_keys_partition)

text \<open>
  When a block is unwound, exactly the content confirmed in that block is removed and
  exactly its keys are returned.
\<close>

lemma delete_confirmed_spec:
  assumes "crates_ok C" and "db_ok C d"
  shows "\<exists>keys d'. delete_confirmed C block_id d = Ok (keys, d') \<and> db_ok C d'
    \<and> set (content_tbl d') =
        {r \<in> set (content_tbl d). row_block_id r \<noteq> sha256d_to_hex C block_id}
    \<and> mset (content_keys C d) = mset keys + mset (content_keys C d')"
  by (intro exI conjI, rule delete_confirmed_eq [OF assms], rule db_ok_filter [OF assms(2)],
      force simp: not_le, rule mset_content_keys_partition)

section \<open>Storing and reading content\<close>

lemma find_upsert: "find (\<lambda>q. key q = key r) (upsert key r tbl) = Some r"
proof -
  have "find (\<lambda>q. key q = key r) (filter (\<lambda>q. key q \<noteq> key r) tbl @ [r]) = Some r"
    by (induction tbl) auto
  then show ?thesis by (simp add: upsert_def)
qed

lemma distinct_upsert: "distinct (map key tbl) \<Longrightarrow> distinct (map key (upsert key r tbl))"
  by (auto simp: upsert_def distinct_map_filter)

lemma set_upsert: "set (upsert key r tbl) = insert r {q \<in> set tbl. key q \<noteq> key r}"
  by (auto simp: upsert_def)

lemma length_upsert:
  assumes "distinct (map key tbl)" and "q \<in> set tbl" and "key q = key r"
  shows "length (upsert key r tbl) = length tbl"
proof -
  have "filter (\<lambda>x. key x = key r) tbl = [q]"
    using assms by (induction tbl) (auto simp: filter_empty_conv image_iff)
  with sum_length_filter_compl [of "\<lambda>x. key x = key r" tbl] show ?thesis by (simp add: upsert_def)
qed

text \<open>The row \<open>store_content\<close> writes.\<close>

definition content_row_of ::
  "('p, 'k) crates \<Rightarrow> u32 \<Rightarrow> hash \<Rightarrow> ('p, 'k) content \<Rightarrow> u64 \<Rightarrow> rstring \<Rightarrow> content_row" where
  "content_row_of C height block_id c amount s =
     \<lparr>row_id = sha256_to_hex C (ad_digest C (ad c)), row_cat = ad_cat (ad c), row_abs = ad_abs (ad c),
      row_ad = s, row_block_id = sha256d_to_hex C block_id, row_height = height,
      row_proof = cbor_proof C (funding c), row_publisher = pk_to_bytes C (funder c),
      row_term = content_term c, row_weight = ucast (amount div ucast (content_length C c)),
      row_length = content_length C c\<rparr>"

lemma text_expect_Ok_iff: "text_expect C t = Ok s \<longleftrightarrow> text_as_string (texts C) t = Ok (Inr s)"
  by (auto simp: text_expect_def split: sum.splits) (metis sum.exhaust)

lemma row_id_content_row_of [simp]:
  "row_id (content_row_of C height block_id c amount s) = sha256_to_hex C (ad_digest C (ad c))"
  by (simp add: content_row_of_def)

lemma store_content_eq:
  assumes "crates_ok C" and "ad_fits C (ad c)"
    and "text_as_string (texts C) (ad_content (ad c)) = Ok (Inr s)"
  shows "store_content C height block_id c amount d =
    Ok (1, d\<lparr>content_tbl := upsert row_id (content_row_of C height block_id c amount s) (content_tbl d)\<rparr>)"
  using content_length_pos [OF assms(1,2)] assms(3)
  by (simp add: store_content_def text_expect_def content_row_of_def Let_def)

lemma store_content_Ok:
  assumes "store_content C height block_id c amount d = Ok (n, d')"
    and "text_as_string (texts C) (ad_content (ad c)) = Ok (Inr s)"
  shows "d' = d\<lparr>content_tbl := upsert row_id (content_row_of C height block_id c amount s) (content_tbl d)\<rparr>"
  using assms by (auto simp: store_content_def text_expect_def content_row_of_def Let_def split: if_splits)

lemma row_ok_content_row_of:
  assumes "crates_ok C"
  shows "row_ok C (content_row_of C height block_id c amount s)"
    and "row_key C (content_row_of C height block_id c amount s) = \<lparr>digest = ad_digest C (ad c)\<rparr>"
  using crates_okD [OF assms] length_ad_digest [OF assms, of "ad c"]
  by (simp_all add: row_ok_def row_key_def content_row_of_def)

lemma db_ok_upsert:
  "db_ok C d \<Longrightarrow> row_ok C r \<Longrightarrow> db_ok C (d\<lparr>content_tbl := upsert row_id r (content_tbl d)\<rparr>)"
  by (auto simp: db_ok_def distinct_upsert set_upsert)

lemma read_content_upsert:
  assumes "crates_ok C"
  shows "read_content C (ad_digest C (ad c))
      (d\<lparr>content_tbl := upsert row_id (content_row_of C height block_id c amount s) tbl\<rparr>)
    = Ok (Some (c\<lparr>ad := ad_new C (ad_cat (ad c)) (ad_abs (ad c)) s\<rparr>))"
  using find_upsert [of row_id "content_row_of C height block_id c amount s" tbl] crates_okD [OF assms]
  by (simp add: read_content_def content_row_of_def)

lemma canonical_textE:
  assumes "canonical_text C t"
  obtains s where "text_as_string (texts C) t = Ok (Inr s)" "valid_str s" "text_new (texts C) s = t"
  using assms by (auto simp: canonical_text_def split: outcome.splits sum.splits)

lemma ad_new_eq_iff: "ad_new C (ad_cat a) (ad_abs a) s = a \<longleftrightarrow> text_new (texts C) s = ad_content a"
  by (cases a) (simp add: ad_new_def)

text \<open>
  C17. Round trip: content whose text is encoded the way \<^verbatim>\<open>Text::new\<close> encodes is served exactly
  as it was stored, under the digest of its ad.
\<close>

theorem content_roundtrip:
  assumes "crates_ok C" and "canonical_text C (ad_content (ad c))"
    and "store_content C height block_id c amount d = Ok (n, d')"
  shows "read_content C (ad_digest C (ad c)) d' = Ok (Some c)"
proof -
  obtain s where s: "text_as_string (texts C) (ad_content (ad c)) = Ok (Inr s)"
    "text_new (texts C) s = ad_content (ad c)"
    using assms(2) by (rule canonical_textE)
  have "c\<lparr>ad := ad_new C (ad_cat (ad c)) (ad_abs (ad c)) s\<rparr> = c"
    using s(2) by (simp add: ad_new_eq_iff)
  with read_content_upsert [OF assms(1), of c] store_content_Ok [OF assms(3) s(1)] show ?thesis
    by simp
qed

text \<open>
  The table keeps the decoded text, not the encoded bytes the digest commits to: content
  with any other encoding of the same text is stored under its own digest but served with
  a different ad, which the funding transaction does not commit to.
\<close>

lemma content_reencoded:
  assumes "crates_ok C" and "ad_fits C (ad c)"
    and "text_as_string (texts C) (ad_content (ad c)) = Ok (Inr s)"
    and "text_new (texts C) s \<noteq> ad_content (ad c)"
  shows "\<exists>d' c'. store_content C height block_id c amount d = Ok (1, d')
    \<and> read_content C (ad_digest C (ad c)) d' = Ok (Some c') \<and> ad c' \<noteq> ad c"
  by (intro exI conjI, rule store_content_eq [OF assms(1-3)], rule read_content_upsert [OF assms(1)])
    (simp add: ad_new_eq_iff assms(4))

text \<open>
  A prepared publication is read back exactly, and its identifier is the digest the
  funding transaction will commit to.
\<close>

lemma prepared_read_back:
  assumes "crates_ok C" and "valid_str s"
  shows "\<exists>d'. prepare_publication C (ad_new C cat abstr s) d = Ok (ad_digest C (ad_new C cat abstr s), d')
    \<and> read_publication C (ad_digest C (ad_new C cat abstr s)) d' = Some (ad_new C cat abstr s)"
proof -
  let ?a = "ad_new C cat abstr s"
  let ?row = "\<lparr>pub_id = sha256_to_hex C (ad_digest C ?a), pub_cat = ad_cat ?a, pub_abs = ad_abs ?a,
    pub_ad = s, pub_length = of_nat (length (ad_serialize C ?a))\<rparr>"
  have t: "text_as_string (texts C) (ad_content ?a) = Ok (Inr s)"
    using text_as_string_new [OF crates_okD(1) [OF assms(1)] assms(2)] by (simp add: ad_new_def)
  then have "prepare_publication C ?a d =
      Ok (ad_digest C ?a, d\<lparr>publication_tbl := upsert pub_id ?row (publication_tbl d)\<rparr>)"
    by (simp add: prepare_publication_def text_expect_def Let_def)
  with find_upsert [of pub_id ?row "publication_tbl d"] show ?thesis
    by (simp add: read_publication_def ad_new_def)
qed

section \<open>Listings\<close>

lemma sorted_sort_key_stable:
  assumes "sorted_wrt (\<lambda>x y. P x y) xs"
  shows "sorted_wrt (\<lambda>x y. f x < f y \<or> f x = f y \<and> P x y) (sort_key f xs)"
  using assms
proof (induction xs)
  case (Cons x xs)
  have "sorted_wrt (\<lambda>x y. f x < f y \<or> f x = f y \<and> P x y) (insort_key f x ys)"
    if "sorted_wrt (\<lambda>x y. f x < f y \<or> f x = f y \<and> P x y) ys" "\<forall>y \<in> set ys. P x y" for ys
    using that by (induction ys) (auto simp: set_insort_key not_le)
  with Cons show ?case by simp
qed simp

text \<open>
  The abstracts of the asked categories are listed by category and, within a category,
  by descending weight, and exactly the stored rows of those categories are listed.
\<close>

lemma list_abstracts_spec:
  "\<exists>rs. list_abstracts cats d = map (\<lambda>r. (row_id r, row_cat r, row_abs r)) rs
    \<and> mset rs = filter_mset (\<lambda>r. row_cat r \<in> set cats) (mset (content_tbl d))
    \<and> sorted_wrt (\<lambda>r q. row_cat r < row_cat q
                       \<or> row_cat r = row_cat q \<and> row_weight q \<le> row_weight r) rs"
proof -
  let ?rs = "filter (\<lambda>r. row_cat r \<in> set cats) (content_tbl d)"
  have "sorted_wrt (\<lambda>r q. row_weight q \<le> row_weight r) (by_weight_desc ?rs)"
    using sorted_sort_key [of "\<lambda>r. - int (unat (row_weight r))" ?rs]
    by (simp add: by_weight_desc_def sorted_wrt_map word_le_def)
  then have "sorted_wrt (\<lambda>r q. row_cat r < row_cat q
      \<or> row_cat r = row_cat q \<and> row_weight q \<le> row_weight r) (sort_key row_cat (by_weight_desc ?rs))"
    by (rule sorted_sort_key_stable)
  then show ?thesis
    by (intro exI [of _ "sort_key row_cat (by_weight_desc ?rs)"])
      (simp add: list_abstracts_def by_weight_desc_def)
qed

end
