(* ===== verification/Wallet_Db.thy ===== *)
theory Wallet_Db
  imports Wallet Content_Table
begin

text \<open>
  The wallet's part of the database, \<^verbatim>\<open>src/db.rs\<close>: coins and accounts. The maps the coin set
  returns are association lists in the order of their iteration.
\<close>

section \<open>Accounts\<close>

text \<open>\<open>None\<close> is an account the hierarchy does not have; its callers unwrap.\<close>

definition store_account ::
  "('p, 'k, 'c, 'm, 'u) wallet_crates \<Rightarrow> 'm \<Rightarrow> u32 \<times> u32 \<Rightarrow> db \<Rightarrow> db option" where
  "store_account W m a d =
     map_option (\<lambda>(ty, mp, inst). d\<lparr>account_tbl := upsert (\<lambda>r. (acc_account r, acc_sub r))
          \<lparr>acc_account = fst a, acc_sub = snd a, acc_address_type = ty, acc_master = mp,
           acc_instantiated = inst\<rparr> (account_tbl d)\<rparr>)
       (account_columns W m a)"

text \<open>Returns the number of inserted rows.\<close>

definition store_master ::
  "('p, 'k, 'c, 'm, 'u) wallet_crates \<Rightarrow> 'm \<Rightarrow> db \<Rightarrow> (nat \<times> db) outcome" where
  "store_master W m d =
     ofold (\<lambda>a (n, d). obind (unwrap (store_account W m a d)) (\<lambda>d. Ok (n + 1, d)))
       (account_numbers W m) (0, d\<lparr>account_tbl := []\<rparr>)"

text \<open>The stored columns of an account, or the error of \<^verbatim>\<open>query_row\<close> when there is none.\<close>

definition read_account :: "u32 \<Rightarrow> u32 \<Rightarrow> db \<Rightarrow> (u32 \<times> string \<times> bytes) outcome" where
  "read_account account_number sub d =
     (case find (\<lambda>r. acc_account r = account_number \<and> acc_sub r = sub) (account_tbl d) of
        None \<Rightarrow> Err (DB QueryReturnedNoRows)
      | Some r \<Rightarrow> Ok (acc_address_type r, acc_master r, acc_instantiated r))"

section \<open>Coins\<close>

definition coin_row_of ::
  "('p, 'k) crates \<Rightarrow> ('p, 'k, 'c, 'm, 'u) wallet_crates \<Rightarrow> (hash \<times> 'p) list \<Rightarrow> out_point \<times> coin
   \<Rightarrow> coin_row outcome" where
  "coin_row_of C W proofs x =
     (case x of (point, coin) \<Rightarrow>
        obind (expect ''inconsistent wallet, missing proof'' (map_of proofs (op_txid point)))
          (\<lambda>proof.
             let der = derivation coin;
                 tweak = (case kd_tweak der of Some t \<Rightarrow> hex_encode W t | None \<Rightarrow> '''')
             in Ok \<lparr>coin_txid = sha256d_to_hex C (op_txid point), coin_vout = op_vout point,
                    coin_value = out_value (coin_output coin),
                    coin_script = script_pubkey (coin_output coin),
                    coin_account = kd_account der, coin_sub = kd_sub der, coin_kix = kd_kix der,
                    coin_tweak = (if tweak = '''' then None else Some tweak),
                    coin_csv = kd_csv der, coin_proof = cbor_proof C proof\<rparr>))"

text \<open>Mark the transactions the coin set has proofs for as confirmed.\<close>

definition mark_confirmed ::
  "('p, 'k) crates \<Rightarrow> (hash \<times> 'p) list \<Rightarrow> transaction \<Rightarrow> txout_row list \<Rightarrow> txout_row list" where
  "mark_confirmed C proofs t rows =
     (case find (\<lambda>p. txid C (proof_transaction C p) = txid C t) (map snd proofs) of
        None \<Rightarrow> rows
      | Some p \<Rightarrow>
          map (\<lambda>r. if txo_txid r = sha256d_to_hex C (txid C (proof_transaction C p))
                   then r\<lparr>txo_confirmed := Some (sha256d_to_hex C (proof_block_hash C p))\<rparr> else r) rows)"

definition store_coins ::
  "('p, 'k) crates \<Rightarrow> ('p, 'k, 'c, 'm, 'u) wallet_crates \<Rightarrow> 'c \<Rightarrow> db \<Rightarrow> db outcome" where
  "store_coins C W cs d =
     (let proofs = coin_proofs W cs
      in obind (omap (coin_row_of C W proofs) (confirmed_coins W cs))
           (\<lambda>rows. let d = d\<lparr>coins_tbl := rows\<rparr>
             in obind (read_unconfirmed C d)
                  (\<lambda>us. Ok (d\<lparr>txout_tbl := fold (\<lambda>(t, _). mark_confirmed C proofs t) us (txout_tbl d)\<rparr>))))"

definition coin_of_row ::
  "('p, 'k) crates \<Rightarrow> ('p, 'k, 'c, 'm, 'u) wallet_crates \<Rightarrow> coin_row \<Rightarrow> (out_point \<times> coin \<times> 'p) outcome" where
  "coin_of_row C W r =
     obind (expect ''transaction id not hex'' (sha256d_from_hex C (coin_txid r)))
       (\<lambda>t. obind (case coin_tweak r of
                     None \<Rightarrow> Ok None
                   | Some s \<Rightarrow> obind (expect ''tweak not hex'' (hex_decode W s)) (\<lambda>b. Ok (Some b)))
       (\<lambda>tweak. obind (expect ''can not deserialize stored proof'' (uncbor_proof C (coin_proof r)))
       (\<lambda>p. Ok (\<lparr>op_txid = t, op_vout = coin_vout r\<rparr>,
                \<lparr>coin_output = \<lparr>out_value = coin_value r, script_pubkey = coin_script r\<rparr>,
                 derivation = \<lparr>kd_account = coin_account r, kd_sub = coin_sub r, kd_kix = coin_kix r,
                               kd_tweak = tweak, kd_csv = coin_csv r\<rparr>\<rparr>, p))))"

definition read_coins ::
  "('p, 'k) crates \<Rightarrow> ('p, 'k, 'c, 'm, 'u) wallet_crates \<Rightarrow> 'm \<Rightarrow> db \<Rightarrow> ('c \<times> 'm) outcome" where
  "read_coins C W m d =
     obind (ofold (\<lambda>r cs. obind (coin_of_row C W r)
                      (\<lambda>(point, coin, p). Ok (add_confirmed W cs point coin p)))
              (coins_tbl d) (coins_new W))
       (\<lambda>cs. ofold (\<lambda>r (cs, m).
                obind (expect ''can not deserialize stored transaction'' (deserialize_tx C (txo_tx r)))
                  (\<lambda>t. Ok (coins_process_unconfirmed W cs m t)))
              (filter (\<lambda>r. txo_confirmed r = None) (txout_tbl d)) (cs, m))"

section \<open>Coins are read back as they were stored\<close>

text \<open>
  A wallet whose coins each have a proof, with the digests of 32 bytes; a tweak that is present
  is not empty, and hexadecimal text can be read back.
\<close>

definition coins_ok :: "('p, 'k, 'c, 'm, 'u) wallet_crates \<Rightarrow> 'c \<Rightarrow> bool" where
  "coins_ok W cs \<longleftrightarrow>
     (\<forall>(point, coin) \<in> set (confirmed_coins W cs).
        length (op_txid point) = DIGEST_LEN \<and> map_of (coin_proofs W cs) (op_txid point) \<noteq> None
        \<and> kd_tweak (derivation coin) \<noteq> Some [])"

definition hex_ok :: "('p, 'k, 'c, 'm, 'u) wallet_crates \<Rightarrow> bool" where
  "hex_ok W \<longleftrightarrow> (\<forall>b. hex_decode W (hex_encode W b) = Some b) \<and> hex_encode W [] = ''''"

definition proved_coin ::
  "('p, 'k, 'c, 'm, 'u) wallet_crates \<Rightarrow> 'c \<Rightarrow> out_point \<times> coin \<Rightarrow> out_point \<times> coin \<times> 'p" where
  "proved_coin W cs x = (fst x, snd x, the (map_of (coin_proofs W cs) (op_txid (fst x))))"

lemma coin_row_roundtrip:
  assumes "crates_ok C" and "hex_ok W" and "coins_ok W cs" and "x \<in> set (confirmed_coins W cs)"
  shows "\<exists>r. coin_row_of C W (coin_proofs W cs) x = Ok r \<and> coin_of_row C W r = Ok (proved_coin W cs x)"
proof -
  obtain point coin where x: "x = (point, coin)" by (cases x)
  with assms(3,4) obtain p where p: "map_of (coin_proofs W cs) (op_txid point) = Some p"
    and len: "length (op_txid point) = DIGEST_LEN" and tw: "kd_tweak (derivation coin) \<noteq> Some []"
    by (fastforce simp: coins_ok_def)
  have "hex_encode W b \<noteq> ''''" if "b \<noteq> []" for b
    using assms(2) that by (metis hex_ok_def option.inject)
  with p len tw x show ?thesis
    using crates_okD [OF assms(1)] assms(2)
    by (cases coin; cases "kd_tweak (derivation coin)")
      (auto simp: coin_row_of_def coin_of_row_def proved_coin_def hex_ok_def Let_def)
qed

lemma omap_fold_roundtrip:
  assumes "\<And>x. x \<in> set xs \<Longrightarrow> \<exists>r. f x = Ok r \<and> g r = Ok (h x)"
  shows "\<exists>rs. omap f xs = Ok rs \<and> ofold (\<lambda>r s. obind (g r) (\<lambda>y. Ok (k y s))) rs s = Ok (fold (\<lambda>x. k (h x)) xs s)"
  using assms
proof (induction xs arbitrary: s)
  case (Cons x xs)
  from Cons.prems obtain r where r: "f x = Ok r" "g r = Ok (h x)" by auto
  from Cons.IH [of "k (h x) s"] Cons.prems obtain rs where "omap f xs = Ok rs"
    "ofold (\<lambda>r s. obind (g r) (\<lambda>y. Ok (k y s))) rs (k (h x) s) = Ok (fold (\<lambda>x. k (h x)) xs (k (h x) s))"
    by auto
  with r show ?case by (intro exI [of _ "r # rs"]) simp
qed simp

text \<open>The transactions \<open>read_unconfirmed\<close> returns are those \<open>read_coins\<close> replays.\<close>

lemma unconfirmed_fold:
  assumes "read_unconfirmed C d = Ok us"
  shows "ofold (\<lambda>r (cs, m).
       obind (expect ''can not deserialize stored transaction'' (deserialize_tx C (txo_tx r)))
         (\<lambda>t. Ok (coins_process_unconfirmed W cs m t)))
     (filter (\<lambda>r. txo_confirmed r = None) (txout_tbl d)) s
   = Ok (fold (\<lambda>(t, _) (cs, m). coins_process_unconfirmed W cs m t) us s)"
  using assms unfolding read_unconfirmed_def unconfirmed_of_row_def
  by (rule omap_ofold) (auto split: option.splits prod.splits)

text \<open>
  C21. The coins survive a restart: reading the coins after storing them adds exactly the
  confirmed coins of the wallet, each with its value, script, derivation and proof, to an empty
  coin set and then replays the transactions that are still unconfirmed.
\<close>

theorem coins_roundtrip:
  assumes "crates_ok C" and "hex_ok W" and "coins_ok W cs"
    and "store_coins C W cs d = Ok d'" and "read_unconfirmed C d' = Ok us"
  shows "read_coins C W m d' =
    Ok (fold (\<lambda>(t, _) (c, m). coins_process_unconfirmed W c m t) us
          (fold (\<lambda>x c. case proved_coin W cs x of (point, coin, p) \<Rightarrow> add_confirmed W c point coin p)
             (confirmed_coins W cs) (coins_new W), m))"
proof -
  obtain rows where rows: "omap (coin_row_of C W (coin_proofs W cs)) (confirmed_coins W cs) = Ok rows"
    and readback: "ofold (\<lambda>r c. obind (coin_of_row C W r)
        (\<lambda>y. Ok (case y of (point, coin, p) \<Rightarrow> add_confirmed W c point coin p))) rows (coins_new W)
      = Ok (fold (\<lambda>x c. case proved_coin W cs x of (point, coin, p) \<Rightarrow> add_confirmed W c point coin p)
             (confirmed_coins W cs) (coins_new W))"
    using omap_fold_roundtrip [of "confirmed_coins W cs" "coin_row_of C W (coin_proofs W cs)"
        "coin_of_row C W" "proved_coin W cs" "\<lambda>y c. case y of (point, coin, p) \<Rightarrow> add_confirmed W c point coin p"
        "coins_new W"] coin_row_roundtrip [OF assms(1-3)] by blast
  have "coins_tbl d' = rows" using assms(4) rows by (auto simp: store_coins_def Let_def)
  moreover have "(\<lambda>(point, coin, p). Ok (add_confirmed W c point coin p))
      = (\<lambda>y. Ok (case y of (point, coin, p) \<Rightarrow> add_confirmed W c point coin p))" for c
    by auto
  ultimately show ?thesis
    using readback unconfirmed_fold [OF assms(5), of W] by (simp add: read_coins_def)
qed

text \<open>Accounts: the stored columns are read back.\<close>

lemma store_read_account:
  assumes "account_columns W m a = Some cols" and "store_account W m a d = Some d'"
  shows "read_account (fst a) (snd a) d' = Ok cols"
proof -
  obtain ty mp inst where c: "cols = (ty, mp, inst)" by (cases cols)
  let ?row = "\<lparr>acc_account = fst a, acc_sub = snd a, acc_address_type = ty, acc_master = mp,
           acc_instantiated = inst\<rparr>"
  from assms c show ?thesis
    using find_upsert [of "\<lambda>r. (acc_account r, acc_sub r)" ?row "account_tbl d"]
    by (cases a) (auto simp: store_account_def read_account_def)
qed

end
