(* ===== verification/Store.thy ===== *)
theory Store
  imports Wallet_Db
begin

text \<open>
  The content store, \<^verbatim>\<open>src/store.rs\<close>: the database with the cached lookup tables, sketch and
  key count that are exchanged with peers, and every handler of the store. The trunk is
  shared with the header download and passed as an argument. What a handler sends to the
  transaction sender is appended to \<open>sent\<close>.
\<close>

section \<open>State\<close>

definition MIN_SKETCH_SIZE :: nat where
  "MIN_SKETCH_SIZE = 20"

record ('c, 'm) store =
  sdb :: db
  storage_limit :: u64
  iblts :: "(u32 \<times> content_key iblt) list"
  smin_sketch :: "u64 list"
  sksequence :: "(u64 \<times> u64) list"
  n_keys :: u32
  swallet :: "('c, 'm) wallet"
  txout :: bool
  sent :: "transaction list"

definition store_new ::
  "('p, 'k) crates \<Rightarrow> db \<Rightarrow> u64 \<Rightarrow> ('c, 'm) wallet \<Rightarrow> ('c, 'm) store outcome" where
  "store_new C d limit w =
     obind (compute_content_sketch C MIN_SKETCH_SIZE d)
       (\<lambda>(m, k, n). Ok \<lparr>sdb = d, storage_limit = limit, iblts = [], smin_sketch = m, sksequence = k,
                         n_keys = n, swallet = w, txout = False, sent = []\<rparr>)"

definition set_tx_sender :: "('c, 'm) store \<Rightarrow> ('c, 'm) store" where
  "set_tx_sender s = s\<lparr>txout := True\<rparr>"

section \<open>Wallet front end\<close>

definition store_balance ::
  "('p, 'k, 'c, 'm, 'u) wallet_crates \<Rightarrow> trunk \<Rightarrow> ('c, 'm) store \<Rightarrow> u64 list" where
  "store_balance W T s =
     [wallet_balance W (swallet s), available_balance W (swallet s) (trunk_len T) (get_height T)]"

definition deposit_address ::
  "('p, 'k, 'c, 'm, 'u) wallet_crates \<Rightarrow> ('c, 'm) store \<Rightarrow> (bytes \<times> ('c, 'm) store) outcome" where
  "deposit_address W s =
     (if \<not> has_account W (master (swallet s)) (0, 0)
      then Panic (Expect_failed ''can not find 0/0 account'')
      else obind (expect ''can not generate receiver address in 0/0''
                    (next_key W (master (swallet s)) (0, 0)))
             (\<lambda>(a, m). Ok (a, s\<lparr>swallet := (swallet s)\<lparr>master := m\<rparr>\<rparr>)))"

definition read_prepared :: "('p, 'k) crates \<Rightarrow> hash \<Rightarrow> ('c, 'm) store \<Rightarrow> ad option" where
  "read_prepared C i s = read_publication C i (sdb s)"

definition list_prepared :: "('p, 'k) crates \<Rightarrow> ('c, 'm) store \<Rightarrow> hash list outcome" where
  "list_prepared C s = expect_ok ''can not list publications'' (list_publication C (sdb s))"

definition store_prepare ::
  "('p, 'k) crates \<Rightarrow> rstring \<Rightarrow> rstring \<Rightarrow> rstring \<Rightarrow> ('c, 'm) store \<Rightarrow> (hash \<times> ('c, 'm) store) outcome" where
  "store_prepare C cat abstr content s =
     obind (expect_ok ''can not store publication''
              (prepare_publication C (ad_new C cat abstr content) (sdb s)))
       (\<lambda>(i, d). Ok (i, s\<lparr>sdb := d\<rparr>))"

definition funding_script :: "('p, 'k) crates \<Rightarrow> 'k \<Rightarrow> u16 \<Rightarrow> bytes" where
  "funding_script C tweaked term =
     build_script C [Push_int (uint term), Op_csv, Op_drop, Push_slice (pk_to_bytes C tweaked), Op_checksig]"

text \<open>The address is used through its script only.\<close>

definition funding_address :: "('p, 'k) crates \<Rightarrow> 'k \<Rightarrow> u16 \<Rightarrow> bytes" where
  "funding_address C tweaked term = p2wsh_script C (funding_script C tweaked term)"

definition send_tx :: "transaction \<Rightarrow> ('c, 'm) store \<Rightarrow> ('c, 'm) store" where
  "send_tx t s = (if txout s then s\<lparr>sent := sent s @ [t]\<rparr> else s)"

definition store_fund ::
  "('p, 'k) crates \<Rightarrow> ('p, 'k, 'c, 'm, 'u) wallet_crates \<Rightarrow> (nat \<Rightarrow> u32) \<Rightarrow> nat \<Rightarrow> trunk \<Rightarrow> hash \<Rightarrow> u16 \<Rightarrow> u64
   \<Rightarrow> u64 \<Rightarrow> string \<Rightarrow> ('c, 'm) store \<Rightarrow> ((transaction \<times> 'k \<times> u64) outcome \<times> ('c, 'm) store) option" where
  "store_fund C W rnd fuel T ident term amount fee_per_vbyte passphrase s =
     map_option (\<lambda>(r, w).
       let s1 = s\<lparr>swallet := w\<rparr>
       in (case r of
             Ok (t, pk, fee) \<Rightarrow>
               (case store_account W (master w) (1, 0) (sdb s) of
                  None \<Rightarrow> (Panic Unwrap_failed, s1)
                | Some d \<Rightarrow>
                    (Ok (t, pk, fee),
                     send_tx t (s1\<lparr>sdb := store_txout C t (Some (pk, ident, term)) d\<rparr>)))
           | Err e \<Rightarrow> (Err e, s1)
           | Panic p \<Rightarrow> (Panic p, s1)))
       (wallet_fund W rnd fuel ident term passphrase fee_per_vbyte amount T
          (\<lambda>pk term. funding_script C pk (the term)) (swallet s))"

definition store_withdraw ::
  "('p, 'k) crates \<Rightarrow> ('p, 'k, 'c, 'm, 'u) wallet_crates \<Rightarrow> (nat \<Rightarrow> u32) \<Rightarrow> nat \<Rightarrow> trunk \<Rightarrow> string \<Rightarrow> bytes
   \<Rightarrow> u64 \<Rightarrow> u64 option \<Rightarrow> ('c, 'm) store \<Rightarrow> ((transaction \<times> u64) outcome \<times> ('c, 'm) store) option" where
  "store_withdraw C W rnd fuel T passphrase target fee_per_vbyte amount s =
     map_option (\<lambda>(r, w).
       let s1 = s\<lparr>swallet := w\<rparr>
       in (case r of
             Ok (t, fee) \<Rightarrow>
               (case store_account W (master w) (0, 1) (sdb s) of
                  None \<Rightarrow> (Panic Unwrap_failed, s1)
                | Some d \<Rightarrow> (Ok (t, fee), send_tx t (s1\<lparr>sdb := store_txout C t None d\<rparr>)))
           | Err e \<Rightarrow> (Err e, s1)
           | Panic p \<Rightarrow> (Panic p, s1)))
       (wallet_withdraw W rnd fuel passphrase target fee_per_vbyte amount T (swallet s))"

section \<open>Exchange with peers\<close>

definition get_nkeys :: "('c, 'm) store \<Rightarrow> u32" where
  "get_nkeys s = n_keys s"

definition get_sketch :: "('c, 'm) store \<Rightarrow> u64 list" where
  "get_sketch s = smin_sketch s"

definition store_get_tip :: "('p, 'k) crates \<Rightarrow> trunk \<Rightarrow> hash option" where
  "store_get_tip C T = map_option (header_hash C) (get_tip T)"

text \<open>The argument of \<^verbatim>\<open>or_insert\<close> is computed whether or not the size is cached.\<close>

definition get_iblt ::
  "('p, 'k) crates \<Rightarrow> u32 \<Rightarrow> ('c, 'm) store \<Rightarrow> (content_key iblt \<times> ('c, 'm) store) outcome" where
  "get_iblt C sz s =
     obind (compute_content_iblt C sz (sdb s))
       (\<lambda>t. case map_of (iblts s) sz of
              Some u \<Rightarrow> Ok (u, s)
            | None \<Rightarrow> Ok (t, s\<lparr>iblts := (sz, t) # iblts s\<rparr>))"

definition get_content ::
  "('p, 'k) crates \<Rightarrow> hash \<Rightarrow> ('c, 'm) store \<Rightarrow> ('p, 'k) content option outcome" where
  "get_content C dig s = read_content C dig (sdb s)"

section \<open>Adding content\<close>

definition insert_into_iblts ::
  "('p, 'k) crates \<Rightarrow> content_key \<Rightarrow> (u32 \<times> content_key iblt) list \<Rightarrow> (u32 \<times> content_key iblt) list outcome" where
  "insert_into_iblts C key ts =
     omap (\<lambda>(n, t). obind (iblt_insert (content_key_ops (hashing C)) t key) (\<lambda>t. Ok (n, t))) ts"

definition add_content ::
  "('p, 'k) crates \<Rightarrow> trunk \<Rightarrow> ('p, 'k) content \<Rightarrow> ('c, 'm) store \<Rightarrow> (bool \<times> ('c, 'm) store) outcome" where
  "add_content C T c s =
     (case get_height T (proof_block_hash C (funding c)) of
        None \<Rightarrow> Ok (False, s)
      | Some height \<Rightarrow>
          if height + ucast (content_term c) \<ge> trunk_len T then
            (case get_header T (proof_block_hash C (funding c)) of
               None \<Rightarrow> Ok (False, s)
             | Some hdr \<Rightarrow>
                 if merkle_root hdr = proof_merkle_root C (funding c) then
                   (let t = proof_transaction C (funding c) in
                    if tx_version t \<ge> 2 then
                      (let dig = ad_digest C (ad c) in
                       obind (unwrap (tweak_exp_add C (funder c) dig)) (\<lambda>tweaked.
                         let commitment = funding_address C tweaked (content_term c) in
                         (case find (\<lambda>out. script_pubkey out = commitment) (tx_output t) of
                            None \<Rightarrow> Ok (False, s)
                          | Some out \<Rightarrow>
                              obind (content_key_new dig) (\<lambda>key.
                              obind (insert_into_iblts C key (iblts s)) (\<lambda>ts.
                              obind (add_to_min_sketch (content_key_ops (hashing C)) (smin_sketch s) key
                                       (sksequence s)) (\<lambda>ms.
                              obind (store_content C height (header_hash C hdr) c (out_value out) (sdb s))
                                (\<lambda>(_, d). Ok (True, s\<lparr>iblts := ts, smin_sketch := ms,
                                                       n_keys := n_keys s + 1, sdb := d\<rparr>))))))))
                    else Ok (False, s))
                 else Ok (False, s))
          else Ok (False, s))"

section \<open>Removing content\<close>

text \<open>
  The loop the three removing handlers share: every cached table drops every removed key, and
  the sketch is computed anew if a table was touched.
\<close>

definition delete_from_iblts ::
  "('p, 'k) crates \<Rightarrow> content_key \<Rightarrow> (u32 \<times> content_key iblt) list \<Rightarrow> (u32 \<times> content_key iblt) list outcome" where
  "delete_from_iblts C key ts =
     omap (\<lambda>(n, t). obind (iblt_delete (content_key_ops (hashing C)) t key) (\<lambda>t. Ok (n, t))) ts"

definition drop_keys ::
  "('p, 'k) crates \<Rightarrow> content_key list \<Rightarrow> db \<Rightarrow> ('c, 'm) store \<Rightarrow> ('c, 'm) store outcome" where
  "drop_keys C keys d s =
     obind (ofold (\<lambda>key (ts, deleted_some).
               obind (delete_from_iblts C key ts) (\<lambda>ts'. Ok (ts', deleted_some \<or> ts' \<noteq> [])))
             keys (iblts s, False))
       (\<lambda>(ts, deleted_some).
          if deleted_some
          then obind (compute_content_sketch C MIN_SKETCH_SIZE d)
                 (\<lambda>(m, k, n). Ok (s\<lparr>sdb := d, iblts := ts, smin_sketch := m, sksequence := k, n_keys := n\<rparr>))
          else Ok (s\<lparr>sdb := d, iblts := ts\<rparr>))"

definition add_header ::
  "('p, 'k) crates \<Rightarrow> u32 \<Rightarrow> block_header \<Rightarrow> ('c, 'm) store \<Rightarrow> ('c, 'm) store outcome" where
  "add_header C height hdr s =
     obind (delete_expired C height (sdb s)) (\<lambda>(keys, d). drop_keys C keys d s)"

definition unwind_tip ::
  "('p, 'k) crates \<Rightarrow> ('p, 'k, 'c, 'm, 'u) wallet_crates \<Rightarrow> block_header \<Rightarrow> ('c, 'm) store
   \<Rightarrow> ('c, 'm) store outcome" where
  "unwind_tip C W hdr s =
     obind (delete_confirmed C (header_hash C hdr) (store_processed C (prev_blockhash hdr) (sdb s)))
       (\<lambda>(keys, d). obind (drop_keys C keys d s)
          (\<lambda>s. Ok (s\<lparr>swallet := wallet_unwind_tip W (header_hash C hdr) (swallet s)\<rparr>)))"

definition truncate_to_limit ::
  "('p, 'k) crates \<Rightarrow> ('c, 'm) store \<Rightarrow> ('c, 'm) store outcome" where
  "truncate_to_limit C s =
     obind (truncate_content C (storage_limit s) (sdb s)) (\<lambda>(keys, d). drop_keys C keys d s)"

section \<open>Connecting a block\<close>

text \<open>Our publications whose funding transaction is in the block, with its position.\<close>

definition newly_confirmed ::
  "('p, 'k) crates \<Rightarrow> block \<Rightarrow> db \<Rightarrow> (nat \<times> 'k \<times> hash \<times> ad option \<times> u16) list outcome" where
  "newly_confirmed C b d =
     obind (read_unconfirmed C d)
       (\<lambda>us. Ok (List.map_filter (\<lambda>(t, p).
            (case p of
               None \<Rightarrow> None
             | Some (pk, i, term) \<Rightarrow>
                 map_option (\<lambda>tix. (tix, pk, i, read_publication C i d, term))
                   (find (\<lambda>n. txid C (txdata b ! n) = txid C t) [0..<length (txdata b)]))) us))"

definition block_connected ::
  "('p, 'k) crates \<Rightarrow> ('p, 'k, 'c, 'm, 'u) wallet_crates \<Rightarrow> trunk \<Rightarrow> block \<Rightarrow> u32 \<Rightarrow> ('c, 'm) store
   \<Rightarrow> ('c, 'm) store outcome" where
  "block_connected C W T b height s =
     obind (newly_confirmed C b (sdb s)) (\<lambda>confirmed.
       let (changed, w) = wallet_process W b (swallet s) in
       obind (if changed then store_coins C W (coins w) (sdb s) else Ok (sdb s)) (\<lambda>d.
         ofold (\<lambda>(tix, pk, i, a, term) s.
             (case a of
                None \<Rightarrow> Ok s
              | Some a \<Rightarrow>
                  obind (add_content C T \<lparr>ad = a, funding = proof_new C b tix, funder = pk,
                                         content_term = term\<rparr> s) (\<lambda>(_, s). Ok s)))
           confirmed (s\<lparr>swallet := w, sdb := store_processed C (header_hash C (header b)) d\<rparr>)))"

section \<open>Listings for the API\<close>

definition store_list_categories :: "('c, 'm) store \<Rightarrow> rstring list" where
  "store_list_categories s = list_categories (sdb s)"

definition store_list_abstracts ::
  "rstring list \<Rightarrow> ('c, 'm) store \<Rightarrow> (string \<times> rstring \<times> rstring) list" where
  "store_list_abstracts cats s = list_abstracts cats (sdb s)"

record readable =
  rd_id :: string
  rd_cat :: rstring
  rd_abs :: rstring
  rd_text :: rstring
  rd_start :: u64
  rd_end :: u64
  rd_publisher :: string
  rd_height :: u32
  rd_term :: u16
  rd_length :: u32
  rd_weight :: u32

text \<open>\<^verbatim>\<open>retrieved.term * 600\<close> is a product of 16-bit integers, widened afterwards.\<close>

definition readable_new :: "trunk \<Rightarrow> retrieved_content \<Rightarrow> readable outcome" where
  "readable_new T r =
     obind (unwrap (get_header_for_height T (ret_height r))) (\<lambda>h.
       let start = ucast (hd_time h);
           finish = (case get_header_for_height T (ret_height r + ucast (ret_term r)) of
                       Some e \<Rightarrow> ucast (hd_time e)
                     | None \<Rightarrow> start + ucast (ret_term r * 600))
       in Ok \<lparr>rd_id = ret_id r, rd_cat = ret_cat r, rd_abs = ret_abs r, rd_text = ret_text r,
              rd_start = start, rd_end = finish, rd_publisher = ret_publisher r,
              rd_height = ret_height r, rd_term = ret_term r, rd_length = ret_length r,
              rd_weight = ret_weight r\<rparr>)"

definition read_contents ::
  "('p, 'k) crates \<Rightarrow> trunk \<Rightarrow> string list \<Rightarrow> ('c, 'm) store \<Rightarrow> readable list outcome" where
  "read_contents C T ids s = obind (retrieve_contents C ids (sdb s)) (omap (readable_new T))"

end
