(* ===== verification/Store_Cache.thy ===== *)
theory Store_Cache
  imports Store
begin

text \<open>
  The contract between the store and the database, and the invariant of the store: the cached
  tables, sketch and key count are those of the content the database holds.
\<close>

section \<open>Tables follow insertions and deletions\<close>

context iblt_key
begin

lemma insert_all_snoc:
  "iblt_insert_all K (ks @ [k]) t = obind (iblt_insert_all K ks t) (\<lambda>u. iblt_insert K u k)"
  unfolding iblt_insert_all_def ofold_append
  by (cases "ofold (\<lambda>key t. iblt_insert K t key) ks t") simp_all

lemma insert_all_then_insert:
  assumes "iblt_ok t" and "represents K t []" and "\<forall>x \<in> set ks. valid x" and "valid k"
    and "iblt_insert_all K ks t = Ok u" and "mset ks' = add_mset k (mset ks)"
  shows "\<exists>v. iblt_insert K u k = Ok v \<and> iblt_insert_all K ks' t = Ok v"
proof -
  have val: "\<forall>x \<in> set (ks @ [k]). valid x" using assms(3,4) by auto
  from insert_all_represents [OF assms(1,2) _ val] obtain v where
    v: "iblt_insert_all K (ks @ [k]) t = Ok v" by auto
  moreover have "iblt_insert_all K (ks @ [k]) t = iblt_insert_all K ks' t"
    by (rule insert_all_perm [OF assms(1,2) _ val]) (simp add: assms(6))
  ultimately have "iblt_insert_all K ks' t = Ok v" by simp
  with v assms(5) show ?thesis by (auto simp: insert_all_snoc)
qed

lemma insert_all_then_delete:
  assumes "iblt_ok t" and "represents K t []" and "\<forall>x \<in> set ks'. valid x"
    and "iblt_insert_all K ks' t = Ok u" and "mset ks' = add_mset k (mset ks)"
  shows "\<exists>v. iblt_delete K u k = Ok v \<and> iblt_insert_all K ks t = Ok v"
proof -
  have val: "\<forall>x \<in> set ks. valid x" "valid k"
    using assms(3) mset_eq_setD [of ks' "k # ks"] assms(5) by auto
  from insert_all_represents [OF assms(1,2) _ val(1)] obtain v where
    v: "iblt_insert_all K ks t = Ok v" "same_shape v t"
      "represents K v (rev (map (\<lambda>k. (k, 1)) ks))" by auto
  have ok: "iblt_ok v" using assms(1) same_shape_cong(3) [OF v(2)] by simp
  have "valid_entries valid (rev (map (\<lambda>k. (k, 1)) ks))"
    using val(1) by (auto simp: valid_entries_def)
  then have bv: "\<forall>b \<in> set (buckets v). valid (keysum b)"
    using v(3) by (auto simp: represents_def in_set_conv_nth intro!: valid_bsum valid_entries_at)
  have "iblt_insert_all K (ks @ [k]) t = iblt_insert_all K ks' t"
    by (rule insert_all_perm [OF assms(1,2)]) (use assms(5) val in auto)
  then have "u = toggle K k 1 v"
    using assms(4) v(1) by (simp add: insert_all_snoc iblt_insert_toggle [OF ok])
  then have "iblt_delete K u k = Ok v"
    using represents_toggle_inverse [OF ok bv val(2), of 1] ok by (simp add: iblt_delete_toggle)
  with v(1) show ?thesis by blast
qed

end

section \<open>The invariant\<close>

definition content_table :: "('p, 'k) crates \<Rightarrow> u32 \<Rightarrow> content_key list \<Rightarrow> content_key iblt outcome" where
  "content_table C n keys =
     obind (iblt_new (hashing C) (content_key_ops (hashing C)) n NH K0 K1)
       (iblt_insert_all (content_key_ops (hashing C)) keys)"

definition tables_for ::
  "('p, 'k) crates \<Rightarrow> content_key list \<Rightarrow> (u32 \<times> content_key iblt) list \<Rightarrow> bool" where
  "tables_for C keys ts \<longleftrightarrow> (\<forall>(n, t) \<in> set ts. n \<noteq> 0 \<and> content_table C n keys = Ok t)"

definition sketch_for ::
  "('p, 'k) crates \<Rightarrow> content_key list \<Rightarrow> ('c, 'm) store \<Rightarrow> bool" where
  "sketch_for C keys s \<longleftrightarrow>
     sksequence s = generate_ksequence (hashing C) MIN_SKETCH_SIZE K0 K1
     \<and> smin_sketch s = sketch_of (content_key_ops (hashing C)) (sksequence s) (set keys)
     \<and> n_keys s = of_nat (length keys)"

definition store_ok :: "('p, 'k) crates \<Rightarrow> ('c, 'm) store \<Rightarrow> bool" where
  "store_ok C s \<longleftrightarrow>
     db_ok C (sdb s) \<and> tables_for C (content_keys C (sdb s)) (iblts s)
     \<and> sketch_for C (content_keys C (sdb s)) s"

lemma fresh_table:
  assumes "n \<noteq> 0"
  obtains t where "iblt_new (hashing C) (content_key_ops (hashing C)) n NH K0 K1 = Ok t"
    and "iblt_ok t" and "represents (content_key_ops (hashing C)) t []"
    and "\<And>keys. content_table C n keys = iblt_insert_all (content_key_ops (hashing C)) keys t"
proof -
  have "NH \<le> K_MAX" by (simp add: NH_def K_MAX_def)
  then obtain t where t: "iblt_new (hashing C) (content_key_ops (hashing C)) n NH K0 K1 = Ok t"
    by (auto simp: iblt_new_def)
  with that iblt_new_ok [OF t assms] show ?thesis by (auto simp: content_table_def)
qed

lemma content_table_total:
  assumes "n \<noteq> 0" and "\<forall>k \<in> set keys. content_key_wf k"
  shows "\<exists>t. content_table C n keys = Ok t"
  using fresh_table [OF assms(1), of C] content_key.insert_all_represents [OF _ _ _ assms(2)]
  by (metis valid_entries_simps(1))

lemma content_table_perm:
  assumes "n \<noteq> 0" and "mset ks = mset ks'" and "\<forall>k \<in> set ks. content_key_wf k"
  shows "content_table C n ks = content_table C n ks'"
  using fresh_table [OF assms(1), of C] content_key.insert_all_perm [OF _ _ assms(2,3)] by metis

lemma content_table_insert:
  assumes "n \<noteq> 0" and "\<forall>k \<in> set ks. content_key_wf k" and "content_key_wf k"
    and "content_table C n ks = Ok t" and "mset ks' = add_mset k (mset ks)"
  shows "\<exists>u. iblt_insert (content_key_ops (hashing C)) t k = Ok u \<and> content_table C n ks' = Ok u"
  using fresh_table [OF assms(1), of C]
    content_key.insert_all_then_insert [OF _ _ assms(2,3) _ assms(5), of _ "hashing C"] assms(4) by metis

lemma content_table_delete:
  assumes "n \<noteq> 0" and "\<forall>k \<in> set ks'. content_key_wf k"
    and "content_table C n ks' = Ok t" and "mset ks' = add_mset k (mset ks)"
  shows "\<exists>u. iblt_delete (content_key_ops (hashing C)) t k = Ok u \<and> content_table C n ks = Ok u"
  using fresh_table [OF assms(1), of C]
    content_key.insert_all_then_delete [OF _ _ assms(2) _ assms(4), of _ "hashing C"] assms(3) by metis

text \<open>What the database computes is this table, and this sketch.\<close>

lemma compute_content_iblt_eq:
  assumes "crates_ok C" and "db_ok C d"
  shows "compute_content_iblt C n d = content_table C n (content_keys C d)"
proof -
  have rows: "\<forall>r \<in> set (content_tbl d). row_ok C r" using assms(2) by (simp add: db_ok_def)
  have "ofold (\<lambda>i t. obind (key_of_hex C i) (\<lambda>k. iblt_insert (content_key_ops (hashing C)) t k))
      (map row_id rs) t = iblt_insert_all (content_key_ops (hashing C)) (map (row_key C) rs) t"
    if "\<forall>r \<in> set rs. row_ok C r" for rs t
    using that
  proof (induction rs arbitrary: t)
    case (Cons r rs)
    then show ?case
      by (cases "iblt_insert (content_key_ops (hashing C)) t (row_key C r)")
        (simp_all add: key_of_hex_row [OF assms(1)] iblt_insert_all_def)
  qed (simp add: iblt_insert_all_def)
  with rows show ?thesis
    by (simp add: compute_content_iblt_def content_table_def content_keys_def)
qed

lemma compute_content_sketch_eq:
  assumes "crates_ok C" and "db_ok C d"
  shows "compute_content_sketch C n d =
    Ok (sketch_of (content_key_ops (hashing C)) (generate_ksequence (hashing C) n K0 K1)
          (set (content_keys C d)), generate_ksequence (hashing C) n K0 K1,
        of_nat (length (content_keys C d)))"
proof -
  have "\<forall>r \<in> set (content_tbl d). row_ok C r" using assms(2) by (simp add: db_ok_def)
  from omap_key_of_hex(2) [OF assms(1) this] show ?thesis
    by (simp add: compute_content_sketch_def content_keys_def min_sketch_eq)
qed

section \<open>Removing keys from every cached table\<close>

lemma delete_from_iblts_ok:
  assumes "tables_for C ks' ts" and "\<forall>k \<in> set ks'. content_key_wf k" and "mset ks' = add_mset k (mset ks)"
  shows "\<exists>ts'. delete_from_iblts C k ts = Ok ts' \<and> map fst ts' = map fst ts \<and> tables_for C ks ts'"
  using assms(1)
proof (induction ts)
  case (Cons x ts)
  obtain n t where x: "x = (n, t)" by (cases x)
  with Cons.prems have n: "n \<noteq> 0" "content_table C n ks' = Ok t" and ts: "tables_for C ks' ts"
    by (auto simp: tables_for_def)
  obtain u where "iblt_delete (content_key_ops (hashing C)) t k = Ok u" "content_table C n ks = Ok u"
    using content_table_delete [OF n(1) assms(2) n(2) assms(3)] by blast
  moreover obtain ts' where "delete_from_iblts C k ts = Ok ts'" "map fst ts' = map fst ts"
    "tables_for C ks ts'" using Cons.IH [OF ts] by blast
  ultimately show ?case
    using n(1) by (intro exI [of _ "(n, u) # ts'"]) (simp add: x delete_from_iblts_def tables_for_def)
qed (simp add: delete_from_iblts_def tables_for_def)

lemma insert_into_iblts_ok:
  assumes "tables_for C ks ts" and "\<forall>k \<in> set ks. content_key_wf k" and "content_key_wf k"
    and "mset ks' = add_mset k (mset ks)"
  shows "\<exists>ts'. insert_into_iblts C k ts = Ok ts' \<and> map fst ts' = map fst ts \<and> tables_for C ks' ts'"
  using assms(1)
proof (induction ts)
  case (Cons x ts)
  obtain n t where x: "x = (n, t)" by (cases x)
  with Cons.prems have n: "n \<noteq> 0" "content_table C n ks = Ok t" and ts: "tables_for C ks ts"
    by (auto simp: tables_for_def)
  obtain u where "iblt_insert (content_key_ops (hashing C)) t k = Ok u" "content_table C n ks' = Ok u"
    using content_table_insert [OF n(1) assms(2,3) n(2) assms(4)] by blast
  moreover obtain ts' where "insert_into_iblts C k ts = Ok ts'" "map fst ts' = map fst ts"
    "tables_for C ks' ts'" using Cons.IH [OF ts] by blast
  ultimately show ?case
    using n(1) by (intro exI [of _ "(n, u) # ts'"]) (simp add: x insert_into_iblts_def tables_for_def)
qed (simp add: insert_into_iblts_def tables_for_def)

lemma tables_for_perm:
  assumes "tables_for C ks ts" and "mset ks = mset ks'" and "\<forall>k \<in> set ks. content_key_wf k"
  shows "tables_for C ks' ts"
  unfolding tables_for_def
proof (clarify)
  fix n t assume "(n, t) \<in> set ts"
  then have "n \<noteq> 0" "content_table C n ks = Ok t" using assms(1) by (auto simp: tables_for_def)
  with content_table_perm [OF _ assms(2,3), of n C] show "n \<noteq> 0 \<and> content_table C n ks' = Ok t" by simp
qed

lemma drop_loop:
  assumes "tables_for C ks' ts" and "\<forall>k \<in> set ks'. content_key_wf k" and "mset ks' = mset keys + mset ks"
  shows "\<exists>ts'. ofold (\<lambda>key (ts, deleted_some).
        obind (delete_from_iblts C key ts) (\<lambda>ts'. Ok (ts', deleted_some \<or> ts' \<noteq> []))) keys (ts, b)
      = Ok (ts', b \<or> keys \<noteq> [] \<and> ts \<noteq> []) \<and> map fst ts' = map fst ts \<and> tables_for C ks ts'"
  using assms
proof (induction keys arbitrary: ks' ts b)
  case Nil
  then show ?case using tables_for_perm [of C ks' ts ks] by simp
next
  case (Cons k keys)
  have wf: "\<forall>x \<in> set (keys @ ks). content_key_wf x"
    using Cons.prems(2) mset_eq_setD [of ks' "k # keys @ ks"] Cons.prems(3) by simp
  obtain ts1 where ts1: "delete_from_iblts C k ts = Ok ts1" "map fst ts1 = map fst ts"
    "tables_for C (keys @ ks) ts1"
    using delete_from_iblts_ok [of C ks' ts k "keys @ ks"] Cons.prems by auto
  obtain ts' where "ofold (\<lambda>key (ts, deleted_some).
        obind (delete_from_iblts C key ts) (\<lambda>ts'. Ok (ts', deleted_some \<or> ts' \<noteq> []))) keys (ts1, b \<or> ts1 \<noteq> [])
      = Ok (ts', (b \<or> ts1 \<noteq> []) \<or> keys \<noteq> [] \<and> ts1 \<noteq> [])" "map fst ts' = map fst ts1"
    "tables_for C ks ts'"
    using Cons.IH [OF ts1(3) wf, of "b \<or> ts1 \<noteq> []"] by auto
  moreover have "ts1 \<noteq> [] \<longleftrightarrow> ts \<noteq> []" using ts1(2) by auto
  ultimately show ?case using ts1 by (intro exI [of _ ts']) auto
qed

text \<open>
  The effect of the shared loop: the tables follow, and the sketch and the count follow if a
  table was cached or nothing was removed.
\<close>

lemma drop_keys_ok:
  assumes "crates_ok C" and "store_ok C s" and "db_ok C d"
    and "mset (content_keys C (sdb s)) = mset keys + mset (content_keys C d)"
  shows "\<exists>s'. drop_keys C keys d s = Ok s' \<and> sdb s' = d \<and> map fst (iblts s') = map fst (iblts s)
    \<and> tables_for C (content_keys C d) (iblts s') \<and> swallet s' = swallet s
    \<and> (if keys \<noteq> [] \<and> iblts s \<noteq> [] then sketch_for C (content_keys C d) s'
       else smin_sketch s' = smin_sketch s \<and> sksequence s' = sksequence s \<and> n_keys s' = n_keys s)"
proof -
  have s: "db_ok C (sdb s)" "tables_for C (content_keys C (sdb s)) (iblts s)"
    using assms(2) by (auto simp: store_ok_def)
  have "\<forall>k \<in> set (content_keys C (sdb s)). content_key_wf k"
    using content_keys_wf [OF assms(1) s(1)] by blast
  from drop_loop [OF s(2) this assms(4), of False] obtain ts' where
    "ofold (\<lambda>key (ts, deleted_some).
        obind (delete_from_iblts C key ts) (\<lambda>ts'. Ok (ts', deleted_some \<or> ts' \<noteq> []))) keys (iblts s, False)
      = Ok (ts', keys \<noteq> [] \<and> iblts s \<noteq> [])" "map fst ts' = map fst (iblts s)"
    "tables_for C (content_keys C d) ts'" by auto
  then show ?thesis
    by (auto simp: drop_keys_def compute_content_sketch_eq [OF assms(1,3)] sketch_for_def)
qed

section \<open>The contract of a removing operation\<close>

text \<open>
  What the store relies on of an operation of the database that removes content: it
  succeeds, keeps the invariant, and returns exactly the keys that are gone. \<open>pre\<close> is what
  the operation needs beyond the invariant.
\<close>

locale content_deletion =
  fixes C :: "('p, 'k) crates"
    and delete_op :: "db \<Rightarrow> (content_key list \<times> db) outcome" and pre :: "db \<Rightarrow> bool"
  assumes deletes: "crates_ok C \<Longrightarrow> db_ok C d \<Longrightarrow> pre d \<Longrightarrow>
      \<exists>keys d'. delete_op d = Ok (keys, d') \<and> db_ok C d'
        \<and> mset (content_keys C d) = mset keys + mset (content_keys C d')"
begin

text \<open>A handler that runs the operation and the shared loop keeps the store consistent.\<close>

lemma handler_keeps:
  assumes "crates_ok C" and "store_ok C s" and "pre (sdb s)" and "iblts s \<noteq> []"
  shows "\<exists>keys d s'. delete_op (sdb s) = Ok (keys, d) \<and> drop_keys C keys d s = Ok s' \<and> sdb s' = d
    \<and> store_ok C s' \<and> swallet s' = swallet s \<and> map fst (iblts s') = map fst (iblts s)"
proof -
  have "db_ok C (sdb s)" using assms(2) by (simp add: store_ok_def)
  from deletes [OF assms(1) this assms(3)] obtain keys d where d: "delete_op (sdb s) = Ok (keys, d)"
    "db_ok C d" "mset (content_keys C (sdb s)) = mset keys + mset (content_keys C d)" by blast
  from drop_keys_ok [OF assms(1,2) d(2,3)] obtain s' where s': "drop_keys C keys d s = Ok s'" "sdb s' = d"
    "map fst (iblts s') = map fst (iblts s)" "tables_for C (content_keys C d) (iblts s')"
    "swallet s' = swallet s"
    "if keys \<noteq> [] \<and> iblts s \<noteq> [] then sketch_for C (content_keys C d) s'
     else smin_sketch s' = smin_sketch s \<and> sksequence s' = sksequence s \<and> n_keys s' = n_keys s"
    by blast
  have "sketch_for C (content_keys C d) s'"
  proof (cases "keys = []")
    case True
    then have "mset (content_keys C (sdb s)) = mset (content_keys C d)" using d(3) by simp
    then have "set (content_keys C (sdb s)) = set (content_keys C d)"
      "length (content_keys C (sdb s)) = length (content_keys C d)"
      by (rule mset_eq_setD, rule mset_eq_length)
    with True s'(6) assms(2) show ?thesis by (simp add: store_ok_def sketch_for_def)
  qed (use s'(6) assms(4) in simp)
  with d s' show ?thesis by (auto simp: store_ok_def)
qed

text \<open>Without a cached table the sketch and the count stay as they were, whatever was removed.\<close>

lemma handler_stale:
  assumes "crates_ok C" and "store_ok C s" and "pre (sdb s)" and "iblts s = []"
  shows "\<exists>keys d s'. delete_op (sdb s) = Ok (keys, d) \<and> drop_keys C keys d s = Ok s' \<and> sdb s' = d
    \<and> length (content_keys C d) + length keys = length (content_keys C (sdb s))
    \<and> n_keys s' = n_keys s \<and> smin_sketch s' = smin_sketch s"
proof -
  have "db_ok C (sdb s)" using assms(2) by (simp add: store_ok_def)
  from deletes [OF assms(1) this assms(3)] obtain keys d where d: "delete_op (sdb s) = Ok (keys, d)"
    "db_ok C d" "mset (content_keys C (sdb s)) = mset keys + mset (content_keys C d)" by blast
  from arg_cong [OF d(3), of size] have "length (content_keys C d) + length keys = length (content_keys C (sdb s))"
    by simp
  with drop_keys_ok [OF assms(1,2) d(2,3)] assms(4) d(1) show ?thesis by auto
qed

end

interpretation expired: content_deletion C "delete_expired C height" "\<lambda>_. True" for C height
proof
  fix d assume *: "crates_ok C" "db_ok C d"
  show "\<exists>keys d'. delete_expired C height d = Ok (keys, d') \<and> db_ok C d'
      \<and> mset (content_keys C d) = mset keys + mset (content_keys C d')"
    by (intro exI conjI, rule delete_expired_eq [OF *], rule db_ok_filter [OF *(2)],
        rule mset_content_keys_partition)
qed

interpretation unwound: content_deletion C
  "\<lambda>d. delete_confirmed C b (store_processed C p d)" "\<lambda>_. True" for C b p
proof
  fix d assume *: "crates_ok C" "db_ok C d"
  let ?d = "store_processed C p d"
  have d: "db_ok C ?d" "content_keys C ?d = content_keys C d"
    using *(2) by (simp_all add: db_ok_def content_keys_def store_processed_def)
  show "\<exists>keys d'. delete_confirmed C b ?d = Ok (keys, d') \<and> db_ok C d'
      \<and> mset (content_keys C d) = mset keys + mset (content_keys C d')"
    by (intro exI conjI, rule delete_confirmed_eq [OF *(1) d(1)], rule db_ok_filter [OF d(1)],
        unfold d(2) [symmetric], rule mset_content_keys_partition)
qed

interpretation truncated: content_deletion C "truncate_content C limit"
  "\<lambda>d. total_length (content_tbl d) < 2 ^ 64" for C limit
proof
  fix d assume *: "crates_ok C" "db_ok C d" "total_length (content_tbl d) < 2 ^ 64"
  let ?P = "\<lambda>r. r \<in> set (excess_rows limit d)"
  have "mset (excess_rows limit d) = mset (filter ?P (content_tbl d))"
    by (rule mset_excess_rows [OF *(2)])
  then have "mset (map (row_key C) (excess_rows limit d)) = mset (map (row_key C) (filter ?P (content_tbl d)))"
    by simp
  with mset_content_keys_partition [of C d ?P] show "\<exists>keys d'. truncate_content C limit d = Ok (keys, d')
      \<and> db_ok C d' \<and> mset (content_keys C d) = mset keys + mset (content_keys C d')"
    using truncate_content_eq [OF *, of limit] db_ok_filter [OF *(2)] by auto
qed

end
