(* ===== verification/Store_Props.thy ===== *)
theory Store_Props
  imports Store_Cache
begin

text \<open>
  Properties of the content store: when content is admitted, that the caches agree with the
  database after every handler, where they do not, and the reachable states.
\<close>

section \<open>Removing handlers\<close>

text \<open>
  C14. A new header removes exactly the content that expired with it and leaves tables, sketch
  and count those of what remains, when a table is cached.
\<close>

theorem add_header_keeps:
  assumes "crates_ok C" and "store_ok C s" and "iblts s \<noteq> []"
  shows "\<exists>s'. add_header C height hdr s = Ok s' \<and> store_ok C s'
    \<and> set (content_tbl (sdb s')) =
        {r \<in> set (content_tbl (sdb s)). unat height < unat (row_height r) + unat (row_term r)}"
proof -
  have d: "db_ok C (sdb s)" using assms(2) by (simp add: store_ok_def)
  obtain keys d s' where e: "delete_expired C height (sdb s) = Ok (keys, d)"
    "drop_keys C keys d s = Ok s'" "sdb s' = d" "store_ok C s'"
    using expired.handler_keeps [OF assms(1,2) _ assms(3), of height] by auto
  with delete_expired_eq [OF assms(1) d, of height] show ?thesis
    by (auto simp: add_header_def not_le)
qed

text \<open>
  C15. Unwinding a block removes exactly the content confirmed in it, records the previous
  block as the processed one, unwinds the wallet, and leaves the caches right, when a table
  is cached.
\<close>

theorem unwind_tip_keeps:
  assumes "crates_ok C" and "store_ok C s" and "iblts s \<noteq> []"
  shows "\<exists>s'. unwind_tip C W hdr s = Ok s' \<and> store_ok C s'
    \<and> set (content_tbl (sdb s')) =
        {r \<in> set (content_tbl (sdb s)). row_block_id r \<noteq> sha256d_to_hex C (header_hash C hdr)}
    \<and> processed_tbl (sdb s') = Some (sha256d_to_hex C (prev_blockhash hdr))
    \<and> swallet s' = wallet_unwind_tip W (header_hash C hdr) (swallet s)"
proof -
  let ?d = "store_processed C (prev_blockhash hdr) (sdb s)"
  have d: "db_ok C ?d" using assms(2) by (simp add: store_ok_def db_ok_def store_processed_def)
  obtain keys d s' where e: "delete_confirmed C (header_hash C hdr) ?d = Ok (keys, d)"
    "drop_keys C keys d s = Ok s'" "sdb s' = d" "store_ok C s'" "swallet s' = swallet s"
    using unwound.handler_keeps [OF assms(1,2) _ assms(3), of "header_hash C hdr" "prev_blockhash hdr"] by auto
  have "store_ok C (s'\<lparr>swallet := w\<rparr>)" for w
    using e(4) by (simp add: store_ok_def sketch_for_def)
  with e delete_confirmed_eq [OF assms(1) d, of "header_hash C hdr"] show ?thesis
    by (auto simp: unwind_tip_def store_processed_def)
qed

text \<open>
  Truncation brings the stored content within the limit and leaves the caches right, when
  a table is cached.
\<close>

lemma truncate_to_limit_keeps:
  assumes "crates_ok C" and "store_ok C s" and "iblts s \<noteq> []"
    and "total_length (content_tbl (sdb s)) < 2 ^ 64"
  shows "\<exists>s'. truncate_to_limit C s = Ok s' \<and> store_ok C s'
    \<and> total_length (content_tbl (sdb s')) \<le> unat (storage_limit s)
    \<and> set (content_tbl (sdb s')) \<subseteq> set (content_tbl (sdb s))"
proof -
  have d: "db_ok C (sdb s)" using assms(2) by (simp add: store_ok_def)
  obtain keys d s' where e: "truncate_content C (storage_limit s) (sdb s) = Ok (keys, d)"
    "drop_keys C keys d s = Ok s'" "sdb s' = d" "store_ok C s'"
    using truncated.handler_keeps [OF assms(1,2,4,3), of "storage_limit s"] by auto
  moreover have "total_length (content_tbl d) \<le> unat (storage_limit s)"
    using e(1) truncate_content_eq [OF assms(1) d assms(4), of "storage_limit s"]
      total_length_mset [OF kept_rows [OF d, of "storage_limit s"]]
      fitting_total [of 0 "unat (storage_limit s)"] by auto
  moreover have "set (content_tbl d) \<subseteq> set (content_tbl (sdb s))"
    using e(1) truncate_content_eq [OF assms(1) d assms(4), of "storage_limit s"] by auto
  ultimately show ?thesis by (auto simp: truncate_to_limit_def)
qed

text \<open>
  The flag that triggers the new sketch is set inside the loop over the cached tables:
  in a store that has not served a table yet, content that expires leaves the old sketch and
  the old key count in place, and the next poll announces them.
\<close>

lemma add_header_stale:
  assumes "crates_ok C" and "store_ok C s" and "iblts s = []"
    and "r \<in> set (content_tbl (sdb s))" and "unat (row_height r) + unat (row_term r) \<le> unat height"
    and "length (content_tbl (sdb s)) < 2 ^ 32"
  shows "\<exists>s'. add_header C height hdr s = Ok s' \<and> get_sketch s' = get_sketch s
    \<and> length (content_tbl (sdb s')) < unat (get_nkeys s')"
proof -
  have d: "db_ok C (sdb s)" and n: "n_keys s = of_nat (length (content_keys C (sdb s)))"
    using assms(2) by (simp_all add: store_ok_def sketch_for_def)
  obtain keys d s' where e: "delete_expired C height (sdb s) = Ok (keys, d)"
    "drop_keys C keys d s = Ok s'" "sdb s' = d"
    "length (content_keys C d) + length keys = length (content_keys C (sdb s))"
    "n_keys s' = n_keys s" "smin_sketch s' = smin_sketch s"
    using expired.handler_stale [OF assms(1,2) _ assms(3), of height] by auto
  have "keys \<noteq> []"
    using e(1) delete_expired_eq [OF assms(1) d, of height] assms(4,5) by (auto simp: filter_empty_conv)
  then have "length (content_keys C d) < length (content_keys C (sdb s))" using e(4) by (cases keys) auto
  with e n assms(6) show ?thesis
    by (auto simp: add_header_def get_nkeys_def get_sketch_def content_keys_def unat_of_nat)
qed

section \<open>Admission\<close>

text \<open>
  The claim a piece of content makes: its block is on the trunk at \<open>height\<close>, the term has not
  run out, the proof leads to the block's Merkle root, and an output of the transaction, of
  version 2 or later, pays to the script that commits the funder to this ad for this term.
\<close>

definition funded ::
  "('p, 'k) crates \<Rightarrow> trunk \<Rightarrow> ('p, 'k) content \<Rightarrow> u32 \<Rightarrow> block_header \<Rightarrow> tx_out \<Rightarrow> bool" where
  "funded C T c height hdr out \<longleftrightarrow>
     get_height T (proof_block_hash C (funding c)) = Some height
     \<and> trunk_len T \<le> height + ucast (content_term c)
     \<and> get_header T (proof_block_hash C (funding c)) = Some hdr
     \<and> merkle_root hdr = proof_merkle_root C (funding c)
     \<and> 2 \<le> tx_version (proof_transaction C (funding c))
     \<and> (\<exists>k. tweak_exp_add C (funder c) (ad_digest C (ad c)) = Some k
          \<and> find (\<lambda>x. script_pubkey x = funding_address C k (content_term c))
              (tx_output (proof_transaction C (funding c))) = Some out)"

text \<open>
  C12. Content that makes no such claim is refused and nothing changes; the only other way
  out is a panic when the digest is not a valid tweak.
\<close>

theorem add_content_rejects:
  assumes "\<nexists>height hdr out. funded C T c height hdr out"
    and "tweak_exp_add C (funder c) (ad_digest C (ad c)) \<noteq> None"
  shows "add_content C T c s = Ok (False, s)"
  using assms by (auto simp: add_content_def funded_def Let_def not_le split: option.splits)

text \<open>The effect of admission on a consistent store.\<close>

lemma add_content_funded:
  assumes "crates_ok C" and "store_ok C s" and "funded C T c height hdr out"
    and "ad_fits C (ad c)" and "text_as_string (texts C) (ad_content (ad c)) = Ok (Inr str)"
  shows "\<exists>ts. insert_into_iblts C \<lparr>digest = ad_digest C (ad c)\<rparr> (iblts s) = Ok ts
    \<and> map fst ts = map fst (iblts s)
    \<and> (\<forall>ks. mset ks = add_mset \<lparr>digest = ad_digest C (ad c)\<rparr> (mset (content_keys C (sdb s)))
          \<longrightarrow> tables_for C ks ts)
    \<and> add_content C T c s = Ok (True, s\<lparr>iblts := ts,
        smin_sketch := sketch_of (content_key_ops (hashing C)) (sksequence s)
          (insert \<lparr>digest = ad_digest C (ad c)\<rparr> (set (content_keys C (sdb s)))),
        n_keys := n_keys s + 1,
        sdb := (sdb s)\<lparr>content_tbl := upsert row_id
          (content_row_of C height (header_hash C hdr) c (out_value out) str) (content_tbl (sdb s))\<rparr>\<rparr>)"
proof -
  let ?k = "\<lparr>digest = ad_digest C (ad c)\<rparr>" and ?ks = "content_keys C (sdb s)"
  have s: "db_ok C (sdb s)" "tables_for C ?ks (iblts s)"
    "smin_sketch s = sketch_of (content_key_ops (hashing C)) (sksequence s) (set ?ks)"
    using assms(2) by (auto simp: store_ok_def sketch_for_def)
  have wf: "\<forall>k \<in> set ?ks. content_key_wf k" "content_key_wf ?k"
    using content_keys_wf [OF assms(1) s(1)] length_ad_digest [OF assms(1), of "ad c"]
    by (auto simp: content_key_wf_def)
  obtain ts where ts: "insert_into_iblts C ?k (iblts s) = Ok ts" "map fst ts = map fst (iblts s)"
    "tables_for C (?k # ?ks) ts"
    using insert_into_iblts_ok [OF s(2) wf, of "?k # ?ks"] by auto
  have "tables_for C ks ts" if "mset ks = add_mset ?k (mset ?ks)" for ks
    using tables_for_perm [OF ts(3), of ks] that wf by auto
  moreover have "add_to_min_sketch (content_key_ops (hashing C)) (smin_sketch s) ?k (sksequence s)
      = Ok (sketch_of (content_key_ops (hashing C)) (sksequence s) (insert ?k (set ?ks)))"
    unfolding s(3) by (rule add_to_sketch_of) simp
  moreover have "content_key_new (ad_digest C (ad c)) = Ok ?k"
    using length_ad_digest [OF assms(1), of "ad c"] by (simp add: content_key_new_def)
  ultimately show ?thesis
    using ts assms(3) store_content_eq [OF assms(1,4,5)]
    by (auto simp: add_content_def funded_def Let_def)
qed

lemma upsert_new: "key r \<notin> key ` set tbl \<Longrightarrow> upsert key r tbl = tbl @ [r]"
  by (auto simp: upsert_def filter_id_conv image_iff)

lemma content_row_of_new:
  assumes "crates_ok C" and "db_ok C d" and "\<lparr>digest = ad_digest C (ad c)\<rparr> \<notin> set (content_keys C d)"
  shows "row_id (content_row_of C height b c amount str) \<notin> row_id ` set (content_tbl d)"
proof
  let ?row = "content_row_of C height b c amount str"
  assume "row_id ?row \<in> row_id ` set (content_tbl d)"
  then obtain q where q: "q \<in> set (content_tbl d)" "row_id q = row_id ?row" by auto
  then have "row_key C q = row_key C ?row"
    using assms(2) row_key_eq_iff [of C q ?row] row_ok_content_row_of(1) [OF assms(1)]
    by (auto simp: db_ok_def)
  with q(1) assms(3) row_ok_content_row_of(2) [OF assms(1)] show False
    by (auto simp: content_keys_def intro: rev_image_eqI)
qed

lemma admit_new:
  assumes "crates_ok C" and "store_ok C s" and "funded C T c height hdr out"
    and "ad_fits C (ad c)" and "text_as_string (texts C) (ad_content (ad c)) = Ok (Inr str)"
    and "\<lparr>digest = ad_digest C (ad c)\<rparr> \<notin> set (content_keys C (sdb s))"
  shows "\<exists>s'. add_content C T c s = Ok (True, s') \<and> store_ok C s'
    \<and> content_tbl (sdb s') = content_tbl (sdb s)
        @ [content_row_of C height (header_hash C hdr) c (out_value out) str]"
proof -
  let ?row = "content_row_of C height (header_hash C hdr) c (out_value out) str"
  let ?k = "\<lparr>digest = ad_digest C (ad c)\<rparr>"
  let ?d = "(sdb s)\<lparr>content_tbl := upsert row_id ?row (content_tbl (sdb s))\<rparr>"
  have d: "db_ok C (sdb s)" using assms(2) by (simp add: store_ok_def)
  have tbl: "upsert row_id ?row (content_tbl (sdb s)) = content_tbl (sdb s) @ [?row]"
    by (rule upsert_new [OF content_row_of_new [OF assms(1) d assms(6)]])
  then have keys: "content_keys C ?d = content_keys C (sdb s) @ [?k]"
    using row_ok_content_row_of(2) [OF assms(1)] by (simp add: content_keys_def)
  have "db_ok C ?d" by (rule db_ok_upsert [OF d row_ok_content_row_of(1) [OF assms(1)]])
  moreover obtain ts where "tables_for C (content_keys C ?d) ts" "add_content C T c s = Ok (True, s\<lparr>iblts := ts,
        smin_sketch := sketch_of (content_key_ops (hashing C)) (sksequence s)
          (insert ?k (set (content_keys C (sdb s)))), n_keys := n_keys s + 1, sdb := ?d\<rparr>)"
  proof -
    have "mset (content_keys C ?d) = add_mset ?k (mset (content_keys C (sdb s)))" by (simp add: keys)
    with add_content_funded [OF assms(1-5)] that show thesis by blast
  qed
  moreover have "sketch_for C (content_keys C (sdb s)) s" using assms(2) by (simp add: store_ok_def)
  ultimately show ?thesis
    using keys tbl by (simp add: store_ok_def sketch_for_def)
qed

text \<open>
  C11. Funded content that the store does not hold yet, and whose text can be decoded, is admitted: its row is added with the
  paid amount per byte as its weight, and tables, sketch and count follow.
\<close>

theorem add_content_new:
  assumes "crates_ok C" and "store_ok C s" and "funded C T c height hdr out"
    and "ad_fits C (ad c)" and "text_as_string (texts C) (ad_content (ad c)) = Ok (Inr str)"
    and "\<lparr>digest = ad_digest C (ad c)\<rparr> \<notin> set (content_keys C (sdb s))"
  shows "\<exists>s'. add_content C T c s = Ok (True, s') \<and> store_ok C s'
    \<and> content_tbl (sdb s') = content_tbl (sdb s)
        @ [content_row_of C height (header_hash C hdr) c (out_value out) str]"
  using assms by (rule admit_new)

section \<open>Serving tables\<close>

text \<open>
  The table served to a peer is the table of the stored content, computed anew or taken from
  the cache.
\<close>

lemma get_iblt_table:
  assumes "crates_ok C" and "store_ok C s" and "n \<noteq> 0"
  shows "\<exists>t s'. get_iblt C n s = Ok (t, s') \<and> content_table C n (content_keys C (sdb s)) = Ok t
    \<and> store_ok C s' \<and> sdb s' = sdb s \<and> iblts s' \<noteq> []"
proof -
  have d: "db_ok C (sdb s)" using assms(2) by (simp add: store_ok_def)
  have "\<forall>k \<in> set (content_keys C (sdb s)). content_key_wf k"
    using content_keys_wf [OF assms(1) d] by blast
  then obtain t where t: "content_table C n (content_keys C (sdb s)) = Ok t"
    using content_table_total [OF assms(3)] by blast
  show ?thesis
  proof (cases "map_of (iblts s) n")
    case None
    with t assms(2,3) show ?thesis
      by (auto simp: get_iblt_def compute_content_iblt_eq [OF assms(1) d] store_ok_def tables_for_def
          sketch_for_def)
  next
    case (Some u)
    then have "(n, u) \<in> set (iblts s)" by (rule map_of_SomeD)
    with t assms(2) have "u = t" by (auto simp: store_ok_def tables_for_def)
    with Some t assms(2) show ?thesis
      by (auto simp: get_iblt_def compute_content_iblt_eq [OF assms(1) d])
  qed
qed

lemma iblt_insert_empty:
  assumes "buckets t = []" and "iblt_ksequence t \<noteq> []"
  shows "iblt_insert K t key = Panic Rem_by_zero"
  using key_buckets_degenerate [OF assms(2), of K key] assms(1) by (simp add: iblt_insert_def Let_def)

lemma empty_table:
  "iblt_new H K 0 NH k0 k1 = Ok \<lparr>buckets = [], iblt_k0 = k0, iblt_k1 = k1, iblt_k = NH,
     iblt_ksequence = generate_ksequence H NH k0 k1\<rparr>"
  by (simp add: iblt_new_def NH_def K_MAX_def)

text \<open>
  The size of a requested table is the length of the table a peer sent. A table of size
  zero panics at once if the store holds content; if it holds none, the table is cached,
  and the next content that is admitted panics.
\<close>

lemma zero_size_table:
  assumes "crates_ok C" and "store_ok C s"
  shows "(content_tbl (sdb s) \<noteq> [] \<longrightarrow> get_iblt C 0 s = Panic Rem_by_zero)
    \<and> (content_tbl (sdb s) = [] \<and> map_of (iblts s) 0 = None \<longrightarrow>
        (\<exists>t s'. get_iblt C 0 s = Ok (t, s')
          \<and> (\<forall>T c height hdr out. funded C T c height hdr out
               \<longrightarrow> add_content C T c s' = Panic Rem_by_zero)))"
proof -
  let ?t = "\<lparr>buckets = [], iblt_k0 = K0, iblt_k1 = K1, iblt_k = NH,
     iblt_ksequence = generate_ksequence (hashing C) NH K0 K1\<rparr>"
  have ins: "iblt_insert (content_key_ops (hashing C)) ?t k = Panic Rem_by_zero" for k
    by (rule iblt_insert_empty) (simp_all add: NH_def)
  have d: "db_ok C (sdb s)" using assms(2) by (simp add: store_ok_def)
  have comp: "compute_content_iblt C 0 (sdb s)
      = iblt_insert_all (content_key_ops (hashing C)) (content_keys C (sdb s)) ?t"
    by (simp add: compute_content_iblt_eq [OF assms(1) d] content_table_def empty_table)
  show ?thesis
  proof (intro conjI impI)
    assume "content_tbl (sdb s) \<noteq> []"
    then show "get_iblt C 0 s = Panic Rem_by_zero"
      by (cases "content_tbl (sdb s)") (simp_all add: get_iblt_def comp content_keys_def iblt_insert_all_def ins)
  next
    assume e: "content_tbl (sdb s) = [] \<and> map_of (iblts s) 0 = None"
    let ?s = "s\<lparr>iblts := (0, ?t) # iblts s\<rparr>"
    have "get_iblt C 0 s = Ok (?t, ?s)"
      using e by (simp add: get_iblt_def comp content_keys_def iblt_insert_all_def)
    moreover have "add_content C T c ?s = Panic Rem_by_zero" if "funded C T c height hdr out" for T c height hdr out
      using that length_ad_digest [OF assms(1), of "ad c"]
      by (auto simp: add_content_def funded_def Let_def content_key_new_def insert_into_iblts_def ins)
    ultimately show "\<exists>t s'. get_iblt C 0 s = Ok (t, s')
          \<and> (\<forall>T c height hdr out. funded C T c height hdr out
               \<longrightarrow> add_content C T c s' = Panic Rem_by_zero)" by blast
  qed
qed

section \<open>Funding and reading\<close>

lemma store_fund_OkE:
  assumes "store_fund C W rnd fuel T ident term amount fee pass s = Some (Ok (t, pk, f), s')"
  obtains w d where "wallet_fund W rnd fuel ident term pass fee amount T
        (\<lambda>pk term. funding_script C pk (the term)) (swallet s) = Some (Ok (t, pk, f), w)"
    "store_account W (master w) (1, 0) (sdb s) = Some d"
    "sdb s' = store_txout C t (Some (pk, ident, term)) d"
proof -
  obtain r w where w: "wallet_fund W rnd fuel ident term pass fee amount T
        (\<lambda>pk term. funding_script C pk (the term)) (swallet s) = Some (r, w)"
    using assms by (auto simp: store_fund_def)
  show thesis
  proof (cases r)
    case (Ok x)
    with assms w that [of w] show thesis
      by (cases x; cases "store_account W (master w) (1, 0) (sdb s)")
        (auto simp: store_fund_def Let_def send_tx_def split: if_splits)
  qed (use assms w in \<open>auto simp: store_fund_def\<close>)
qed

text \<open>
  The wallet caps the term of a funding transaction at \<open>MAX_TERM\<close>, the store records the
  term it was asked for: funding for a longer term yields the same transaction as funding
  for \<open>MAX_TERM\<close>, recorded with a term its script does not commit to.
\<close>

lemma fund_records_uncapped_term:
  assumes "store_fund C W rnd fuel T ident term amount fee pass s = Some (Ok (t, pk, f), s')"
  shows "\<exists>s''. store_fund C W rnd fuel T ident (min MAX_TERM term) amount fee pass s
      = Some (Ok (t, pk, f), s'')
    \<and> find (\<lambda>r. txo_txid r = sha256d_to_hex C (txid C t)) (txout_tbl (sdb s'))
      = Some \<lparr>txo_txid = sha256d_to_hex C (txid C t), txo_tx = serialize_tx C t, txo_confirmed = None,
              txo_publisher = Some (pk_to_bytes C pk), txo_id = Some (sha256_to_hex C ident),
              txo_term = Some term\<rparr>"
proof -
  let ?row = "\<lparr>txo_txid = sha256d_to_hex C (txid C t), txo_tx = serialize_tx C t, txo_confirmed = None,
              txo_publisher = Some (pk_to_bytes C pk), txo_id = Some (sha256_to_hex C ident),
              txo_term = Some term\<rparr>"
  have cap: "wallet_fund W rnd fuel ident (min MAX_TERM term) pass fee amount T scr w
      = wallet_fund W rnd fuel ident term pass fee amount T scr w" for scr w
    unfolding wallet_fund_def by (simp only: min.left_idem)
  obtain w d where "wallet_fund W rnd fuel ident term pass fee amount T
        (\<lambda>pk term. funding_script C pk (the term)) (swallet s) = Some (Ok (t, pk, f), w)"
    and "store_account W (master w) (1, 0) (sdb s) = Some d"
    and "sdb s' = store_txout C t (Some (pk, ident, term)) d"
    using assms by (rule store_fund_OkE)
  then show ?thesis
    using find_upsert [of txo_txid ?row "txout_tbl d"]
    by (auto simp: store_fund_def cap store_txout_def Let_def)
qed

text \<open>
  The estimated end of an ad whose last block is not mined yet is computed with a 16-bit
  product: it is the start plus ten minutes per block of the term exactly when the term is
  below 110 blocks.
\<close>

lemma readable_end:
  assumes "get_header_for_height T (ret_height r) = Some h"
    and "get_header_for_height T (ret_height r + ucast (ret_term r)) = None"
  shows "\<exists>rd. readable_new T r = Ok rd \<and> rd_start rd = ucast (hd_time h)
    \<and> (unat (rd_end rd) = unat (hd_time h) + 600 * unat (ret_term r) \<longleftrightarrow> unat (ret_term r) < 110)"
proof -
  let ?n = "unat (ret_term r)"
  have len: "unat (hd_time h) < 2 ^ 32" "?n < 2 ^ 16"
    using unsigned_less [of "hd_time h", where ?'a = nat] unsigned_less [of "ret_term r", where ?'a = nat]
    by simp_all
  have prod: "unat (ret_term r * 600) = ?n * 600 mod 65536" by (simp add: unat_word_ariths)
  have "unat (ucast (hd_time h) + ucast (ret_term r * 600) :: u64)
      = unat (hd_time h) + ?n * 600 mod 65536"
  proof -
    have "?n * 600 mod 65536 < 65536" by simp
    with len(1) show ?thesis by (simp add: unat_word_ariths prod)
  qed
  moreover have "?n * 600 mod 65536 = 600 * ?n \<longleftrightarrow> ?n < 110"
  proof
    assume "?n * 600 mod 65536 = 600 * ?n"
    then have "600 * ?n < 65536" by (metis mod_less_divisor zero_less_numeral)
    then show "?n < 110" by simp
  qed simp
  ultimately show ?thesis using assms by (simp add: readable_new_def Let_def)
qed

end
