(* ===== verification/Store_Run.thy ===== *)
theory Store_Run
  imports Store_Props
begin

text \<open>
  Runs of the store: its handlers as the steps of a state machine, the invariant of the
  database on every run, and the agreement of the caches on the runs that avoid the two
  cases in which a handler breaks it.
\<close>

section \<open>Steps\<close>

inductive store_step ::
  "('p, 'k) crates \<Rightarrow> ('p, 'k, 'c, 'm, 'u) wallet_crates \<Rightarrow> ('c, 'm) store \<Rightarrow> ('c, 'm) store \<Rightarrow> bool"
  for C W where
  step_serve: "get_iblt C n s = Ok (t, s') \<Longrightarrow> store_step C W s s'"
| step_admit: "add_content C T c s = Ok (a, s') \<Longrightarrow> store_step C W s s'"
| step_block: "block_connected C W T b height s = Ok s' \<Longrightarrow> store_step C W s s'"
| step_header: "add_header C height hdr s = Ok s' \<Longrightarrow> store_step C W s s'"
| step_unwind: "unwind_tip C W hdr s = Ok s' \<Longrightarrow> store_step C W s s'"
| step_truncate: "truncate_to_limit C s = Ok s' \<Longrightarrow> store_step C W s s'"
| step_prepare: "store_prepare C cat abstr str s = Ok (i, s') \<Longrightarrow> store_step C W s s'"
| step_fund: "store_fund C W rnd fuel T i term amount fee pass s = Some (r, s') \<Longrightarrow> store_step C W s s'"
| step_withdraw: "store_withdraw C W rnd fuel T pass target fee amount' s = Some (r', s')
    \<Longrightarrow> store_step C W s s'"
| step_deposit: "deposit_address W s = Ok (a, s') \<Longrightarrow> store_step C W s s'"

text \<open>
  A step is careful if it does not admit content the store already holds, does not serve a
  table of size zero, and removes content only when a table is cached. A block is careful if
  the ads of ours that it confirms are of that kind, and no two of them are the same.
\<close>

definition confirmed_ads :: "(nat \<times> 'k \<times> hash \<times> ad option \<times> u16) list \<Rightarrow> ad list" where
  "confirmed_ads ps = List.map_filter (\<lambda>(_, _, _, a, _). a) ps"

inductive careful_step ::
  "('p, 'k) crates \<Rightarrow> ('p, 'k, 'c, 'm, 'u) wallet_crates \<Rightarrow> ('c, 'm) store \<Rightarrow> ('c, 'm) store \<Rightarrow> bool"
  for C W where
  careful_serve: "n \<noteq> 0 \<Longrightarrow> get_iblt C n s = Ok (t, s') \<Longrightarrow> careful_step C W s s'"
| careful_admit: "ad_fits C (ad c) \<Longrightarrow> \<lparr>digest = ad_digest C (ad c)\<rparr> \<notin> set (content_keys C (sdb s))
    \<Longrightarrow> add_content C T c s = Ok (b, s') \<Longrightarrow> careful_step C W s s'"
| careful_block: "newly_confirmed C b (sdb s) = Ok ps \<Longrightarrow> \<forall>a \<in> set (confirmed_ads ps). ad_fits C a
    \<Longrightarrow> distinct (map (ad_digest C) (confirmed_ads ps))
    \<Longrightarrow> \<forall>a \<in> set (confirmed_ads ps). \<lparr>digest = ad_digest C a\<rparr> \<notin> set (content_keys C (sdb s))
    \<Longrightarrow> block_connected C W T b height s = Ok s' \<Longrightarrow> careful_step C W s s'"
| careful_header: "iblts s \<noteq> [] \<Longrightarrow> add_header C height hdr s = Ok s' \<Longrightarrow> careful_step C W s s'"
| careful_unwind: "iblts s \<noteq> [] \<Longrightarrow> unwind_tip C W hdr s = Ok s' \<Longrightarrow> careful_step C W s s'"
| careful_truncate: "iblts s \<noteq> [] \<Longrightarrow> total_length (content_tbl (sdb s)) < 2 ^ 64
    \<Longrightarrow> truncate_to_limit C s = Ok s' \<Longrightarrow> careful_step C W s s'"
| careful_prepare: "store_prepare C cat abstr str s = Ok (i, s') \<Longrightarrow> careful_step C W s s'"
| careful_fund: "store_fund C W rnd fuel T i term amount fee pass s = Some (r, s') \<Longrightarrow> careful_step C W s s'"
| careful_withdraw: "store_withdraw C W rnd fuel T pass target fee amount' s = Some (r', s')
    \<Longrightarrow> careful_step C W s s'"
| careful_deposit: "deposit_address W s = Ok (a, s') \<Longrightarrow> careful_step C W s s'"

text \<open>What a store opened on a database reaches.\<close>

inductive reaches ::
  "('p, 'k) crates \<Rightarrow> (('c, 'm) store \<Rightarrow> ('c, 'm) store \<Rightarrow> bool) \<Rightarrow> db \<Rightarrow> ('c, 'm) store \<Rightarrow> bool"
  for C step d where
  reaches_new: "store_new C d limit w = Ok s \<Longrightarrow> reaches C step d s"
| reaches_step: "reaches C step d s \<Longrightarrow> step s s' \<Longrightarrow> reaches C step d s'"

section \<open>What the handlers leave alone\<close>

lemma store_ok_cong:
  assumes "content_tbl (sdb s') = content_tbl (sdb s)" and "iblts s' = iblts s"
    and "smin_sketch s' = smin_sketch s" and "sksequence s' = sksequence s" and "n_keys s' = n_keys s"
  shows "store_ok C s' \<longleftrightarrow> store_ok C s"
  using assms by (simp add: store_ok_def sketch_for_def db_ok_def content_keys_def)

lemma content_tbl_store_txout [simp]: "content_tbl (store_txout C t f d) = content_tbl d"
  by (simp add: store_txout_def Let_def)

lemma content_tbl_store_account: "store_account W m a d = Some d' \<Longrightarrow> content_tbl d' = content_tbl d"
  by (auto simp: store_account_def split: prod.splits)

text \<open>The part of a store that concerns content.\<close>

definition same_content :: "('c, 'm) store \<Rightarrow> ('c, 'm) store \<Rightarrow> bool" where
  "same_content s' s \<longleftrightarrow> content_tbl (sdb s') = content_tbl (sdb s) \<and> iblts s' = iblts s
     \<and> smin_sketch s' = smin_sketch s \<and> sksequence s' = sksequence s \<and> n_keys s' = n_keys s"

lemma same_contentD:
  "same_content s' s \<Longrightarrow> store_ok C s' \<longleftrightarrow> store_ok C s"
  "same_content s' s \<Longrightarrow> db_ok C (sdb s') \<longleftrightarrow> db_ok C (sdb s)"
  by (auto simp: same_content_def db_ok_def store_ok_cong [of s' s])

lemma send_tx_content [simp]: "same_content (send_tx t s) s' \<longleftrightarrow> same_content s s'"
  by (simp add: send_tx_def same_content_def)

lemma store_prepare_content: "store_prepare C cat abstr str s = Ok (i, s') \<Longrightarrow> same_content s' s"
  by (auto simp: store_prepare_def prepare_publication_def Let_def same_content_def)

lemma store_fund_content:
  assumes "store_fund C W rnd fuel T i term amount fee pass s = Some (r, s')"
  shows "same_content s' s"
proof -
  obtain r1 w where "wallet_fund W rnd fuel i term pass fee amount T
      (\<lambda>pk term. funding_script C pk (the term)) (swallet s) = Some (r1, w)"
    using assms by (auto simp: store_fund_def)
  with assms show ?thesis
    by (cases r1; cases "store_account W (master w) (1, 0) (sdb s)")
      (auto simp: store_fund_def Let_def same_content_def send_tx_def content_tbl_store_account
        split: prod.splits if_splits)
qed

lemma store_withdraw_content:
  assumes "store_withdraw C W rnd fuel T pass target fee amount s = Some (r, s')"
  shows "same_content s' s"
proof -
  obtain r1 w where "wallet_withdraw W rnd fuel pass target fee amount T (swallet s) = Some (r1, w)"
    using assms by (auto simp: store_withdraw_def)
  with assms show ?thesis
    by (cases r1; cases "store_account W (master w) (0, 1) (sdb s)")
      (auto simp: store_withdraw_def Let_def same_content_def send_tx_def content_tbl_store_account
        split: prod.splits if_splits)
qed

lemma deposit_address_content: "deposit_address W s = Ok (a, s') \<Longrightarrow> same_content s' s"
  by (auto simp: deposit_address_def same_content_def split: if_splits)

lemma drop_keys_sdb: "drop_keys C keys d s = Ok s' \<Longrightarrow> sdb s' = d"
  by (auto simp: drop_keys_def split: if_splits)

lemma add_content_cases:
  assumes "add_content C T c s = Ok (b, s')"
  obtains "\<not> b" "s' = s"
  | height hdr out str d where "b" "funded C T c height hdr out"
      "text_as_string (texts C) (ad_content (ad c)) = Ok (Inr str)"
      "store_content C height (header_hash C hdr) c (out_value out) (sdb s) = Ok (1, d)" "sdb s' = d"
proof (cases b)
  case False
  with assms that(1) show thesis
    by (auto simp: add_content_def Let_def split: option.splits if_splits)
next
  case True
  with assms obtain height hdr out n where f: "funded C T c height hdr out"
    "store_content C height (header_hash C hdr) c (out_value out) (sdb s) = Ok (n, sdb s')"
    by (auto simp: add_content_def funded_def Let_def split: option.splits if_splits)
  then obtain str where "text_as_string (texts C) (ad_content (ad c)) = Ok (Inr str)" "n = 1"
    by (auto simp: store_content_def text_expect_Ok_iff Let_def split: if_splits)
  with f True that(2) show thesis by blast
qed

section \<open>Invariants\<close>

lemma store_new_ok:
  assumes "crates_ok C" and "db_ok C d" and "store_new C d limit w = Ok s"
  shows "store_ok C s" and "sdb s = d"
  using assms
  by (auto simp: store_new_def compute_content_sketch_eq store_ok_def tables_for_def sketch_for_def)

lemma add_content_db_ok:
  assumes "crates_ok C" and "db_ok C (sdb s)" and "add_content C T c s = Ok (b, s')"
  shows "db_ok C (sdb s')"
  using assms(3)
proof (cases rule: add_content_cases)
  case (2 height hdr out str d)
  then have "d = (sdb s)\<lparr>content_tbl := upsert row_id
      (content_row_of C height (header_hash C hdr) c (out_value out) str) (content_tbl (sdb s))\<rparr>"
    using store_content_Ok by blast
  with 2 show ?thesis using db_ok_upsert [OF assms(2) row_ok_content_row_of(1) [OF assms(1)]] by simp
qed (use assms(2) in simp)

lemma content_tbl_store_coins: "store_coins C W cs d = Ok d' \<Longrightarrow> content_tbl d' = content_tbl d"
  by (auto simp: store_coins_def Let_def)

text \<open>
  A connected block: the wallet and the mark of the processed block first, then the confirmed
  ads of ours are admitted one after the other.
\<close>

definition admit_ads ::
  "('p, 'k) crates \<Rightarrow> trunk \<Rightarrow> block \<Rightarrow> (nat \<times> 'k \<times> hash \<times> ad option \<times> u16) list \<Rightarrow> ('c, 'm) store
   \<Rightarrow> ('c, 'm) store outcome" where
  "admit_ads C T b = ofold (\<lambda>(tix, pk, i, a, term) s.
     (case a of
        None \<Rightarrow> Ok s
      | Some a \<Rightarrow> obind (add_content C T \<lparr>ad = a, funding = proof_new C b tix, funder = pk,
                                 content_term = term\<rparr> s) (\<lambda>(_, s). Ok s)))"

lemma block_connected_cases:
  assumes "block_connected C W T b height s = Ok s'"
  obtains ps w d where "newly_confirmed C b (sdb s) = Ok ps" "content_tbl d = content_tbl (sdb s)"
    "d = sdb s \<or> store_coins C W (coins w) (sdb s) = Ok d"
    "admit_ads C T b ps (s\<lparr>swallet := w, sdb := store_processed C (header_hash C (header b)) d\<rparr>) = Ok s'"
proof -
  obtain changed w where w: "wallet_process W b (swallet s) = (changed, w)"
    by (cases "wallet_process W b (swallet s)")
  with assms obtain ps d where "newly_confirmed C b (sdb s) = Ok ps"
    and d: "(if changed then store_coins C W (coins w) (sdb s) else Ok (sdb s)) = Ok d"
    and "admit_ads C T b ps (s\<lparr>swallet := w, sdb := store_processed C (header_hash C (header b)) d\<rparr>) = Ok s'"
    by (auto simp: block_connected_def admit_ads_def Let_def split: if_splits)
  moreover have "content_tbl d = content_tbl (sdb s)" "d = sdb s \<or> store_coins C W (coins w) (sdb s) = Ok d"
    using d content_tbl_store_coins by (auto split: if_splits)
  ultimately show thesis using that by blast
qed

lemma admit_ads_invariant:
  assumes "admit_ads C T b ps s = Ok s'" and "I s"
    and "\<And>c s r s'. I s \<Longrightarrow> add_content C T c s = Ok (r, s') \<Longrightarrow> I s'"
  shows "I s'"
  using assms(1) unfolding admit_ads_def
  by (rule ofold_invariant) (use assms(2,3) in \<open>auto split: option.splits\<close>)

lemma block_connected_db_ok:
  fixes s :: "('c, 'm) store"
  assumes "crates_ok C" and "db_ok C (sdb s)" and "block_connected C W T b height s = Ok s'"
  shows "db_ok C (sdb s')"
  using assms(3)
proof (rule block_connected_cases)
  fix ps w d
  assume "content_tbl d = content_tbl (sdb s)"
    and run: "admit_ads C T b ps (s\<lparr>swallet := w, sdb := store_processed C (header_hash C (header b)) d\<rparr>) = Ok s'"
  then have "db_ok C (store_processed C (header_hash C (header b)) d)"
    using assms(2) by (simp add: db_ok_def store_processed_def)
  then show ?thesis
    by (intro admit_ads_invariant [OF run, of "\<lambda>s. db_ok C (sdb s)"]) (simp, rule add_content_db_ok [OF assms(1)])
qed

lemma truncate_content_filter:
  assumes "truncate_content C limit d = Ok (keys, d')"
  shows "\<exists>P. d' = d\<lparr>content_tbl := filter P (content_tbl d)\<rparr>" and "\<forall>k \<in> set keys. content_key_wf k"
proof -
  let ?I = "\<lambda>(ks, e). (\<exists>P. e = d\<lparr>content_tbl := filter P (content_tbl d)\<rparr>) \<and> (\<forall>k \<in> set ks. content_key_wf k)"
  have "?I (keys, d')"
    using assms unfolding truncate_content_def
  proof (rule ofold_invariant [where I = ?I])
    show "?I ([], d)" by (simp, rule exI [of _ "\<lambda>_. True"]) simp
  qed (auto simp: key_of_hex_def content_key_new_wf split: option.splits)
  then show "\<exists>P. d' = d\<lparr>content_tbl := filter P (content_tbl d)\<rparr>" "\<forall>k \<in> set keys. content_key_wf k"
    by auto
qed

lemma store_step_db_ok:
  assumes "crates_ok C" and "store_step C W s s'" and "db_ok C (sdb s)"
  shows "db_ok C (sdb s')"
  using assms(2,3)
proof (induction rule: store_step.induct)
  case (step_serve n s t s')
  then show ?case by (auto simp: get_iblt_def split: option.splits)
next
  case (step_admit T c s a s')
  then show ?case using add_content_db_ok [OF assms(1)] by blast
next
  case (step_block T b height s s')
  then show ?case using block_connected_db_ok [OF assms(1)] by blast
next
  case (step_header height hdr s s')
  then show ?case
    by (auto simp: add_header_def delete_expired_eq [OF assms(1)] db_ok_filter dest: drop_keys_sdb)
next
  case (step_unwind hdr s s')
  have "db_ok C (store_processed C (prev_blockhash hdr) (sdb s))"
    using step_unwind.prems by (simp add: db_ok_def store_processed_def)
  with step_unwind show ?case
    by (auto simp: unwind_tip_def delete_confirmed_eq [OF assms(1)] db_ok_filter dest: drop_keys_sdb)
next
  case (step_truncate s s')
  then obtain keys d where t: "truncate_content C (storage_limit s) (sdb s) = Ok (keys, d)" "sdb s' = d"
    by (auto simp: truncate_to_limit_def dest: drop_keys_sdb)
  with truncate_content_filter(1) [OF t(1)] step_truncate.prems show ?case by (auto simp: db_ok_filter)
qed (auto dest: store_prepare_content store_fund_content store_withdraw_content deposit_address_content
      same_contentD(2))

text \<open>
  Whatever peers send and whatever blocks arrive, in every order, the database stays well
  formed: identifiers are unique digests and the stored proofs and keys can be read.
\<close>

lemma reaches_db_ok:
  assumes "crates_ok C" and "db_ok C d" and "reaches C (store_step C W) d s"
  shows "db_ok C (sdb s)"
  using assms(3)
  by (induction rule: reaches.induct)
    (auto simp: store_new_ok(2) [OF assms(1,2)] assms(2) intro: store_step_db_ok [OF assms(1)])

lemma admit_ads_ok:
  fixes s :: "('c, 'm) store"
  assumes "crates_ok C" and "admit_ads C T b ps s = Ok s'" and "store_ok C s"
    and "\<forall>a \<in> set (confirmed_ads ps). ad_fits C a" and "distinct (map (ad_digest C) (confirmed_ads ps))"
    and "\<forall>a \<in> set (confirmed_ads ps). \<lparr>digest = ad_digest C a\<rparr> \<notin> set (content_keys C (sdb s))"
  shows "store_ok C s'"
  using assms(2-)
proof (induction ps arbitrary: s)
  case (Cons p ps)
  obtain tix pk i a n where p: "p = (tix, pk, i, a, n)" by (cases p)
  show ?case
  proof (cases a)
    case None
    with Cons p show ?thesis by (simp add: admit_ads_def confirmed_ads_def map_filter_simps)
  next
    case (Some y)
    let ?c = "\<lparr>ad = y, funding = proof_new C b tix, funder = pk, content_term = n\<rparr>"
    have ads: "confirmed_ads (p # ps) = y # confirmed_ads ps"
      by (simp add: confirmed_ads_def map_filter_simps p Some)
    obtain q s1 where a: "add_content C T ?c s = Ok (q, s1)" and run: "admit_ads C T b ps s1 = Ok s'"
      using Cons.prems(1) by (auto simp: admit_ads_def p Some)
    from a have "store_ok C s1 \<and> set (content_keys C (sdb s1))
        \<subseteq> insert \<lparr>digest = ad_digest C y\<rparr> (set (content_keys C (sdb s)))"
    proof (cases rule: add_content_cases)
      case (2 height hdr out str d)
      obtain s2 where s2: "add_content C T ?c s = Ok (True, s2)" "store_ok C s2"
        "content_tbl (sdb s2) = content_tbl (sdb s)
           @ [content_row_of C height (header_hash C hdr) ?c (out_value out) str]"
        using admit_new [OF assms(1) Cons.prems(2) 2(2) _ 2(3)] Cons.prems(3,5) ads by auto
      then show ?thesis using a by (auto simp: content_keys_def row_ok_content_row_of(2) [OF assms(1)])
    qed (use Cons.prems(2) in auto)
    moreover from this have "\<forall>a \<in> set (confirmed_ads ps). \<lparr>digest = ad_digest C a\<rparr> \<notin> set (content_keys C (sdb s1))"
      using Cons.prems(4,5) by (auto simp: ads image_iff dest!: subsetD)
    ultimately show ?thesis using Cons.IH [OF run] Cons.prems(3,4) by (simp add: ads)
  qed
qed (simp add: admit_ads_def)

lemma careful_step_ok:
  assumes "crates_ok C" and "careful_step C W s s'" and "store_ok C s"
  shows "store_ok C s'"
  using assms(2,3)
proof (induction rule: careful_step.induct)
  case (careful_serve n s t s')
  then show ?case using get_iblt_table [OF assms(1)] by fastforce
next
  case (careful_admit c s T b s')
  from careful_admit(3) show ?case
  proof (cases rule: add_content_cases)
    case (2 height hdr out str d)
    with careful_admit admit_new [OF assms(1)] show ?thesis by fastforce
  qed (use careful_admit in simp)
next
  case (careful_block b s ps T height s')
  from careful_block(5) show ?case
  proof (rule block_connected_cases)
    fix ps' w d
    assume ps': "newly_confirmed C b (sdb s) = Ok ps'" and d: "content_tbl d = content_tbl (sdb s)"
      and run: "admit_ads C T b ps' (s\<lparr>swallet := w, sdb := store_processed C (header_hash C (header b)) d\<rparr>) = Ok s'"
    let ?s = "s\<lparr>swallet := w, sdb := store_processed C (header_hash C (header b)) d\<rparr>"
    have same: "same_content ?s s" by (simp add: same_content_def store_processed_def d)
    have "ps' = ps" using ps' careful_block(1) by simp
    moreover have "content_keys C (sdb ?s) = content_keys C (sdb s)"
      using same by (simp add: content_keys_def same_content_def)
    ultimately show ?thesis
      using admit_ads_ok [OF assms(1) run] same_contentD(1) [OF same, of C] careful_block by simp
  qed
next
  case (careful_header s height hdr s')
  then show ?case using expired.handler_keeps [OF assms(1), of s height] by (auto simp: add_header_def)
next
  case (careful_unwind s hdr s')
  then obtain s1 where "store_ok C s1" "s' = s1\<lparr>swallet := wallet_unwind_tip W (header_hash C hdr) (swallet s1)\<rparr>"
    using unwound.handler_keeps [OF assms(1), of s "header_hash C hdr" "prev_blockhash hdr"]
    by (auto simp: unwind_tip_def)
  then show ?case using store_ok_cong [of s' s1 C] by simp
next
  case (careful_truncate s s')
  then show ?case
    using truncated.handler_keeps [OF assms(1), of s "storage_limit s"] by (auto simp: truncate_to_limit_def)
qed (auto dest: store_prepare_content store_fund_content store_withdraw_content deposit_address_content
      same_contentD(1))

text \<open>
  C4. On every run of careful steps the caches agree with the database: what a node announces
  in a poll (sketch and size) and what it serves (tables) describe exactly the content it
  holds.
\<close>

theorem careful_runs_consistent:
  assumes "crates_ok C" and "db_ok C d" and "reaches C (careful_step C W) d s"
  shows "store_ok C s"
  using assms(3)
  by (induction rule: reaches.induct)
    (auto intro: store_new_ok(1) [OF assms(1,2)] careful_step_ok [OF assms(1)])

section \<open>Content that is admitted again\<close>

text \<open>Inserting a key always changes a table, as the counts of its buckets go up by one.\<close>

lemma toggle_changes:
  assumes "iblt_ok t" and "iblt_ksequence t \<noteq> []"
  shows "toggle K key 1 t \<noteq> t"
proof
  assume eq: "toggle K key 1 t = t"
  obtain n where n: "n \<in> set (key_indices K t key)" using key_indices_nonempty [OF assms(2), of K key] by fastforce
  then have "n < length (buckets t)" using set_key_indices_bound [OF assms(1), of K key] by auto
  with n have "buckets (toggle K key 1 t) ! n = add_to_bucket K key (keyhash K t key) 1 (buckets t ! n)"
    by (simp add: toggle_def)
  then have "bcount (buckets t ! n) = bcount (buckets t ! n) + 1"
    unfolding eq by (metis add_to_bucket_def bucket.select_convs(3) bucket.surjective bucket.update_convs)
  then show False by simp
qed

lemma content_table_insert_changes:
  assumes "n \<noteq> 0" and "\<forall>x \<in> set ks. content_key_wf x" and "content_key_wf k" and "mset ks' = add_mset k (mset ks)"
  shows "content_table C n ks' \<noteq> content_table C n ks"
proof -
  let ?K = "content_key_ops (hashing C)"
  obtain t0 where t0: "iblt_new (hashing C) ?K n NH K0 K1 = Ok t0" "iblt_ok t0" "represents ?K t0 []"
    "content_table C n ks = iblt_insert_all ?K ks t0"
    using fresh_table [OF assms(1), of C] by metis
  obtain t where t: "content_table C n ks = Ok t" "same_shape t t0"
    using content_key.insert_all_represents [OF t0(2,3) _ assms(2)] t0(4) by auto
  have "iblt_ksequence t0 \<noteq> []" using iblt_new_ok(4) [OF t0(1) assms(1)] by (simp add: NH_def)
  with t(2) t0(2) have ok: "iblt_ok t" "iblt_ksequence t \<noteq> []"
    by (simp_all add: same_shape_cong(3) [OF t(2)]) (simp add: same_shape_def)
  then show ?thesis
    using content_table_insert [OF assms(1-3) t(1) assms(4)] t(1) toggle_changes [OF ok, of ?K k]
    by (auto simp: iblt_insert_toggle)
qed

lemma mset_upsert_same:
  assumes "distinct (map key tbl)" and "q \<in> set tbl" and "key q = key r" and "f q = f r"
  shows "mset (map f (upsert key r tbl)) = mset (map f tbl)"
proof -
  have "filter (\<lambda>x. key x = key r) tbl = [q]"
    using assms(1-3) by (induction tbl) (auto simp: filter_empty_conv image_iff)
  then have "filter_mset (\<lambda>x. key x = key r) (mset tbl) = {#q#}" by (metis mset.simps mset_filter)
  with multiset_partition [of "mset tbl" "\<lambda>x. key x = key r"]
  have "mset tbl = {#q#} + filter_mset (\<lambda>x. key x \<noteq> key r) (mset tbl)" by simp
  then have "image_mset f (mset tbl) = add_mset (f q) (image_mset f (filter_mset (\<lambda>x. key x \<noteq> key r) (mset tbl)))"
    by (metis add_mset_add_single image_mset_add_mset union_commute)
  then show ?thesis by (simp add: upsert_def assms(4))
qed

text \<open>Replacing the row of a known ad keeps the keys of the database.\<close>

lemma known_content_keys:
  assumes "crates_ok C" and "db_ok C d" and "\<lparr>digest = ad_digest C (ad c)\<rparr> \<in> set (content_keys C d)"
  shows "mset (map (row_key C) (upsert row_id (content_row_of C height b c amount str) (content_tbl d)))
    = mset (content_keys C d)"
proof -
  let ?row = "content_row_of C height b c amount str"
  obtain q where q: "q \<in> set (content_tbl d)" "row_key C q = row_key C ?row"
    using assms(3) row_ok_content_row_of(2) [OF assms(1)] by (auto simp: content_keys_def)
  then have "row_id q = row_id ?row" "distinct (map row_id (content_tbl d))"
    using assms(2) row_key_eq_iff [of C q ?row] row_ok_content_row_of(1) [OF assms(1)] by (auto simp: db_ok_def)
  then show ?thesis unfolding content_keys_def by (intro mset_upsert_same [OF _ q(1) _ q(2)])
qed

text \<open>
  C36. Content the store already holds is admitted again: the row is replaced and the keys of the
  database stay what they were, but the key is inserted into every cached table once more and
  counted a second time. Each cached table then is the table of the keys with this one twice and no
  longer the table of the keys of the database, and so the store is no longer consistent. Any peer
  can cause this by sending content it was not asked for.
\<close>

theorem add_content_again:
  assumes "crates_ok C" and "store_ok C s" and "funded C T c height hdr out"
    and "ad_fits C (ad c)" and "text_as_string (texts C) (ad_content (ad c)) = Ok (Inr str)"
    and "key = \<lparr>digest = ad_digest C (ad c)\<rparr>" and "key \<in> set (content_keys C (sdb s))"
  shows "\<exists>s'. add_content C T c s = Ok (True, s')
    \<and> content_tbl (sdb s') = upsert row_id (content_row_of C height (header_hash C hdr) c (out_value out) str)
         (content_tbl (sdb s))
    \<and> mset (content_keys C (sdb s')) = mset (content_keys C (sdb s))
    \<and> insert_into_iblts C key (iblts s) = Ok (iblts s') \<and> map fst (iblts s') = map fst (iblts s)
    \<and> (\<forall>(n, t) \<in> set (iblts s'). content_table C n (key # content_keys C (sdb s')) = Ok t
         \<and> compute_content_iblt C n (sdb s') \<noteq> Ok t)
    \<and> get_nkeys s' = get_nkeys s + 1 \<and> \<not> store_ok C s'"
proof -
  let ?row = "content_row_of C height (header_hash C hdr) c (out_value out) str"
  let ?tbl = "upsert row_id ?row (content_tbl (sdb s))"
  have d: "db_ok C (sdb s)" and n: "n_keys s = of_nat (length (content_keys C (sdb s)))"
    and tf: "tables_for C (content_keys C (sdb s)) (iblts s)"
    using assms(2) by (auto simp: store_ok_def sketch_for_def content_keys_def)
  obtain ts where ts: "insert_into_iblts C key (iblts s) = Ok ts" "map fst ts = map fst (iblts s)"
    "\<And>ks. mset ks = add_mset key (mset (content_keys C (sdb s))) \<Longrightarrow> tables_for C ks ts"
    and run: "add_content C T c s = Ok (True, s\<lparr>iblts := ts,
        smin_sketch := sketch_of (content_key_ops (hashing C)) (sksequence s) (insert key (set (content_keys C (sdb s)))),
        n_keys := n_keys s + 1, sdb := (sdb s)\<lparr>content_tbl := ?tbl\<rparr>\<rparr>)"
    using add_content_funded [OF assms(1-5)] unfolding assms(6) [symmetric] by blast
  obtain s' where s': "add_content C T c s = Ok (True, s')" "n_keys s' = n_keys s + 1"
    "content_tbl (sdb s') = ?tbl" "iblts s' = ts"
    using run by simp
  have keys: "mset (content_keys C (sdb s')) = mset (content_keys C (sdb s))"
    using known_content_keys [OF assms(1) d] assms(6,7) by (simp add: content_keys_def s'(3))
  have wf: "\<forall>k \<in> set (content_keys C (sdb s')). content_key_wf k"
    using content_keys_wf [OF assms(1) d] mset_eq_setD [OF keys] by simp
  have kwf: "content_key_wf key" using content_keys_wf [OF assms(1) d] assms(7) by blast
  have d': "db_ok C (sdb s')" using add_content_db_ok [OF assms(1) d s'(1)] .
  have tabs: "content_table C n (key # content_keys C (sdb s')) = Ok t \<and> compute_content_iblt C n (sdb s') \<noteq> Ok t"
    if "(n, t) \<in> set (iblts s')" for n t
  proof -
    have t: "n \<noteq> 0" "content_table C n (key # content_keys C (sdb s')) = Ok t"
      using ts(3) [of "key # content_keys C (sdb s')"] that keys s'(4) by (auto simp: tables_for_def)
    with content_table_insert_changes [OF t(1) wf kwf, of "key # content_keys C (sdb s')" C] show ?thesis
      by (auto simp: compute_content_iblt_eq [OF assms(1) d'])
  qed
  have "\<not> store_ok C s'"
  proof
    assume "store_ok C s'"
    then have "n_keys s' = of_nat (length (content_keys C (sdb s')))"
      by (auto simp: store_ok_def sketch_for_def content_keys_def)
    with s'(2) n mset_eq_length [OF keys] show False by simp
  qed
  with s' ts(1,2) keys tabs show ?thesis by (intro exI [of _ s']) (auto simp: get_nkeys_def)
qed

end
