(* ===== verification/Messages.thy ===== *)
theory Messages
  imports Store_Run
begin

text \<open>
  The messages between nodes, \<^verbatim>\<open>src/messages.rs\<close>, and the replies a node waits for
  (\<^verbatim>\<open>ExpectedReply\<close> of \<^verbatim>\<open>src/p2p_defiads.rs\<close>).
\<close>

record version_message =
  vm_version :: u32
  vm_timestamp :: u64
  vm_receiver :: net_address
  vm_sender :: net_address
  vm_nonce :: u64
  vm_user_agent :: rstring
  vm_start_height :: u32

record poll_content_message =
  pc_tip :: hash
  pc_sketch :: "u64 list"
  pc_size :: u32

record poll_address_message =
  pa_sketch :: "u64 list"
  pa_size :: u32

datatype ('p, 'k) message =
    Version version_message
  | Verack
  | PollAddress poll_address_message
  | AddressIBLT "net_address iblt"
  | PollContent poll_content_message
  | ContentIBLT hash "content_key iblt"
  | Get "hash list"
  | Content "('p, 'k) content"

record ('p, 'k) envelope =
  env_magic :: u32
  env_payload :: "('p, 'k) message"

fun command_name :: "('p, 'k) message \<Rightarrow> string" where
  "command_name (Version _) = ''version''"
| "command_name Verack = ''verack''"
| "command_name (PollAddress _) = ''poll address''"
| "command_name (AddressIBLT _) = ''address iblt''"
| "command_name (PollContent _) = ''poll content''"
| "command_name (ContentIBLT _ _) = ''content iblt''"
| "command_name (Get _) = ''get''"
| "command_name (Content _) = ''content''"

definition command :: "('p, 'k) envelope \<Rightarrow> string" where
  "command e = command_name (env_payload e)"

fun is_verack :: "('p, 'k) message \<Rightarrow> bool" where
  "is_verack Verack = True"
| "is_verack _ = False"

text \<open>\<^verbatim>\<open>VersionCarrier\<close> of \<^verbatim>\<open>murmel\<close>; an address there is its services, segments and port.\<close>

record version_carrier =
  vc_version :: u32
  vc_services :: u64
  vc_timestamp :: u64
  vc_receiver :: "u64 \<times> u16 list \<times> u16"
  vc_sender :: "u64 \<times> u16 list \<times> u16"
  vc_nonce :: u64
  vc_user_agent :: rstring
  vc_start_height :: u32
  vc_relay :: bool

fun is_version :: "('p, 'k) message \<Rightarrow> version_carrier option" where
  "is_version (Version v) =
     Some \<lparr>vc_version = vm_version v, vc_services = 0, vc_timestamp = vm_timestamp v,
           vc_receiver = (0, address (vm_receiver v), port (vm_receiver v)),
           vc_sender = (0, address (vm_sender v), port (vm_sender v)), vc_nonce = vm_nonce v,
           vc_user_agent = vm_user_agent v, vc_start_height = vm_start_height v, vc_relay = False\<rparr>"
| "is_version _ = None"

datatype expected_reply =
    Expect_PollContent | Expect_ContentIBLT | Expect_Content | Expect_Get
  | Expect_PollAddress | Expect_AddressIBLT

text \<open>
  What a handler does to the network and to the timeout book-keeping, in order. Peers are
  identified by values of a type \<open>'i\<close>.
\<close>

datatype ('i, 'p, 'k) action =
    Send_network 'i "('p, 'k) message"
  | Expect 'i nat expected_reply
  | Received 'i nat expected_reply
  | Check_timeouts "expected_reply list"

end
