(* ===== verification/Updater.thy ===== *)
theory Updater
  imports Messages "HOL-Library.While_Combinator"
begin

text \<open>
  The exchange of content with a peer, \<^verbatim>\<open>src/updater.rs\<close>: the poll, the comparison of sketches,
  the exchange of lookup tables, the request for and the delivery of content. Each arm of the
  \<^verbatim>\<open>match\<close> in \<^verbatim>\<open>run\<close> is a handler on the store and the table of asked polls, which returns
  its actions. The random choice of a peer and the clock are arguments.
\<close>

definition MINIMUM_IBLT_SIZE :: u32 where
  "MINIMUM_IBLT_SIZE = 100"

definition MAXIMUM_IBLT_SIZE :: u32 where
  "MAXIMUM_IBLT_SIZE = push_bit 16 MINIMUM_IBLT_SIZE"

type_synonym 'i polls = "'i \<Rightarrow> poll_content_message option"

section \<open>Polling\<close>

definition own_poll :: "('p, 'k) crates \<Rightarrow> trunk \<Rightarrow> ('c, 'm) store \<Rightarrow> poll_content_message option" where
  "own_poll C T s =
     map_option (\<lambda>tip. \<lparr>pc_tip = tip, pc_sketch = get_sketch s, pc_size = get_nkeys s\<rparr>)
       (store_get_tip C T)"

definition poll_content ::
  "('p, 'k) crates \<Rightarrow> trunk \<Rightarrow> ('c, 'm) store \<Rightarrow> 'i \<Rightarrow> 'i polls \<Rightarrow> 'i polls \<times> ('i, 'p, 'k) action list" where
  "poll_content C T s pid asked =
     (case own_poll C T s of
        None \<Rightarrow> (asked, [])
      | Some poll \<Rightarrow> (asked(pid \<mapsto> poll),
                     [Send_network pid (PollContent poll), Expect pid 1 Expect_PollContent]))"

definition on_disconnected :: "'i \<Rightarrow> 'i polls \<Rightarrow> 'i polls" where
  "on_disconnected pid asked = asked(pid := None)"

text \<open>The periodic poll; \<open>pid\<close> is the connected peer the network layer chose, if any.\<close>

definition on_tick ::
  "('p, 'k) crates \<Rightarrow> trunk \<Rightarrow> ('c, 'm) store \<Rightarrow> 'i option \<Rightarrow> 'i polls \<Rightarrow> 'i polls \<times> ('i, 'p, 'k) action list" where
  "on_tick C T s chosen asked =
     (case (own_poll C T s, chosen) of
        (Some poll, Some pid) \<Rightarrow> (asked(pid \<mapsto> poll),
           [Send_network pid (PollContent poll), Expect pid 1 Expect_PollContent])
      | _ \<Rightarrow> (asked, []))"

section \<open>The reply to a poll\<close>

text \<open>The loop that chooses the size of the table; it ends (\<open>table_size_spec\<close>).\<close>

definition table_size :: "u32 \<Rightarrow> u32" where
  "table_size diff =
     (case while_option (\<lambda>n. n < MAXIMUM_IBLT_SIZE \<and> n < diff) (\<lambda>n. push_bit 2 n) MINIMUM_IBLT_SIZE of
        Some n \<Rightarrow> n | None \<Rightarrow> 0)"

definition on_poll_content ::
  "('p, 'k) crates \<Rightarrow> trunk \<Rightarrow> 'i \<Rightarrow> poll_content_message \<Rightarrow> ('c, 'm) store \<times> 'i polls
   \<Rightarrow> (('c, 'm) store \<times> 'i polls \<times> ('i, 'p, 'k) action list) outcome" where
  "on_poll_content C T pid poll st =
     (case st of (s, asked) \<Rightarrow>
        (case asked pid of
           None \<Rightarrow> (case poll_content C T s pid asked of (asked', acts) \<Rightarrow> Ok (s, asked', acts))
         | Some question \<Rightarrow>
             (let asked' = asked(pid := None); recv = Received pid 1 Expect_PollContent in
              (case store_get_tip C T of
                 None \<Rightarrow> Ok (s, asked', [recv])
               | Some our_tip \<Rightarrow>
                   if our_tip = pc_tip question \<and> pc_tip question = pc_tip poll then
                     obind (estimate_diff_size (pc_sketch question) (pc_size question)
                              (pc_sketch poll) (pc_size poll))
                       (\<lambda>e. let diff = e * 3 div 2 in
                            if diff > 0 then
                              obind (expect_ok ''could not compute IBLT'' (get_iblt C (table_size diff) s))
                                (\<lambda>(t, s'). Ok (s', asked',
                                   [recv, Expect pid 1 Expect_ContentIBLT,
                                    Send_network pid (ContentIBLT our_tip t)]))
                            else Ok (s, asked', [recv]))
                   else Ok (s, asked', [recv])))))"

section \<open>A table received\<close>

text \<open>
  The keys the loop over the listing collects: inserted entries, up to the first error.
\<close>

fun collect_requests :: "(iblt_error + content_key iblt_entry) list \<Rightarrow> hash list" where
  "collect_requests [] = []"
| "collect_requests (Inr (Inserted k) # es) = digest k # collect_requests es"
| "collect_requests (Inr (Deleted k) # es) = collect_requests es"
| "collect_requests (Inl e # es) = []"

text \<open>
  \<open>Ok None\<close>: the listing did not end within \<open>fuel\<close> entries. A listing of the difference of two
  tables of a network node ends (\<open>requests_missing_content\<close>); one of a table a peer made up
  need not (\<open>Iblt_Decode.iblt_listing_diverges\<close>).
\<close>

definition on_content_iblt ::
  "('p, 'k) crates \<Rightarrow> nat \<Rightarrow> trunk \<Rightarrow> 'i \<Rightarrow> hash \<Rightarrow> content_key iblt \<Rightarrow> ('c, 'm) store
   \<Rightarrow> (('c, 'm) store \<times> ('i, 'p, 'k) action list) option outcome" where
  "on_content_iblt C fuel T pid tip t s =
     (let recv = Received pid 1 Expect_ContentIBLT; K = content_key_ops (hashing C) in
      (case store_get_tip C T of
         None \<Rightarrow> Ok (Some (s, [recv]))
       | Some our_tip \<Rightarrow>
           if tip = our_tip then
             obind (expect_ok ''can not compute IBLT'' (get_iblt C (iblt_len t) s)) (\<lambda>(ours, s').
               obind (substract K t ours) (\<lambda>d.
                 obind (iblt_entries fuel K (iblt_iterator_new K d)) (\<lambda>items.
                   Ok (map_option (\<lambda>es.
                         let request = collect_requests es
                         in (s', if request \<noteq> []
                                 then [recv, Expect pid (length request) Expect_Content,
                                       Send_network pid (Get request)]
                                 else [recv])) items))))
           else Ok (Some (s, [recv]))))"

section \<open>Content received and content asked for\<close>

text \<open>\<open>busy\<close>: the timeout book-keeping still expects content from this peer.\<close>

definition on_content ::
  "('p, 'k) crates \<Rightarrow> trunk \<Rightarrow> 'i \<Rightarrow> bool \<Rightarrow> ('p, 'k) content \<Rightarrow> ('c, 'm) store
   \<Rightarrow> (('c, 'm) store \<times> ('i, 'p, 'k) action list) outcome" where
  "on_content C T pid busy c s =
     obind (case add_content C T c s of
              Ok (_, s') \<Rightarrow> Ok s' | Err _ \<Rightarrow> Ok s | Panic p \<Rightarrow> Panic p)
       (\<lambda>s. obind (if \<not> busy then expect_ok ''failed to truncate db to maz size'' (truncate_to_limit C s)
                   else Ok s)
          (\<lambda>s. Ok (s, [Received pid 1 Expect_Content])))"

definition on_get ::
  "('p, 'k) crates \<Rightarrow> 'i \<Rightarrow> hash list \<Rightarrow> ('c, 'm) store \<Rightarrow> ('i, 'p, 'k) action list outcome" where
  "on_get C pid ids s =
     obind (omap (\<lambda>i. expect_ok ''can not read content'' (get_content C i s)) ids)
       (\<lambda>cs. Ok (List.map_filter (map_option (\<lambda>c. Send_network pid (Content c))) cs))"

section \<open>The size of a table\<close>

lemma iblt_sizes: "MINIMUM_IBLT_SIZE = 100" "MAXIMUM_IBLT_SIZE = 6553600"
  by (simp_all add: MINIMUM_IBLT_SIZE_def MAXIMUM_IBLT_SIZE_def)

lemma table_size_eq:
  "table_size diff = (if diff \<le> 100 then 100 else if diff \<le> 400 then 400 else if diff \<le> 1600 then 1600
     else if diff \<le> 6400 then 6400 else if diff \<le> 25600 then 25600 else if diff \<le> 102400 then 102400
     else if diff \<le> 409600 then 409600 else if diff \<le> 1638400 then 1638400 else 6553600)"
proof -
  let ?loop = "while_option (\<lambda>n. n < 6553600 \<and> n < diff) (\<lambda>n :: u32. push_bit 2 n)"
  have u: "?loop n = (if n < 6553600 \<and> n < diff then ?loop (push_bit 2 n) else Some n)" for n
    by (rule while_option_unfold)
  show ?thesis unfolding table_size_def iblt_sizes
    by (simp add: u [of 100] u [of 400] u [of 1600] u [of 6400] u [of 25600] u [of 102400]
        u [of 409600] u [of 1638400] u [of 6553600] not_less [symmetric])
qed

text \<open>
  C33. The loop that chooses the size of the requested table ends at a size between the minimum and
  the maximum that covers the estimated difference or is the maximum, and a quarter of which, if it is not
  the minimum, would not cover it.
\<close>

theorem table_size_spec:
  "MINIMUM_IBLT_SIZE \<le> table_size diff \<and> table_size diff \<le> MAXIMUM_IBLT_SIZE
   \<and> (diff \<le> table_size diff \<or> table_size diff = MAXIMUM_IBLT_SIZE)
   \<and> (table_size diff = MINIMUM_IBLT_SIZE \<or> table_size diff div 4 < diff)"
  unfolding table_size_eq iblt_sizes by (auto simp: not_le)

section \<open>What a node asks for\<close>

lemma content_table_shape:
  assumes "n \<noteq> 0" and "\<forall>k \<in> set keys. content_key_wf k" and "content_table C n keys = Ok t"
  shows "length (buckets t) = unat n"
proof -
  obtain t0 where t0: "iblt_new (hashing C) (content_key_ops (hashing C)) n NH K0 K1 = Ok t0" "iblt_ok t0"
    "represents (content_key_ops (hashing C)) t0 []"
    "content_table C n keys = iblt_insert_all (content_key_ops (hashing C)) keys t0"
    using fresh_table [OF assms(1), of C] by metis
  have "same_shape t t0"
    using content_key.insert_all_represents [OF t0(2,3) _ assms(2)] t0(4) assms(3) by auto
  with iblt_new_ok(3) [OF t0(1) assms(1)] show ?thesis by (simp add: same_shape_length)
qed

lemma content_table_keys:
  assumes "n \<noteq> 0" and "\<forall>k \<in> set keys. content_key_wf k" and "content_table C n keys = Ok t"
  shows "iblt_k0 t = K0 \<and> iblt_k1 t = K1 \<and> iblt_k t = NH"
proof -
  obtain t0 where t0: "iblt_new (hashing C) (content_key_ops (hashing C)) n NH K0 K1 = Ok t0" "iblt_ok t0"
    "represents (content_key_ops (hashing C)) t0 []"
    "content_table C n keys = iblt_insert_all (content_key_ops (hashing C)) keys t0"
    using fresh_table [OF assms(1), of C] by metis
  have "same_shape t t0"
    using content_key.insert_all_represents [OF t0(2,3) _ assms(2)] t0(4) assms(3) by auto
  with t0(1) show ?thesis by (auto simp: same_shape_def iblt_new_def split: if_splits)
qed

lemma iblt_len_content_table:
  assumes "n \<noteq> 0" and "\<forall>k \<in> set keys. content_key_wf k" and "content_table C n keys = Ok t"
  shows "iblt_len t = n"
  using content_table_shape [OF assms] by (simp add: iblt_len_def)

lemma collect_requests_found:
  "collect_requests (map (\<lambda>e. Inr (entry_of e)) found @ (if b then [Inl IncompleteIteration] else []))
   = map (\<lambda>e. digest (fst e)) (filter (\<lambda>e. snd e = 1) found)"
  by (induction found) (auto simp: entry_of_def)

lemma diff_entries_inserted:
  "(k, 1) \<in> set (diff_entries xs ys) \<longleftrightarrow> k \<in> set xs \<and> k \<notin> set ys"
  by (auto simp: diff_entries_def)

text \<open>
  The exchange asks for what is missing: when a consistent peer at the same tip serves
  its table, the receiving node, itself consistent, lists the difference within the number of
  keys of both plus two, keeps its own content, and asks for distinct digests of content
  that the peer holds and it does not; what it does not ask for shares all its buckets with
  other keys that are not found either.
\<close>

lemma requests_missing_content:
  assumes "crates_ok C" and "store_ok C ours" and "store_ok C theirs" and "n \<noteq> 0"
    and "get_iblt C n theirs = Ok (t, theirs')" and "store_get_tip C T = Some tip"
    and "iblt_new (hashing C) (content_key_ops (hashing C)) n NH K0 K1 = Ok t0"
    and "no_false_pure (content_key_ops (hashing C)) t0
           (diff_entries (content_keys C (sdb theirs)) (content_keys C (sdb ours)))"
    and "length (content_keys C (sdb theirs)) + length (content_keys C (sdb ours)) + 2 \<le> fuel"
  shows "\<exists>s' request found rest.
      on_content_iblt C fuel T pid tip t ours = Ok (Some (s',
        if request \<noteq> []
        then [Received pid 1 Expect_ContentIBLT, Expect pid (length request) Expect_Content,
              Send_network pid (Get request)]
        else [Received pid 1 Expect_ContentIBLT]))
    \<and> store_ok C s' \<and> sdb s' = sdb ours
    \<and> distinct request
    \<and> set request \<subseteq> digest ` (set (content_keys C (sdb theirs)) - set (content_keys C (sdb ours)))
    \<and> mset (diff_entries (content_keys C (sdb theirs)) (content_keys C (sdb ours))) = mset (found @ rest)
    \<and> request = map (\<lambda>e. digest (fst e)) (filter (\<lambda>e. snd e = 1) found)
    \<and> (\<forall>b < unat n. length (entries_at (content_key_ops (hashing C)) t0 b rest) \<noteq> 1)"
proof -
  let ?K = "content_key_ops (hashing C)"
  let ?xs = "content_keys C (sdb theirs)" and ?ys = "content_keys C (sdb ours)"
  have db: "db_ok C (sdb theirs)" "db_ok C (sdb ours)" using assms(2,3) by (auto simp: store_ok_def)
  have wf: "\<forall>k \<in> set ?xs \<union> set ?ys. content_key_wf k" "\<forall>k \<in> set ?xs. content_key_wf k"
    using content_keys_wf [OF assms(1)] db by auto
  note t0 = iblt_new_ok [OF assms(7,4)]
  have tab: "content_table C n keys = iblt_insert_all ?K keys t0" for keys
    by (simp add: content_table_def assms(7))
  have xs: "iblt_insert_all ?K ?xs t0 = Ok t"
    using get_iblt_table [OF assms(1,3,4)] assms(5) by (auto simp: tab)
  obtain u s' where u: "get_iblt C n ours = Ok (u, s')" "iblt_insert_all ?K ?ys t0 = Ok u"
    and s': "store_ok C s'" "sdb s' = sdb ours"
    using get_iblt_table [OF assms(1,2,4)] by (auto simp: tab)
  have len: "iblt_len t = n"
    by (rule iblt_len_content_table [OF assms(4) wf(2), of C]) (simp add: tab xs)
  obtain d found rest where r: "substract ?K t u = Ok d" "mset (diff_entries ?xs ?ys) = mset (found @ rest)"
    "\<forall>b < unat n. length (entries_at ?K t0 b rest) \<noteq> 1"
    "iblt_entries fuel ?K (iblt_iterator_new ?K d) = Ok (Some (map (\<lambda>e. Inr (entry_of e)) found @
       (if \<exists>b < unat n. bcount (bsum ?K t0 (entries_at ?K t0 b rest)) \<noteq> 0
        then [Inl IncompleteIteration] else [])))"
    using content_key.reconcile [OF t0(1,2) xs u(2) distinct_content_keys [OF db(1)]
        distinct_content_keys [OF db(2)] wf(1) assms(8,9)] t0(3) by auto
  let ?req = "map (\<lambda>e. digest (fst e)) (filter (\<lambda>e. snd e = 1) found)"
  have sub: "set found \<subseteq> set (diff_entries ?xs ?ys)" using mset_eq_setD [OF r(2)] by auto
  have "distinct found"
    using signed_set_distinct [OF signed_set_diff_entries
        [OF distinct_content_keys [OF db(1)] distinct_content_keys [OF db(2)]]] r(2)
    by (metis distinct_append mset_eq_imp_distinct_iff)
  then have "distinct ?req"
    by (auto simp: distinct_map inj_on_def prod_eq_iff content_key.equality)
  moreover have "set ?req \<subseteq> digest ` (set ?xs - set ?ys)"
    using sub by (force simp: diff_entries_inserted)
  moreover have "on_content_iblt C fuel T pid tip t ours = Ok (Some (s',
        if ?req \<noteq> []
        then [Received pid 1 Expect_ContentIBLT, Expect pid (length ?req) Expect_Content,
              Send_network pid (Get ?req)]
        else [Received pid 1 Expect_ContentIBLT]))"
    using r(1,4) by (simp add: on_content_iblt_def assms(6) len u(1) Let_def collect_requests_found)
  ultimately show ?thesis using r(2,3) s' by blast
qed

section \<open>Delivery\<close>

lemma get_content_held:
  assumes "crates_ok C" and "db_ok C d" and "k \<in> set (content_keys C d)"
  shows "\<exists>c. read_content C (digest k) d = Ok (Some c)"
proof -
  obtain r where r: "r \<in> set (content_tbl d)" "k = row_key C r" "row_ok C r"
    using assms(2,3) by (auto simp: content_keys_def db_ok_def)
  then have "row_id r = sha256_to_hex C (digest k)" by (auto elim!: row_okE)
  with r(1) obtain q where "find (\<lambda>r. row_id r = sha256_to_hex C (digest k)) (content_tbl d) = Some q"
    "q \<in> set (content_tbl d)"
    by (metis (mono_tags, lifting) find_None_iff find_Some_iff not_Some_eq nth_mem)
  with assms(2) show ?thesis by (auto simp: read_content_def db_ok_def row_ok_def)
qed

text \<open>
  A request for content the node holds is answered completely: one message per requested
  digest, in the order of the request.
\<close>

lemma get_delivers:
  assumes "crates_ok C" and "db_ok C (sdb s)" and "set ids \<subseteq> digest ` set (content_keys C (sdb s))"
  shows "\<exists>cs. on_get C pid ids s = Ok (map (\<lambda>c. Send_network pid (Content c)) cs) \<and> length cs = length ids
    \<and> (\<forall>i < length ids. read_content C (ids ! i) (sdb s) = Ok (Some (cs ! i)))"
proof -
  have "\<forall>i \<in> set ids. \<exists>c. read_content C i (sdb s) = Ok (Some c)"
    using assms(3) get_content_held [OF assms(1,2)] by fastforce
  then obtain f where f: "\<And>i. i \<in> set ids \<Longrightarrow> read_content C i (sdb s) = Ok (Some (f i))" by metis
  have "omap (\<lambda>i. expect_ok ''can not read content'' (get_content C i s)) ids = Ok (map (\<lambda>i. Some (f i)) ids)"
    by (rule omap_total) (simp add: get_content_def f)
  then show ?thesis
    by (intro exI [of _ "map f ids"]) (simp add: on_get_def f map_filter_def comp_def)
qed

text \<open>
  A request for a digest the node does not hold panics the updater thread: the query for
  one row reports a missing row as an error, and the handler expects none. Content can
  expire, be unwound or be truncated between the table and the request, and a peer can
  ask for any digest.
\<close>

lemma get_unknown_panics:
  assumes "crates_ok C" and "db_ok C (sdb s)" and "i \<in> set ids"
    and "\<forall>r \<in> set (content_tbl (sdb s)). row_id r \<noteq> sha256_to_hex C i"
  shows "on_get C pid ids s = Panic (Expect_failed ''can not read content'')"
proof -
  let ?p = "Panic (Expect_failed ''can not read content'')"
  let ?f = "\<lambda>i. expect_ok ''can not read content'' (get_content C i s)"
  have rd: "(\<exists>c. ?f j = Ok c) \<or> ?f j = ?p" for j
  proof (cases "find (\<lambda>r. row_id r = sha256_to_hex C j) (content_tbl (sdb s))")
    case (Some r)
    then have "row_ok C r" using assms(2) by (auto simp: db_ok_def find_Some_iff)
    with Some show ?thesis by (auto simp: get_content_def read_content_def row_ok_def)
  qed (simp add: get_content_def read_content_def)
  have "find (\<lambda>r. row_id r = sha256_to_hex C i) (content_tbl (sdb s)) = None"
    using assms(4) by (simp add: find_None_iff)
  then have "?f i = ?p" by (simp add: get_content_def read_content_def)
  with assms(3) have "omap ?f ids = ?p"
  proof (induction ids)
    case (Cons j ids)
    then show ?case using rd [of j] by (cases "j = i") auto
  qed simp
  then show ?thesis by (simp add: on_get_def)
qed

section \<open>Messages that stop the updater\<close>

text \<open>
  Two messages of a peer that fail an assertion: the answer to a poll with a sketch of
  another length, and a table whose keys or number of hash functions are not ours.
\<close>

lemma malformed_messages_panic:
  assumes "crates_ok C" and "store_ok C s" and "store_get_tip C T = Some tip"
    and "asked pid = Some q" and "pc_tip q = tip" and "pc_tip poll = tip"
    and "length (pc_sketch poll) \<noteq> length (pc_sketch q)"
    and "iblt_len t \<noteq> 0" and "iblt_k0 t \<noteq> K0 \<or> iblt_k1 t \<noteq> K1 \<or> iblt_k t \<noteq> NH"
  shows "on_poll_content C T pid poll (s, asked) = Panic Assert_failed
    \<and> on_content_iblt C fuel T pid tip t s = Panic Assert_failed"
proof -
  obtain u s' where u: "get_iblt C (iblt_len t) s = Ok (u, s')"
    "content_table C (iblt_len t) (content_keys C (sdb s)) = Ok u"
    using get_iblt_table [OF assms(1,2,8)] by blast
  have "\<forall>k \<in> set (content_keys C (sdb s)). content_key_wf k"
    using content_keys_wf [OF assms(1)] assms(2) by (auto simp: store_ok_def)
  then have "iblt_k0 u = K0 \<and> iblt_k1 u = K1 \<and> iblt_k u = NH"
    using content_table_keys [OF assms(8) _ u(2)] by blast
  with assms(9) have "substract (content_key_ops (hashing C)) t u = Panic Assert_failed"
    by (auto simp: substract_def)
  then have "on_content_iblt C fuel T pid tip t s = Panic Assert_failed"
    by (simp add: on_content_iblt_def assms(3) u(1) Let_def)
  moreover have "on_poll_content C T pid poll (s, asked) = Panic Assert_failed"
    using assms(3-7) by (simp add: on_poll_content_def estimate_diff_size_def Let_def)
  ultimately show ?thesis by blast
qed

end
