(* ===== verification/Store_Examples.thy ===== *)
theory Store_Examples
  imports Updater Iblt_Examples
begin

text \<open>
  A small world in which the theorems on the database, the wallet, the store and the updater
  apply: concrete functions in place of the foreign ones, one block, and two ads.
\<close>

section \<open>Crates\<close>

definition demo_hex :: "bytes \<Rightarrow> string" where
  "demo_hex = map (\<lambda>b. char_of (unat b))"

definition demo_unhex :: "string \<Rightarrow> bytes" where
  "demo_unhex = map (\<lambda>c. of_nat (of_char c))"

definition demo_tx :: transaction where
  "demo_tx = \<lparr>tx_version = 2, lock_time = 0, tx_input = [],
     tx_output = [\<lparr>out_value = 1000, script_pubkey = [5]\<rparr>]\<rparr>"

definition demo_crates :: "(unit, unit) crates" where
  "demo_crates =
     \<lparr>hashing = demo_hash, texts = demo_text_crates,
      sha256 = (\<lambda>d. take 32 (d @ replicate 32 0)),
      sha256_to_hex = demo_hex,
      sha256_from_hex = (\<lambda>s. if length s = 32 then Some (demo_unhex s) else None),
      sha256d_to_hex = demo_hex,
      sha256d_from_hex = (\<lambda>s. if length s = 32 then Some (demo_unhex s) else None),
      cbor_ad = (\<lambda>a. 1 # encoded (ad_content a)), uncbor_ad = (\<lambda>_. None),
      cbor_proof = (\<lambda>_. []), uncbor_proof = (\<lambda>_. Some ()), proof_new = (\<lambda>_ _. ()),
      proof_block_hash = (\<lambda>_. replicate 32 1), proof_merkle_root = (\<lambda>_. replicate 32 2),
      proof_transaction = (\<lambda>_. demo_tx), header_hash = (\<lambda>_. replicate 32 1),
      txid = (\<lambda>_. replicate 32 3), serialize_tx = (\<lambda>_. []), deserialize_tx = (\<lambda>_. Some demo_tx),
      pk_to_bytes = (\<lambda>_. [2]), pk_from_slice = (\<lambda>_. Some ()), pk_to_string = (\<lambda>_. ''key''),
      tweak_exp_add = (\<lambda>k _. Some k),
      build_script = (\<lambda>ops. case ops of Push_int n # _ \<Rightarrow> [of_int n] | _ \<Rightarrow> []),
      p2wsh_script = (\<lambda>s. s)\<rparr>"

lemma demo_unhex_hex: "demo_unhex (demo_hex b) = b"
proof -
  have "of_nat (of_char (char_of (unat w) :: char)) = w" for w :: u8
    using unsigned_less [of w, where ?'a = nat] by simp
  then show ?thesis by (simp add: demo_hex_def demo_unhex_def comp_def)
qed

lemma demo_crates_ok: "crates_ok demo_crates"
  by (auto simp: crates_ok_def demo_crates_def demo_text_crates_ok DIGEST_LEN_def demo_unhex_hex)
    (simp_all add: demo_hex_def demo_unhex_def)

section \<open>Content\<close>

definition demo_content :: "nat \<Rightarrow> (unit, unit) content" where
  "demo_content c = \<lparr>ad = ad_new demo_crates [] [] [c], funding = (), funder = (), content_term = 5\<rparr>"

lemma demo_text:
  assumes "c < 128"
  shows "ad_content (ad (demo_content c)) = \<lparr>encoded = [0, of_nat c]\<rparr>"
    and "text_as_string (texts demo_crates) (ad_content (ad (demo_content c))) = Ok (Inr [c])"
    and "canonical_text demo_crates (ad_content (ad (demo_content c)))"
proof -
  have v: "valid_str [c]" using assms by (simp add: valid_str_def scalar_def)
  show "ad_content (ad (demo_content c)) = \<lparr>encoded = [0, of_nat c]\<rparr>"
    using assms
    by (auto simp: demo_content_def ad_new_def text_new_def demo_crates_def demo_text_crates_def Let_def
        str_as_bytes_def utf8_char_def encode_utf16_def utf16_char_def demo_swap_def)
  show "text_as_string (texts demo_crates) (ad_content (ad (demo_content c))) = Ok (Inr [c])"
    using text_as_string_new [OF crates_okD(1) [OF demo_crates_ok] v]
    by (simp add: demo_content_def ad_new_def)
  show "canonical_text demo_crates (ad_content (ad (demo_content c)))"
    using ad_new_canonical [OF demo_crates_ok v] by (simp add: demo_content_def)
qed

lemma demo_fits: "c < 128 \<Longrightarrow> ad_fits demo_crates (ad (demo_content c))"
  using demo_text(1) [of c] by (simp add: ad_fits_def ad_serialize_def demo_crates_def)

definition demo_row :: "nat \<Rightarrow> u64 \<Rightarrow> content_row" where
  "demo_row c amount = content_row_of demo_crates 0 (replicate 32 1) (demo_content c) amount [c]"

definition demo_db :: db where
  "demo_db = db_empty\<lparr>content_tbl := [demo_row 65 1000, demo_row 66 3000]\<rparr>"

lemma demo_digest:
  "c < 128 \<Longrightarrow> ad_digest demo_crates (ad (demo_content c)) = 1 # 0 # of_nat c # replicate 29 0"
  using demo_text(1) [of c] by (simp add: ad_digest_def ad_serialize_def demo_crates_def)

lemma demo_row_sel:
  assumes "c < 128"
  shows "row_id (demo_row c amount) = demo_hex (1 # 0 # of_nat c # replicate 29 0)"
    and "row_height (demo_row c amount) = 0" and "row_term (demo_row c amount) = 5"
    and "row_length (demo_row c amount) = 3" and "row_weight (demo_row c amount) = ucast (amount div 3)"
    and "row_block_id (demo_row c amount) = demo_hex (replicate 32 1)"
    and "row_ok demo_crates (demo_row c amount)"
    and "row_key demo_crates (demo_row c amount) = \<lparr>digest = 1 # 0 # of_nat c # replicate 29 0\<rparr>"
proof -
  have len: "content_length demo_crates (demo_content c) = 3"
    using demo_text(1) [OF assms] by (simp add: content_length_def ad_serialize_def demo_crates_def)
  show "row_id (demo_row c amount) = demo_hex (1 # 0 # of_nat c # replicate 29 0)"
    using demo_digest [OF assms] by (simp add: demo_row_def content_row_of_def demo_crates_def)
  show "row_length (demo_row c amount) = 3" "row_weight (demo_row c amount) = ucast (amount div 3)"
    by (simp_all add: demo_row_def content_row_of_def len)
  show "row_key demo_crates (demo_row c amount) = \<lparr>digest = 1 # 0 # of_nat c # replicate 29 0\<rparr>"
    "row_ok demo_crates (demo_row c amount)"
    using row_ok_content_row_of [OF demo_crates_ok] demo_digest [OF assms] by (simp_all add: demo_row_def)
qed (simp_all add: demo_row_def content_row_of_def demo_content_def demo_crates_def)

lemma demo_row_ids: "row_id (demo_row 65 a) \<noteq> row_id (demo_row 66 b)"
proof
  assume "row_id (demo_row 65 a) = row_id (demo_row 66 b)"
  then have "demo_unhex (row_id (demo_row 65 a)) = demo_unhex (row_id (demo_row 66 b))" by simp
  then show False by (simp add: demo_row_sel demo_unhex_hex)
qed

lemma demo_db_ok: "db_ok demo_crates demo_db"
  by (simp add: db_ok_def demo_db_def demo_row_ids demo_row_sel(7))

lemma demo_total: "total_length (content_tbl demo_db) < 2 ^ 64"
  by (simp add: demo_db_def total_length_def demo_row_sel)

theorem truncate_content_spec_witness:
  "crates_ok demo_crates \<and> db_ok demo_crates demo_db \<and> total_length (content_tbl demo_db) < 2 ^ 64
   \<and> (\<exists>keys dropped d'. truncate_content demo_crates 4 demo_db = Ok (keys, d')
    \<and> keys = map (row_key demo_crates) dropped
    \<and> mset (content_tbl demo_db) = mset (content_tbl d') + mset dropped
    \<and> total_length (content_tbl d') \<le> unat (4 :: u64)
    \<and> (\<forall>r \<in> set (content_tbl d'). \<forall>q \<in> set dropped. row_weight q \<le> row_weight r)
    \<and> (dropped \<noteq> [] \<longrightarrow> unat (4 :: u64) < total_length (content_tbl d') + unat (row_length (hd dropped)))
    \<and> db_ok demo_crates d')"
  using truncate_content_spec [OF demo_crates_ok demo_db_ok demo_total] demo_crates_ok demo_db_ok demo_total
  by blast

lemma delete_expired_spec_example:
  "\<exists>keys d'. delete_expired demo_crates 5 demo_db = Ok (keys, d') \<and> db_ok demo_crates d'
    \<and> set (content_tbl d') =
        {r \<in> set (content_tbl demo_db). unat (5 :: u32) < unat (row_height r) + unat (row_term r)}
    \<and> mset (content_keys demo_crates demo_db) = mset keys + mset (content_keys demo_crates d')"
  by (rule delete_expired_spec [OF demo_crates_ok demo_db_ok])

lemma delete_confirmed_spec_example:
  "\<exists>keys d'. delete_confirmed demo_crates (replicate 32 1) demo_db = Ok (keys, d') \<and> db_ok demo_crates d'
    \<and> set (content_tbl d') =
        {r \<in> set (content_tbl demo_db). row_block_id r \<noteq> sha256d_to_hex demo_crates (replicate 32 1)}
    \<and> mset (content_keys demo_crates demo_db) = mset keys + mset (content_keys demo_crates d')"
  by (rule delete_confirmed_spec [OF demo_crates_ok demo_db_ok])

lemma demo_stored:
  "store_content demo_crates 0 (replicate 32 1) (demo_content 65) 1000 db_empty =
     Ok (1, db_empty\<lparr>content_tbl := [demo_row 65 1000]\<rparr>)"
  using store_content_eq [OF demo_crates_ok demo_fits [of 65] demo_text(2) [of 65], of 0 "replicate 32 1" 1000 db_empty]
  by (simp add: demo_row_def upsert_def db_empty_def)

theorem content_roundtrip_witness:
  "canonical_text demo_crates (ad_content (ad (demo_content 65)))
   \<and> store_content demo_crates 0 (replicate 32 1) (demo_content 65) 1000 db_empty =
       Ok (1, db_empty\<lparr>content_tbl := [demo_row 65 1000]\<rparr>)
   \<and> read_content demo_crates (ad_digest demo_crates (ad (demo_content 65)))
       (db_empty\<lparr>content_tbl := [demo_row 65 1000]\<rparr>) = Ok (Some (demo_content 65))"
  using content_roundtrip [OF demo_crates_ok demo_text(3) demo_stored] demo_text(3) demo_stored by simp

text \<open>The letter A as uncompressed UTF-16: a valid encoding, and not the one \<^verbatim>\<open>Text::new\<close> chooses.\<close>

definition demo_odd_content :: "(unit, unit) content" where
  "demo_odd_content = (demo_content 65)\<lparr>ad := \<lparr>ad_cat = [], ad_abs = [], ad_content = \<lparr>encoded = [1, 65, 0]\<rparr>\<rparr>\<rparr>"

lemma content_reencoded_example:
  "text_as_string (texts demo_crates) (ad_content (ad demo_odd_content)) = Ok (Inr [65])
   \<and> (\<exists>d' c'. store_content demo_crates 0 (replicate 32 1) demo_odd_content 1000 db_empty = Ok (1, d')
        \<and> read_content demo_crates (ad_digest demo_crates (ad demo_odd_content)) d' = Ok (Some c')
        \<and> ad c' \<noteq> ad demo_odd_content)"
proof -
  have t: "text_as_string (texts demo_crates) (ad_content (ad demo_odd_content)) = Ok (Inr [65])"
    by (simp add: demo_odd_content_def demo_crates_def text_as_string_def demo_text_crates_def UTF_16_def
        COMPRESSED_def from_utf16_def)
  have "text_new (texts demo_crates) [65] = \<lparr>encoded = [0, 65]\<rparr>"
    using demo_text(1) [of 65] by (simp add: demo_content_def ad_new_def)
  then have "text_new (texts demo_crates) [65] \<noteq> ad_content (ad demo_odd_content)"
    by (simp add: demo_odd_content_def)
  moreover have "ad_fits demo_crates (ad demo_odd_content)"
    by (simp add: ad_fits_def ad_serialize_def demo_crates_def demo_odd_content_def)
  ultimately show ?thesis
    using content_reencoded [OF demo_crates_ok _ t] t by blast
qed

section \<open>Wallet\<close>

definition demo_coin :: "out_point \<times> coin" where
  "demo_coin =
     (\<lparr>op_txid = replicate 32 7, op_vout = 0\<rparr>,
      \<lparr>coin_output = \<lparr>out_value = 10000, script_pubkey = [4]\<rparr>,
       derivation = \<lparr>kd_account = 0, kd_sub = 0, kd_kix = 3, kd_tweak = Some [1], kd_csv = None\<rparr>\<rparr>)"

definition demo_wallet_crates :: "(unit, unit, (out_point \<times> coin) list, unit, unit) wallet_crates" where
  "demo_wallet_crates =
     \<lparr>coins_new = [], confirmed_balance = (\<lambda>_. 10000), unconfirmed_balance = (\<lambda>_. 0),
      coins_available_balance = (\<lambda>_ _ _. 10000), coins_unwind_tip = (\<lambda>c _. c),
      coins_process = (\<lambda>c m _. (False, c, m)), coins_process_unconfirmed = (\<lambda>c m _. (c, m)),
      choose_inputs = (\<lambda>c _ _ _. map (\<lambda>(p, x). (p, x, 0)) c), confirmed_coins = (\<lambda>c. c),
      unconfirmed_coins = (\<lambda>_. []), coin_proofs = map (\<lambda>(p, _). (op_txid p, ())),
      add_confirmed = (\<lambda>c p x _. c @ [(p, x)]), unlocker_new = (\<lambda>_ _. Inr ()), has_account = (\<lambda>_ _. True),
      next_key = (\<lambda>_ _. Some ([8], ())), add_script_key = (\<lambda>_ _ _ _ _. Some (0, ())),
      key_script = (\<lambda>_ _ _. Some [9]), base_public_key = (\<lambda>_ _ _. Some ()), look_ahead = (\<lambda>_ _ _. Some ()),
      sign = (\<lambda>_ _ _ tx. Inr (length (tx_input tx), tx)), get_weight = (\<lambda>_. 400),
      account_numbers = (\<lambda>_. []), account_columns = (\<lambda>_ _. Some (0, '''', [])),
      hex_encode = demo_hex, hex_decode = (\<lambda>s. Some (demo_unhex s))\<rparr>"

definition demo_wallet :: "((out_point \<times> coin) list, unit) wallet" where
  "demo_wallet = \<lparr>coins = [demo_coin], master = ()\<rparr>"

definition demo_header :: block_header where
  "demo_header = \<lparr>hd_version = 1, prev_blockhash = replicate 32 0, merkle_root = replicate 32 2,
     hd_time = 1567260002, hd_bits = 0, hd_nonce = 0\<rparr>"

definition demo_trunk :: trunk where
  "demo_trunk = test_trunk demo_crates [demo_header]"

lemma demo_signing_ok: "signing_ok demo_wallet_crates"
  by (simp add: signing_ok_def demo_wallet_crates_def)

theorem spend_terminates_witness:
  "wallet_fund demo_wallet_crates (\<lambda>_. 0) 2 (replicate 32 0) 5 '''' 1 2000 demo_trunk (\<lambda>_ _. []) demo_wallet \<noteq> None
   \<and> wallet_withdraw demo_wallet_crates (\<lambda>_. 0) 2 '''' [6] 1 None demo_trunk demo_wallet \<noteq> None"
  by (rule spend_terminates [OF demo_signing_ok]) simp

definition demo_withdraw :: "u64 \<Rightarrow> u64 \<Rightarrow> transaction" where
  "demo_withdraw amount fee =
     \<lparr>tx_version = 2, lock_time = 0,
      tx_input = [\<lparr>previous_output = fst demo_coin, script_sig = [], sequence = RBF, tx_witness = []\<rparr>],
      tx_output = [\<lparr>out_value = 10000 - amount, script_pubkey = [8]\<rparr>,
                   \<lparr>out_value = amount - fee, script_pubkey = [6]\<rparr>]\<rparr>"

lemmas demo_wallet_simps =
  wallet_withdraw_def spend_def spend_tx_def spend_input_def coin_value_sum_def demo_wallet_def demo_coin_def
  demo_wallet_crates_def demo_withdraw_def spend_outputs_def spend_fee_def clamp_fee_def DUST_def
  MAX_FEE_PER_VBYTE_def MIN_FEE_PER_VBYTE_def Let_def

lemma demo_withdraw_ok:
  "wallet_withdraw demo_wallet_crates (\<lambda>_. 0) (Suc (Suc 0)) '''' [6] 1 (Some 2000) demo_trunk demo_wallet =
     Some (Ok (demo_withdraw 2000 100, 100), demo_wallet)"
  by (simp add: demo_wallet_simps)

lemma demo_withdraw_wraps:
  "wallet_withdraw demo_wallet_crates (\<lambda>_. 0) (Suc (Suc 0)) '''' [6] 100 (Some 600) demo_trunk demo_wallet =
     Some (Ok (demo_withdraw 600 10000, 10000), demo_wallet)"
  by (simp add: demo_wallet_simps)

theorem withdraw_conserves_witness:
  "\<exists>cs. cs = choose_inputs demo_wallet_crates (coins demo_wallet) 2000 (trunk_len demo_trunk) (get_height demo_trunk)
    \<and> map previous_output (tx_input (demo_withdraw 2000 100)) = map fst cs
    \<and> \<lparr>out_value = 2000 - 100, script_pubkey = [6]\<rparr> \<in> set (tx_output (demo_withdraw 2000 100))
    \<and> DUST < 2000 - 100
    \<and> sum_list (map (\<lambda>x. unat (out_value x)) (tx_output (demo_withdraw 2000 100))) + unat (100 :: u64)
        \<le> unat (coin_value_sum cs)
    \<and> unat (coin_value_sum cs) \<le>
        sum_list (map (\<lambda>x. unat (out_value x)) (tx_output (demo_withdraw 2000 100))) + unat (100 :: u64) + unat DUST"
  by (rule withdraw_conserves [OF demo_signing_ok demo_withdraw_ok]) simp

lemma withdraw_underflow_example:
  "(600 :: u64) < 10000 \<and> (\<exists>x \<in> set (tx_output (demo_withdraw 600 10000)). 2 ^ 63 \<le> unat (out_value x))"
  using withdraw_underflow [OF demo_signing_ok demo_withdraw_wraps] by simp

lemma demo_coins_ok: "coins_ok demo_wallet_crates [demo_coin]" "hex_ok demo_wallet_crates"
  by (simp_all add: coins_ok_def hex_ok_def demo_wallet_crates_def demo_coin_def DIGEST_LEN_def demo_unhex_hex)
    (simp add: demo_hex_def)

definition demo_coin_row :: coin_row where
  "demo_coin_row = \<lparr>coin_txid = demo_hex (replicate 32 7), coin_vout = 0, coin_value = 10000, coin_script = [4],
     coin_account = 0, coin_sub = 0, coin_kix = 3, coin_tweak = Some (demo_hex [1]), coin_csv = None, coin_proof = []\<rparr>"

lemma demo_store_coins:
  "store_coins demo_crates demo_wallet_crates [demo_coin] db_empty =
     Ok (db_empty\<lparr>coins_tbl := [demo_coin_row]\<rparr>)"
  by (simp add: store_coins_def coin_row_of_def demo_wallet_crates_def demo_coin_def demo_crates_def
      read_unconfirmed_def db_empty_def demo_coin_row_def Let_def demo_hex_def)

theorem coins_roundtrip_witness:
  "read_coins demo_crates demo_wallet_crates () (db_empty\<lparr>coins_tbl := [demo_coin_row]\<rparr>) = Ok ([demo_coin], ())"
proof -
  have "read_unconfirmed demo_crates (db_empty\<lparr>coins_tbl := [demo_coin_row]\<rparr>) = Ok []"
    by (simp add: read_unconfirmed_def db_empty_def)
  from coins_roundtrip [OF demo_crates_ok demo_coins_ok(2,1) demo_store_coins this, of "()"] show ?thesis
    by (simp add: demo_wallet_crates_def proved_coin_def)
qed

section \<open>Store\<close>

definition demo_open :: "db \<Rightarrow> ((out_point \<times> coin) list, unit) store" where
  "demo_open d =
     \<lparr>sdb = d, storage_limit = 4, iblts = [],
      smin_sketch = sketch_of (content_key_ops demo_hash) (generate_ksequence demo_hash MIN_SKETCH_SIZE K0 K1)
        (set (content_keys demo_crates d)),
      sksequence = generate_ksequence demo_hash MIN_SKETCH_SIZE K0 K1,
      n_keys = of_nat (length (content_keys demo_crates d)), swallet = demo_wallet, txout = True, sent = []\<rparr>"

lemma demo_hashing: "hashing demo_crates = demo_hash"
  by (simp add: demo_crates_def)

lemma demo_new: "db_ok demo_crates d \<Longrightarrow> store_new demo_crates d 4 demo_wallet = Ok ((demo_open d)\<lparr>txout := False\<rparr>)"
  by (simp add: store_new_def compute_content_sketch_eq [OF demo_crates_ok] demo_open_def demo_hashing)

lemma demo_open_ok: "db_ok demo_crates d \<Longrightarrow> store_ok demo_crates (demo_open d)"
  by (simp add: store_ok_def demo_open_def tables_for_def sketch_for_def demo_hashing)

definition demo_cached :: "((out_point \<times> coin) list, unit) store" where
  "demo_cached = (case get_iblt demo_crates 100 (demo_open demo_db) of Ok (t, s) \<Rightarrow> s | _ \<Rightarrow> demo_open demo_db)"

lemma demo_cached:
  "store_ok demo_crates demo_cached" "iblts demo_cached \<noteq> []" "sdb demo_cached = demo_db"
  using get_iblt_table [OF demo_crates_ok demo_open_ok [OF demo_db_ok], of 100]
  by (auto simp: demo_cached_def demo_open_def)

lemma db_empty_ok: "db_ok demo_crates db_empty"
  by (simp add: db_ok_def db_empty_def)

definition demo_out :: tx_out where
  "demo_out = \<lparr>out_value = 1000, script_pubkey = [5]\<rparr>"

lemma demo_funded: "funded demo_crates demo_trunk (demo_content c) 0 demo_header demo_out"
  by (simp add: funded_def demo_trunk_def test_trunk_def demo_crates_def demo_content_def demo_header_def
      demo_tx_def funding_address_def funding_script_def demo_out_def)

theorem add_header_keeps_witness:
  "iblts demo_cached \<noteq> [] \<and> (\<exists>s'. add_header demo_crates 5 demo_header demo_cached = Ok s' \<and> store_ok demo_crates s'
    \<and> set (content_tbl (sdb s')) =
        {r \<in> set (content_tbl (sdb demo_cached)). unat (5 :: u32) < unat (row_height r) + unat (row_term r)})"
  using add_header_keeps [OF demo_crates_ok demo_cached(1,2)] demo_cached(2) by blast

theorem unwind_tip_keeps_witness:
  "\<exists>s'. unwind_tip demo_crates demo_wallet_crates demo_header demo_cached = Ok s' \<and> store_ok demo_crates s'
    \<and> set (content_tbl (sdb s')) = {r \<in> set (content_tbl (sdb demo_cached)).
        row_block_id r \<noteq> sha256d_to_hex demo_crates (header_hash demo_crates demo_header)}
    \<and> processed_tbl (sdb s') = Some (sha256d_to_hex demo_crates (prev_blockhash demo_header))
    \<and> swallet s' = wallet_unwind_tip demo_wallet_crates (header_hash demo_crates demo_header) (swallet demo_cached)"
  by (rule unwind_tip_keeps [OF demo_crates_ok demo_cached(1,2)])

lemma truncate_to_limit_keeps_example:
  "\<exists>s'. truncate_to_limit demo_crates demo_cached = Ok s' \<and> store_ok demo_crates s'
    \<and> total_length (content_tbl (sdb s')) \<le> unat (storage_limit demo_cached)
    \<and> set (content_tbl (sdb s')) \<subseteq> set (content_tbl (sdb demo_cached))"
  by (rule truncate_to_limit_keeps [OF demo_crates_ok demo_cached(1,2)]) (use demo_total in \<open>simp add: demo_cached(3)\<close>)

lemma add_header_stale_example:
  "iblts (demo_open demo_db) = []
   \<and> (\<exists>s'. add_header demo_crates 5 demo_header (demo_open demo_db) = Ok s'
        \<and> get_sketch s' = get_sketch (demo_open demo_db)
        \<and> length (content_tbl (sdb s')) < unat (get_nkeys s'))"
proof -
  have "demo_row 65 1000 \<in> set (content_tbl (sdb (demo_open demo_db)))"
    by (simp add: demo_open_def demo_db_def)
  then show ?thesis
    using add_header_stale [OF demo_crates_ok demo_open_ok [OF demo_db_ok], of "demo_row 65 1000" 5 demo_header]
    by (simp add: demo_row_sel) (simp add: demo_open_def demo_db_def)
qed

text \<open>The same ad with another term: the script in the block does not commit to it.\<close>

theorem add_content_rejects_witness:
  "add_content demo_crates demo_trunk ((demo_content 65)\<lparr>content_term := 6\<rparr>) (demo_open db_empty)
     = Ok (False, demo_open db_empty)"
  by (rule add_content_rejects)
    (simp_all add: funded_def demo_crates_def demo_content_def demo_tx_def funding_address_def funding_script_def)

lemma demo_new_key:
  "\<lparr>digest = ad_digest demo_crates (ad (demo_content 65))\<rparr> \<notin> set (content_keys demo_crates (sdb (demo_open db_empty)))"
  "\<lparr>digest = ad_digest demo_crates (ad (demo_content 65))\<rparr> \<in> set (content_keys demo_crates (sdb demo_cached))"
  by (simp add: demo_open_def content_keys_def db_empty_def)
    (simp add: demo_cached(3) content_keys_def demo_db_def demo_row_sel demo_digest)

theorem add_content_new_witness:
  "\<exists>s'. add_content demo_crates demo_trunk (demo_content 65) (demo_open db_empty) = Ok (True, s')
    \<and> store_ok demo_crates s'
    \<and> content_tbl (sdb s') = content_tbl (sdb (demo_open db_empty))
        @ [content_row_of demo_crates 0 (header_hash demo_crates demo_header) (demo_content 65) (out_value demo_out) [65]]"
  by (rule add_content_new [OF demo_crates_ok demo_open_ok [OF db_empty_ok] demo_funded demo_fits demo_text(2)
        demo_new_key(1)]) simp_all

lemma demo_65: "(65 :: nat) < 128"
  by simp

theorem add_content_again_witness:
  "\<exists>s'. add_content demo_crates demo_trunk (demo_content 65) demo_cached = Ok (True, s')
    \<and> iblts s' \<noteq> [] \<and> (\<forall>(n, t) \<in> set (iblts s'). compute_content_iblt demo_crates n (sdb s') \<noteq> Ok t)
    \<and> get_nkeys s' = get_nkeys demo_cached + 1 \<and> \<not> store_ok demo_crates s'"
proof -
  obtain s' where "add_content demo_crates demo_trunk (demo_content 65) demo_cached = Ok (True, s')"
    "map fst (iblts s') = map fst (iblts demo_cached)"
    "\<forall>(n, t) \<in> set (iblts s'). content_table demo_crates n (\<lparr>digest = ad_digest demo_crates (ad (demo_content 65))\<rparr>
        # content_keys demo_crates (sdb s')) = Ok t \<and> compute_content_iblt demo_crates n (sdb s') \<noteq> Ok t"
    "get_nkeys s' = get_nkeys demo_cached + 1" "\<not> store_ok demo_crates s'"
    using add_content_again [OF demo_crates_ok demo_cached(1) demo_funded demo_fits demo_text(2) refl demo_new_key(2), OF demo_65 demo_65]
    by blast
  moreover from this(2) have "iblts s' \<noteq> []" using demo_cached(2) by auto
  ultimately show ?thesis by (intro exI [of _ s']) auto
qed

lemma zero_size_table_example:
  "get_iblt demo_crates 0 demo_cached = Panic Rem_by_zero"
  using zero_size_table [OF demo_crates_ok demo_cached(1)] by (simp add: demo_cached(3) demo_db_def)

lemma fund_records_uncapped_term_example:
  "\<exists>t f s' s''. store_fund demo_crates demo_wallet_crates (\<lambda>_. 0) (Suc (Suc 0)) demo_trunk (replicate 32 0) 5000
       2000 1 '''' (demo_open db_empty) = Some (Ok (t, (), f), s')
    \<and> store_fund demo_crates demo_wallet_crates (\<lambda>_. 0) (Suc (Suc 0)) demo_trunk (replicate 32 0) (min MAX_TERM 5000)
       2000 1 '''' (demo_open db_empty) = Some (Ok (t, (), f), s'')
    \<and> find (\<lambda>r. txo_txid r = sha256d_to_hex demo_crates (txid demo_crates t)) (txout_tbl (sdb s'))
      = Some \<lparr>txo_txid = sha256d_to_hex demo_crates (txid demo_crates t), txo_tx = serialize_tx demo_crates t,
              txo_confirmed = None, txo_publisher = Some (pk_to_bytes demo_crates ()),
              txo_id = Some (sha256_to_hex demo_crates (replicate 32 0)), txo_term = Some 5000\<rparr>"
proof -
  have "\<exists>t f s'. store_fund demo_crates demo_wallet_crates (\<lambda>_. 0) (Suc (Suc 0)) demo_trunk (replicate 32 0) 5000
       2000 1 '''' (demo_open db_empty) = Some (Ok (t, (), f), s')"
    by (simp add: store_fund_def wallet_fund_def commit_to_ad_def demo_open_def store_account_def demo_wallet_simps)
  then show ?thesis
    using fund_records_uncapped_term [of demo_crates demo_wallet_crates "\<lambda>_. 0" "Suc (Suc 0)" demo_trunk
        "replicate 32 0" 5000 2000 1 "''''" "demo_open db_empty"] by blast
qed

definition demo_retrieved :: "u16 \<Rightarrow> retrieved_content" where
  "demo_retrieved n = \<lparr>ret_id = '''', ret_cat = [], ret_abs = [], ret_text = [], ret_publisher = '''',
     ret_height = 0, ret_term = n, ret_length = 3, ret_weight = 1\<rparr>"

lemma readable_end_example:
  "\<exists>rd. readable_new demo_trunk (demo_retrieved 110) = Ok rd \<and> rd_start rd = ucast (hd_time demo_header)
    \<and> (unat (rd_end rd) = unat (hd_time demo_header) + 600 * unat (ret_term (demo_retrieved 110))
       \<longleftrightarrow> unat (ret_term (demo_retrieved 110)) < 110)"
  by (rule readable_end) (simp_all add: demo_trunk_def test_trunk_def demo_retrieved_def)

lemma demo_reaches:
  "reaches demo_crates step demo_db ((demo_open demo_db)\<lparr>txout := False\<rparr>)"
  by (rule reaches_new [OF demo_new [OF demo_db_ok]])

lemma reaches_db_ok_example:
  "\<exists>s'. reaches demo_crates (store_step demo_crates demo_wallet_crates) demo_db s'
     \<and> add_header demo_crates 5 demo_header ((demo_open demo_db)\<lparr>txout := False\<rparr>) = Ok s' \<and> db_ok demo_crates (sdb s')"
proof -
  let ?s = "(demo_open demo_db)\<lparr>txout := False\<rparr>"
  have "store_ok demo_crates ?s"
    using demo_open_ok [OF demo_db_ok] by (simp add: store_ok_def sketch_for_def)
  then obtain s' where s': "add_header demo_crates 5 demo_header ?s = Ok s'"
    using expired.handler_stale [OF demo_crates_ok, of ?s 5] by (auto simp: add_header_def demo_open_def)
  have "reaches demo_crates (store_step demo_crates demo_wallet_crates) demo_db s'"
    by (rule reaches_step, rule demo_reaches, rule step_header, rule s')
  with reaches_db_ok [OF demo_crates_ok demo_db_ok this] s' show ?thesis by blast
qed

theorem careful_runs_consistent_witness:
  "\<exists>t s'. get_iblt demo_crates 100 ((demo_open demo_db)\<lparr>txout := False\<rparr>) = Ok (t, s')
     \<and> reaches demo_crates (careful_step demo_crates demo_wallet_crates) demo_db s' \<and> store_ok demo_crates s'"
proof -
  let ?s = "(demo_open demo_db)\<lparr>txout := False\<rparr>"
  have "store_ok demo_crates ?s"
    using demo_open_ok [OF demo_db_ok] by (simp add: store_ok_def sketch_for_def)
  then obtain t s' where s': "get_iblt demo_crates 100 ?s = Ok (t, s')"
    using get_iblt_table [OF demo_crates_ok, of ?s 100] by auto
  have "reaches demo_crates (careful_step demo_crates demo_wallet_crates) demo_db s'"
    by (rule reaches_step, rule demo_reaches, rule careful_serve [OF _ s']) simp
  with careful_runs_consistent [OF demo_crates_ok demo_db_ok this] s' show ?thesis by blast
qed

section \<open>Updater\<close>

lemma no_false_pure_one: "no_false_pure K t [(k, d)]"
proof -
  have "set (subseqs (entries_at K t n [(k, d)])) \<subseteq> {[], [(k, d)]}" for n
    by (auto simp: entries_at_def)
  moreover have "\<not> bucket_pure K t (bsum K t [])"
    by (simp add: bucket_pure_def i32_abs_def)
  ultimately show ?thesis by (fastforce simp: no_false_pure_def)
qed

definition demo_db1 :: db where
  "demo_db1 = db_empty\<lparr>content_tbl := [demo_row 65 1000]\<rparr>"

lemma demo_db1_ok: "db_ok demo_crates demo_db1"
  by (simp add: db_ok_def demo_db1_def demo_row_sel(7))

lemma demo_tip: "store_get_tip demo_crates demo_trunk = Some (replicate 32 1)"
  by (simp add: store_get_tip_def demo_trunk_def test_trunk_def demo_crates_def)

text \<open>A node with nothing receives the table of a node with one ad.\<close>

lemma requests_missing_content_example:
  "\<exists>t theirs' s' request. get_iblt demo_crates 100 (demo_open demo_db1) = Ok (t, theirs')
    \<and> on_content_iblt demo_crates 3 demo_trunk (0 :: nat) (replicate 32 1) t (demo_open db_empty) = Ok (Some (s',
        if request \<noteq> []
        then [Received 0 1 Expect_ContentIBLT, Expect 0 (length request) Expect_Content, Send_network 0 (Get request)]
        else [Received 0 1 Expect_ContentIBLT]))
    \<and> store_ok demo_crates s' \<and> distinct request
    \<and> set request \<subseteq> digest ` set (content_keys demo_crates demo_db1)"
proof -
  obtain t theirs' where t: "get_iblt demo_crates 100 (demo_open demo_db1) = Ok (t, theirs')"
    using get_iblt_table [OF demo_crates_ok demo_open_ok [OF demo_db1_ok], of 100] by auto
  obtain t0 where t0: "iblt_new (hashing demo_crates) (content_key_ops (hashing demo_crates)) 100 NH K0 K1 = Ok t0"
    using fresh_table [of 100 demo_crates] by auto
  have keys: "content_keys demo_crates (sdb (demo_open db_empty)) = []"
    "content_keys demo_crates (sdb (demo_open demo_db1)) = [row_key demo_crates (demo_row 65 1000)]"
    by (simp_all add: demo_open_def content_keys_def db_empty_def demo_db1_def)
  have nfp: "no_false_pure (content_key_ops (hashing demo_crates)) t0
      (diff_entries (content_keys demo_crates (sdb (demo_open demo_db1))) (content_keys demo_crates (sdb (demo_open db_empty))))"
    by (simp add: keys diff_entries_def no_false_pure_one)
  have "length (content_keys demo_crates (sdb (demo_open demo_db1)))
      + length (content_keys demo_crates (sdb (demo_open db_empty))) + 2 \<le> 3"
    by (simp add: keys)
  from requests_missing_content [OF demo_crates_ok demo_open_ok [OF db_empty_ok] demo_open_ok [OF demo_db1_ok] _ t
      demo_tip t0 nfp this, of 0] obtain s' request where
    "on_content_iblt demo_crates 3 demo_trunk (0 :: nat) (replicate 32 1) t (demo_open db_empty) = Ok (Some (s',
        if request \<noteq> []
        then [Received 0 1 Expect_ContentIBLT, Expect 0 (length request) Expect_Content, Send_network 0 (Get request)]
        else [Received 0 1 Expect_ContentIBLT]))"
    "store_ok demo_crates s'" "distinct request"
    "set request \<subseteq> digest ` (set (content_keys demo_crates (sdb (demo_open demo_db1)))
        - set (content_keys demo_crates (sdb (demo_open db_empty))))"
    by auto
  with t show ?thesis by (auto simp: demo_open_def)
qed

lemma get_delivers_example:
  "\<exists>cs. on_get demo_crates (0 :: nat) [ad_digest demo_crates (ad (demo_content 65))] demo_cached
      = Ok (map (\<lambda>c. Send_network 0 (Content c)) cs)
    \<and> length cs = length [ad_digest demo_crates (ad (demo_content 65))]
    \<and> (\<forall>i < length [ad_digest demo_crates (ad (demo_content 65))].
          read_content demo_crates ([ad_digest demo_crates (ad (demo_content 65))] ! i) (sdb demo_cached)
            = Ok (Some (cs ! i)))"
proof (rule get_delivers [OF demo_crates_ok])
  show "db_ok demo_crates (sdb demo_cached)" by (simp add: demo_cached(3) demo_db_ok)
  show "set [ad_digest demo_crates (ad (demo_content 65))] \<subseteq> digest ` set (content_keys demo_crates (sdb demo_cached))"
    using demo_new_key(2) by (auto intro: rev_image_eqI)
qed

lemma get_unknown_panics_example:
  "on_get demo_crates (0 :: nat) [replicate 32 9] (demo_open db_empty) = Panic (Expect_failed ''can not read content'')"
  by (rule get_unknown_panics [OF demo_crates_ok, where i = "replicate 32 9"])
    (simp_all add: demo_open_def db_empty_ok, simp add: db_empty_def)

lemma malformed_messages_panic_example:
  "on_poll_content demo_crates demo_trunk (0 :: nat) \<lparr>pc_tip = replicate 32 1, pc_sketch = [], pc_size = 0\<rparr>
     (demo_cached, [0 \<mapsto> \<lparr>pc_tip = replicate 32 1, pc_sketch = [1], pc_size = 0\<rparr>]) = Panic Assert_failed
   \<and> on_content_iblt demo_crates 3 demo_trunk (0 :: nat) (replicate 32 1) demo_table demo_cached = Panic Assert_failed"
  by (rule malformed_messages_panic [OF demo_crates_ok demo_cached(1) demo_tip,
        where q = "\<lparr>pc_tip = replicate 32 1, pc_sketch = [1], pc_size = 0\<rparr>"])
    (simp_all add: demo_table_def iblt_len_def K0_def)

end
