(* ===== verification/Bitcoin_Net.thy ===== *)
theory Bitcoin_Net
  imports Content Net_Address
begin

text \<open>
  The interface of the crates \<^verbatim>\<open>bitcoin\<close> and \<^verbatim>\<open>murmel\<close> that the threads on the Bitcoin network
  use: the messages of that network, what the network layer reports to a thread, and what a
  thread does. The header chain with its proof of work check is a type \<open>'d\<close> with the
  functions the sources call on it.
\<close>

section \<open>Messages\<close>

datatype inv_type = Inv_Error | Inv_Transaction | Inv_Block | Inv_WitnessBlock | Inv_WitnessTransaction

record inventory =
  inv_kind :: inv_type
  inv_hash :: hash

text \<open>
  A network address of the message \<^verbatim>\<open>addr\<close>: when it was seen, the services it claims and the
  socket address, if it has one.
\<close>

record addr_entry =
  ae_last_seen :: u32
  ae_services :: u64
  ae_socket :: "socket_addr option"

datatype network_message =
    Headers "block_header list"
  | Inv "inventory list"
  | GetData "inventory list"
  | GetHeaders "hash list" hash
  | Block_msg block
  | Tx_msg transaction
  | Addr "addr_entry list"
  | Other_msg

text \<open>\<^verbatim>\<open>PeerMessage\<close>: what reaches a thread. Peers are values of a type \<open>'i\<close>.\<close>

datatype 'i peer_message =
    Connected 'i "socket_addr option"
  | Disconnected 'i bool
  | Incoming 'i network_message
  | Outgoing network_message

datatype bitcoin_reply = Expect_Headers | Expect_Block

text \<open>
  What a thread does, in order: to the network, to the timeout book-keeping, and to the
  \<^verbatim>\<open>Downstream\<close> of the block download, which is the content store.
\<close>

datatype 'i net_action =
    Send_to 'i network_message
  | Send_random network_message
  | Expect_reply 'i nat bitcoin_reply
  | Received_reply 'i nat bitcoin_reply
  | Ban 'i u32
  | Set_height u32
  | Check_replies "bitcoin_reply list"
  | Block_connected block u32
  | Header_connected block_header u32
  | Block_disconnected block_header

section \<open>The header chain\<close>

text \<open>
  \<open>chain_add_header\<close> is \<^verbatim>\<open>ChainDB::add_header\<close>: an error, nothing for a known or orphan header,
  or the stored header with the headers that left the trunk and those that joined it, if the
  trunk moved. \<open>view\<close> gives the functions that only read.
\<close>

datatype chain_error = SpvBadProofOfWork | Chain_error string

record 'd chain_crate =
  view :: "'d \<Rightarrow> chaindb"
  chain_add_header ::
    "'d \<Rightarrow> block_header \<Rightarrow> (chain_error + (cached_header \<times> hash list option \<times> hash list option) option) \<times> 'd"
  header_locators :: "'d \<Rightarrow> hash list"

text \<open>\<^verbatim>\<open>SERVICE_BLOCKS\<close> of \<^verbatim>\<open>murmel\<close>: the first service bit.\<close>

definition SERVICE_BLOCKS :: u64 where
  "SERVICE_BLOCKS = 1"

end
