(* ===== verification/Block_Download.thy ===== *)
theory Block_Download
  imports Bitcoin_Net
begin

text \<open>
  The download of headers and blocks, \<^verbatim>\<open>src/blockdownload.rs\<close>: the queue of wanted blocks, the
  blocks asked from the download peer, and every handler of the thread. \<open>busy\<close> is the answer of
  the timeout book-keeping to \<^verbatim>\<open>is_busy_with\<close>; \<open>services\<close> are those of the version message of a
  connected peer.
\<close>

section \<open>State\<close>

record 'i block_download =
  blocks_wanted :: "(hash \<times> u32) list"
  blocks_asked :: "(hash \<times> u32) list"
  download_peer :: "'i option"
  birth :: u64

text \<open>
  The loop of \<^verbatim>\<open>BlockDownload::new\<close> walks back from the tip to the last processed block, to a
  header older than the birth of the wallet, or to the genesis block. \<open>None\<close>: the loop has not
  ended within \<open>fuel\<close> rounds.
\<close>

fun wanted_loop ::
  "chaindb \<Rightarrow> hash \<Rightarrow> u64 \<Rightarrow> nat \<Rightarrow> hash \<Rightarrow> cached_header \<Rightarrow> (hash \<times> u32) list
   \<Rightarrow> (hash \<times> u32) list outcome option" where
  "wanted_loop D stop_at born 0 block_hash h wanted = None"
| "wanted_loop D stop_at born (Suc fuel) block_hash h wanted =
     (if block_hash = stop_at then Some (Ok wanted)
      else let wanted' = (block_hash, stored_height h) # wanted;
               prev = prev_blockhash (stored_header h)
           in if prev \<noteq> hash_default
              then (case cdb_get_header D prev of
                      None \<Rightarrow> Some (Panic (Expect_failed ''inconsistent header cache''))
                    | Some h' \<Rightarrow>
                        if ucast (hd_time (stored_header h')) < born then Some (Ok wanted')
                        else wanted_loop D stop_at born fuel prev h' wanted')
              else wanted_loop D stop_at born fuel prev h wanted')"

definition block_download_new ::
  "('p, 'k) crates \<Rightarrow> chaindb \<Rightarrow> nat \<Rightarrow> hash option \<Rightarrow> u64 \<Rightarrow> 'i block_download outcome option" where
  "block_download_new C D fuel processed_block b =
     map_option (\<lambda>r. obind r (\<lambda>wanted. Ok \<lparr>blocks_wanted = wanted, blocks_asked = [],
                                          download_peer = None, birth = b\<rparr>))
       (case header_tip D of
          None \<Rightarrow> Some (Ok [])
        | Some h \<Rightarrow>
            if ucast (hd_time (stored_header h)) > b
            then wanted_loop D (case processed_block of Some p \<Rightarrow> p | None \<Rightarrow> hash_default) b fuel
                   (header_hash C (stored_header h)) h []
            else Some (Ok []))"

section \<open>Asking for headers and blocks\<close>

definition is_serving_blocks :: "('i \<Rightarrow> u64 option) \<Rightarrow> 'i \<Rightarrow> bool" where
  "is_serving_blocks services peer =
     (case services peer of Some v \<Rightarrow> v AND SERVICE_BLOCKS \<noteq> 0 | None \<Rightarrow> False)"

definition get_headers ::
  "'d chain_crate \<Rightarrow> ('i \<Rightarrow> bitcoin_reply \<Rightarrow> bool) \<Rightarrow> 'i \<Rightarrow> 'd \<Rightarrow> 'i net_action list" where
  "get_headers B busy peer d =
     (if busy peer Expect_Headers then []
      else (case header_locators B d of
              [] \<Rightarrow> []
            | l # ls \<Rightarrow> [Expect_reply peer 1 Expect_Headers, Send_to peer (GetHeaders (l # ls) l)]))"

text \<open>At most a thousand wanted blocks move to those asked for.\<close>

definition ask_blocks ::
  "('i \<Rightarrow> bitcoin_reply \<Rightarrow> bool) \<Rightarrow> 'i \<Rightarrow> 'i block_download \<Rightarrow> 'i block_download \<times> 'i net_action list" where
  "ask_blocks busy pid s =
     (if busy pid Expect_Block then (s, [])
      else let asked = blocks_asked s @ take 1000 (blocks_wanted s)
           in (s\<lparr>blocks_wanted := drop 1000 (blocks_wanted s), blocks_asked := asked\<rparr>,
               if asked \<noteq> []
               then [Send_to pid (GetData (map (\<lambda>(h, _). \<lparr>inv_kind = Inv_Block, inv_hash = h\<rparr>) asked)),
                     Expect_reply pid (length asked) Expect_Block]
               else []))"

text \<open>A block out of sequence, or from another peer, is dropped.\<close>

definition download_block ::
  "('p, 'k) crates \<Rightarrow> block \<Rightarrow> 'i \<Rightarrow> 'i block_download \<Rightarrow> 'i block_download \<times> 'i net_action list" where
  "download_block C b pid s =
     (if download_peer s = Some pid
      then (case blocks_asked s of
              [] \<Rightarrow> (s, [])
            | (expected, height) # rest \<Rightarrow>
                if header_hash C (header b) = expected
                then (s\<lparr>blocks_asked := rest\<rparr>,
                      [Received_reply pid 1 Expect_Block, Block_connected b height])
                else (s, []))
      else (s, []))"

definition download_inv ::
  "'d chain_crate \<Rightarrow> ('i \<Rightarrow> bitcoin_reply \<Rightarrow> bool) \<Rightarrow> inventory list \<Rightarrow> 'i \<Rightarrow> 'd \<Rightarrow> 'i net_action list" where
  "download_inv B busy invs peer d =
     (if \<exists>i \<in> set invs. inv_kind i = Inv_Block \<and> cdb_get_header (view B d) (inv_hash i) = None
      then get_headers B busy peer d else [])"

section \<open>Headers received\<close>

text \<open>What the loop over the received headers keeps between its rounds.\<close>

record 'd header_loop =
  chain :: 'd
  connected_headers :: "(u32 \<times> block_header) list"
  disconnected_headers :: "block_header list"
  some_new :: bool
  moved_tip :: "hash option"
  cur_height :: u32
  bans :: nat

text \<open>
  The inner loop: add headers to the chain until one of them unwinds the trunk, or all are
  added. The first component is the rest of the queue.
\<close>

fun add_headers ::
  "'d chain_crate \<Rightarrow> block_header list \<Rightarrow> 'd header_loop \<Rightarrow> (block_header list \<times> 'd header_loop) outcome" where
  "add_headers B [] l = Ok ([], l)"
| "add_headers B (h # hs) l =
     (case chain_add_header B (chain l) h of
        (Inr (Some (stored, unwinds, forwards)), d) \<Rightarrow>
          (case (case forwards of
                   None \<Rightarrow> Ok (moved_tip l)
                 | Some f \<Rightarrow> if f = [] then Panic Unwrap_failed else Ok (Some (last f))) of
             Ok tip \<Rightarrow>
               (let l' = l\<lparr>chain := d, some_new := True, moved_tip := tip, cur_height := stored_height stored,
                           connected_headers := connected_headers l
                             @ [(stored_height stored, stored_header stored)]\<rparr>
                in (case unwinds of
                      None \<Rightarrow> add_headers B hs l'
                    | Some us \<Rightarrow>
                        obind (omap (\<lambda>u. unwrap (cdb_get_header (view B d) u)) us)
                          (\<lambda>cs. Ok (hs, l'\<lparr>disconnected_headers :=
                                   disconnected_headers l @ map stored_header cs\<rparr>))))
           | Err e \<Rightarrow> Err e
           | Panic p \<Rightarrow> Panic p)
      | (Inr None, d) \<Rightarrow> add_headers B hs (l\<lparr>chain := d\<rparr>)
      | (Inl SpvBadProofOfWork, d) \<Rightarrow> add_headers B hs (l\<lparr>chain := d, bans := bans l + 1\<rparr>)
      | (Inl (Chain_error _), d) \<Rightarrow> add_headers B hs (l\<lparr>chain := d\<rparr>))"

lemma add_headers_shorter:
  "add_headers B hs l = Ok (hs', l') \<Longrightarrow> hs \<noteq> [] \<Longrightarrow> length hs' < length hs"
proof (induction B hs l rule: add_headers.induct)
  case (2 B h hs l)
  have "length hs' < Suc (length hs)" if "add_headers B hs m = Ok (hs', l')"
    "hs \<noteq> [] \<Longrightarrow> length hs' < length hs" for m
    using that by (cases hs) auto
  with 2 show ?case
    by (auto simp: Let_def less_Suc_eq split: prod.splits sum.splits option.splits outcome.splits
        chain_error.splits if_splits) 
qed simp

text \<open>
  After every run of the inner loop the downstream is told, outside of the chain's lock: first
  of the headers that left the trunk, then of the new ones; both only if younger than the
  birth of the wallet. A header that left takes the last wanted block with it.
\<close>

definition tell_downstream ::
  "('p, 'k) crates \<Rightarrow> 'd header_loop \<Rightarrow> 'i block_download \<Rightarrow> 'i block_download \<times> 'i net_action list" where
  "tell_downstream C l s =
     (let gone = filter (\<lambda>h. ucast (hd_time h) > birth s) (disconnected_headers l);
          new = filter (\<lambda>(_, h). ucast (hd_time h) > birth s) (connected_headers l)
      in (s\<lparr>blocks_wanted := take (length (blocks_wanted s) - length gone) (blocks_wanted s)
              @ map (\<lambda>(n, h). (header_hash C h, n)) new\<rparr>,
          map Block_disconnected gone @ map (\<lambda>(n, h). Header_connected h n) new))"

text \<open>The outer loop ends, since every round takes at least one header off the queue.\<close>

function headers_loop ::
  "('p, 'k) crates \<Rightarrow> 'd chain_crate \<Rightarrow> 'i \<Rightarrow> block_header list \<Rightarrow> 'd header_loop \<Rightarrow> 'i block_download
   \<Rightarrow> ('d header_loop \<times> 'i block_download \<times> 'i net_action list) outcome" where
  "headers_loop C B peer hs l s =
     (if hs = [] then Ok (l, s, [])
      else (case add_headers B hs (l\<lparr>connected_headers := [], disconnected_headers := [], bans := 0\<rparr>) of
              Ok (hs', l') \<Rightarrow>
                (case tell_downstream C l' s of
                   (s', acts) \<Rightarrow>
                     (case headers_loop C B peer hs' l' s' of
                        Ok (l'', s'', acts') \<Rightarrow>
                          Ok (l'', s'', replicate (bans l') (Ban peer 100) @ acts @ acts')
                      | Err e \<Rightarrow> Err e
                      | Panic p \<Rightarrow> Panic p))
            | Err e \<Rightarrow> Err e
            | Panic p \<Rightarrow> Panic p))"
  by pat_completeness auto
termination
  by (relation "measure (\<lambda>(_, _, _, hs, _, _). length hs)") (auto dest: add_headers_shorter)

declare headers_loop.simps [simp del]

definition download_headers ::
  "('p, 'k) crates \<Rightarrow> 'd chain_crate \<Rightarrow> ('i \<Rightarrow> bitcoin_reply \<Rightarrow> bool) \<Rightarrow> block_header list \<Rightarrow> 'i
   \<Rightarrow> 'i block_download \<times> 'd \<Rightarrow> ('i block_download \<times> 'd \<times> 'i net_action list) outcome" where
  "download_headers C B busy hs peer st =
     (case st of (s, d) \<Rightarrow>
        let recv = Received_reply peer 1 Expect_Headers in
        if hs = [] then Ok (s, d, [recv])
        else (case header_tip (view B d) of
                None \<Rightarrow> Ok (s, d, [recv])
              | Some tip \<Rightarrow>
                  obind (headers_loop C B peer hs
                           \<lparr>chain = d, connected_headers = [], disconnected_headers = [], some_new = False,
                            moved_tip = None, cur_height = stored_height tip, bans = 0\<rparr> s)
                    (\<lambda>(l, s', acts).
                       Ok (s', chain l,
                           recv # acts
                           @ (if some_new l then get_headers B busy peer (chain l) else [])
                           @ (if moved_tip l \<noteq> None then [Set_height (cur_height l)] else [])))))"

section \<open>The thread\<close>

text \<open>An incoming message, up to the question which blocks to ask for next.\<close>

definition incoming_message ::
  "('p, 'k) crates \<Rightarrow> 'd chain_crate \<Rightarrow> ('i \<Rightarrow> u64 option) \<Rightarrow> ('i \<Rightarrow> bitcoin_reply \<Rightarrow> bool) \<Rightarrow> 'i \<Rightarrow> network_message
   \<Rightarrow> 'i block_download \<Rightarrow> 'd \<Rightarrow> ('i block_download \<times> 'd \<times> 'i net_action list) outcome" where
  "incoming_message C B services busy pid msg s d =
     (case msg of
        Headers hs \<Rightarrow>
          if is_serving_blocks services pid then download_headers C B busy hs pid (s, d) else Ok (s, d, [])
      | Inv invs \<Rightarrow>
          Ok (s, d, if is_serving_blocks services pid then download_inv B busy invs pid d else [])
      | Block_msg b \<Rightarrow> (case download_block C b pid s of (s', acts) \<Rightarrow> Ok (s', d, acts))
      | _ \<Rightarrow> Ok (s, d, []))"

text \<open>The first peer that sends anything becomes the download peer if there is none.\<close>

definition ask_next ::
  "('i \<Rightarrow> bitcoin_reply \<Rightarrow> bool) \<Rightarrow> 'i \<Rightarrow> 'i block_download \<Rightarrow> 'i block_download \<times> 'i net_action list" where
  "ask_next busy pid s =
     (let s' = (if download_peer s = None then s\<lparr>download_peer := Some pid\<rparr> else s)
      in if download_peer s' = Some pid then ask_blocks busy pid s' else (s', []))"

text \<open>One message of the receive loop.\<close>

fun block_download_message ::
  "('p, 'k) crates \<Rightarrow> 'd chain_crate \<Rightarrow> ('i \<Rightarrow> u64 option) \<Rightarrow> ('i \<Rightarrow> bitcoin_reply \<Rightarrow> bool) \<Rightarrow> 'i peer_message
   \<Rightarrow> 'i block_download \<times> 'd \<Rightarrow> ('i block_download \<times> 'd \<times> 'i net_action list) outcome" where
  "block_download_message C B services busy (Connected pid _) (s, d) =
     (if is_serving_blocks services pid
      then Ok (if download_peer s = None then s\<lparr>download_peer := Some pid\<rparr> else s, d,
               get_headers B busy pid d)
      else Ok (s, d, []))"
| "block_download_message C B services busy (Disconnected pid _) (s, d) =
     (if download_peer s = Some pid
      then Ok (s\<lparr>download_peer := None, blocks_wanted := blocks_asked s @ blocks_wanted s,
                 blocks_asked := []\<rparr>, d, [])
      else Ok (s, d, []))"
| "block_download_message C B services busy (Incoming pid msg) (s, d) =
     obind (incoming_message C B services busy pid msg s d)
       (\<lambda>(s, d, acts). case ask_next busy pid s of (s', asks) \<Rightarrow> Ok (s', d, acts @ asks))"
| "block_download_message C B services busy (Outgoing _) (s, d) = Ok (s, d, [])"

end
