(* ===== verification/Block_Queue.thy ===== *)
theory Block_Queue
  imports Block_Download
begin

text \<open>
  What the block download promises the content store, as an abstract machine: a queue of
  pending blocks. A new header appends its block, a header that leaves the trunk takes the
  last block off, and a block is handed over only if it is the first of the queue. The
  handlers of \<open>Block_Download\<close> refine it under the abstraction that puts the blocks asked for
  before those still wanted.
\<close>

section \<open>The abstract queue\<close>

fun pending_step :: "('p, 'k) crates \<Rightarrow> 'i net_action \<Rightarrow> (hash \<times> u32) list \<Rightarrow> (hash \<times> u32) list option" where
  "pending_step C (Header_connected h n) q = Some (q @ [(header_hash C h, n)])"
| "pending_step C (Block_disconnected h) q = Some (butlast q)"
| "pending_step C (Block_connected b n) q =
     (case q of [] \<Rightarrow> None | x # xs \<Rightarrow> if x = (header_hash C (header b), n) then Some xs else None)"
| "pending_step C _ q = Some q"

fun pending :: "('p, 'k) crates \<Rightarrow> 'i net_action list \<Rightarrow> (hash \<times> u32) list \<Rightarrow> (hash \<times> u32) list option" where
  "pending C [] q = Some q"
| "pending C (a # as) q = (case pending_step C a q of None \<Rightarrow> None | Some q' \<Rightarrow> pending C as q')"

lemma pending_append:
  "pending C (as @ bs) q = (case pending C as q of None \<Rightarrow> None | Some q' \<Rightarrow> pending C bs q')"
  by (induction as arbitrary: q) (auto split: option.splits)

text \<open>Actions that do not concern the queue.\<close>

fun queue_action :: "'i net_action \<Rightarrow> bool" where
  "queue_action (Header_connected _ _) = True"
| "queue_action (Block_disconnected _) = True"
| "queue_action (Block_connected _ _) = True"
| "queue_action _ = False"

lemma pending_other: "\<forall>a \<in> set as. \<not> queue_action a \<Longrightarrow> pending C as q = Some q"
proof (induction as)
  case (Cons a as)
  then show ?case by (cases a) auto
qed simp

lemma pending_headers:
  "pending C (map (\<lambda>(n, h). Header_connected h n) xs) q = Some (q @ map (\<lambda>(n, h). (header_hash C h, n)) xs)"
  by (induction xs arbitrary: q) auto

lemma pending_gone: "pending C (map Block_disconnected hs) q = Some (take (length q - length hs) q)"
  by (induction hs arbitrary: q) (auto simp: butlast_conv_take min_def)

section \<open>Refinement of the handlers\<close>

definition queue :: "'i block_download \<Rightarrow> (hash \<times> u32) list" where
  "queue s = blocks_asked s @ blocks_wanted s"

fun retraction :: "'i net_action \<Rightarrow> bool" where
  "retraction (Block_disconnected _) = True"
| "retraction _ = False"

text \<open>
  A handler takes blocks off the wanted ones only: it keeps to the abstract machine if it
  takes off no more than there are, or if no block is asked for.
\<close>

definition retractable :: "'i block_download \<Rightarrow> 'i net_action list \<Rightarrow> bool" where
  "retractable s acts \<longleftrightarrow> blocks_asked s = [] \<or> length (filter retraction acts) \<le> length (blocks_wanted s)"

lemma retraction_maps [simp]:
  "filter retraction (map Block_disconnected hs) = map Block_disconnected hs"
  "filter retraction (map (\<lambda>(n, h). Header_connected h n) xs) = []"
  "filter retraction (replicate m (Ban peer v)) = []"
  by (induction hs, simp_all) (induction xs, auto)

lemma tell_downstream_refines:
  assumes "tell_downstream C l s = (s', acts)" and "retractable s acts"
  shows "pending C acts (queue s) = Some (queue s')"
proof -
  define gone where "gone = filter (\<lambda>h. ucast (hd_time h) > birth s) (disconnected_headers l)"
  define new where "new = filter (\<lambda>(_, h). ucast (hd_time h) > birth s) (connected_headers l)"
  have s': "s' = s\<lparr>blocks_wanted := take (length (blocks_wanted s) - length gone) (blocks_wanted s)
      @ map (\<lambda>(n, h). (header_hash C h, n)) new\<rparr>"
    and acts: "acts = map Block_disconnected gone @ map (\<lambda>(n, h). Header_connected h n) new"
    using assms(1) by (simp_all add: tell_downstream_def gone_def new_def Let_def)
  have "take (length (queue s) - length gone) (queue s)
      = blocks_asked s @ take (length (blocks_wanted s) - length gone) (blocks_wanted s)"
    using assms(2) by (auto simp: queue_def retractable_def acts)
  then show ?thesis by (simp add: acts pending_append pending_gone pending_headers s' queue_def)
qed

lemma tell_downstream_keeps:
  assumes "tell_downstream C l s = (s', acts)"
  shows "blocks_asked s' = blocks_asked s" "download_peer s' = download_peer s" "birth s' = birth s"
    and "length (blocks_wanted s) - length (filter retraction acts) \<le> length (blocks_wanted s')"
  using assms by (auto simp: tell_downstream_def Let_def)

text \<open>A round of the outer loop, and induction over the rounds of a loop that returns.\<close>

lemma headers_loop_round:
  assumes "headers_loop C B peer hs l s = Ok (l', s', acts)" and "hs \<noteq> []"
  obtains hs1 l1 s1 acts1 acts2 where
    "add_headers B hs (l\<lparr>connected_headers := [], disconnected_headers := [], bans := 0\<rparr>) = Ok (hs1, l1)"
    "tell_downstream C l1 s = (s1, acts1)" "headers_loop C B peer hs1 l1 s1 = Ok (l', s', acts2)"
    "acts = replicate (bans l1) (Ban peer 100) @ acts1 @ acts2"
  using assms by (subst (asm) headers_loop.simps) (auto split: outcome.splits prod.splits)

lemma headers_loop_induct [consumes 1, case_names Done Round]:
  assumes "headers_loop C B peer hs l s = Ok (l', s', acts)"
    and "\<And>l s. P l s l s []"
    and "\<And>l l1 s s1 l' s' acts1 acts2. tell_downstream C l1 s = (s1, acts1) \<Longrightarrow> P l1 s1 l' s' acts2 \<Longrightarrow>
           P l s l' s' (replicate (bans l1) (Ban peer 100) @ acts1 @ acts2)"
  shows "P l s l' s' acts"
  using assms(1)
proof (induction "length hs" arbitrary: hs l s acts rule: less_induct)
  case less
  show ?case
  proof (cases "hs = []")
    case True
    with less.prems assms(2) show ?thesis by (auto simp: headers_loop.simps)
  next
    case False
    from less.prems False show ?thesis
    proof (rule headers_loop_round)
      fix hs1 l1 s1 acts1 acts2
      assume add: "add_headers B hs (l\<lparr>connected_headers := [], disconnected_headers := [], bans := 0\<rparr>) = Ok (hs1, l1)"
        and r: "tell_downstream C l1 s = (s1, acts1)" "headers_loop C B peer hs1 l1 s1 = Ok (l', s', acts2)"
        and acts: "acts = replicate (bans l1) (Ban peer 100) @ acts1 @ acts2"
      have "P l1 s1 l' s' acts2" by (rule less.hyps [OF add_headers_shorter [OF add False] r(2)])
      then show ?thesis unfolding acts by (rule assms(3) [OF r(1)])
    qed
  qed
qed

lemma headers_loop_asked:
  "headers_loop C B peer hs l s = Ok (l', s', acts) \<Longrightarrow>
     blocks_asked s' = blocks_asked s \<and> download_peer s' = download_peer s \<and> birth s' = birth s"
  by (induction rule: headers_loop_induct) (auto dest: tell_downstream_keeps(1-3))

lemma headers_loop_refines:
  "headers_loop C B peer hs l s = Ok (l', s', acts) \<Longrightarrow> retractable s acts \<Longrightarrow>
     pending C acts (queue s) = Some (queue s')"
proof (induction rule: headers_loop_induct)
  case (Round l l1 s s1 l' s' acts1 acts2)
  have "retractable s acts1" and "retractable s1 acts2"
    using Round.prems tell_downstream_keeps [OF Round.hyps] by (auto simp: retractable_def)
  moreover have "pending C (replicate (bans l1) (Ban peer 100)) q = Some q" for q
    by (rule pending_other) simp
  ultimately show ?case
    using tell_downstream_refines [OF Round.hyps] Round.IH by (simp add: pending_append)
qed simp

lemma get_headers_other: "a \<in> set (get_headers B busy peer d) \<Longrightarrow> \<not> queue_action a"
  by (auto simp: get_headers_def split: if_splits list.splits)

lemma not_queue_action_retraction: "\<not> queue_action a \<Longrightarrow> \<not> retraction a"
  by (cases a) auto

lemma filter_retraction_other: "\<forall>a \<in> set as. \<not> queue_action a \<Longrightarrow> filter retraction as = []"
  by (auto simp: filter_empty_conv not_queue_action_retraction)

lemma download_headers_refines:
  fixes d :: 'b
  assumes "download_headers C B busy hs peer (s, d) = Ok (s', d', acts)" and "retractable s acts"
  shows "pending C acts (queue s) = Some (queue s')"
proof (cases "hs = [] \<or> header_tip (view B d) = None")
  case True
  with assms(1) show ?thesis by (auto simp: download_headers_def Let_def split: if_splits option.splits)
next
  case False
  define tail where "tail l = (if some_new l then get_headers B busy peer (chain l) else [])
      @ (if moved_tip l \<noteq> None then [Set_height (cur_height l)] else [])" for l :: "'b header_loop"
  from False assms(1) obtain l0 l acts1 where r: "headers_loop C B peer hs l0 s = Ok (l, s', acts1)"
    and acts: "acts = Received_reply peer 1 Expect_Headers # acts1 @ tail l"
    by (auto simp: download_headers_def Let_def tail_def)
  have other: "\<forall>a \<in> set (tail l). \<not> queue_action a" by (auto simp: tail_def dest: get_headers_other)
  then have "retractable s acts1"
    using assms(2) by (simp add: retractable_def acts filter_retraction_other)
  with headers_loop_refines [OF r] pending_other [OF other] show ?thesis
    by (simp add: acts pending_append)
qed

lemma download_block_refines:
  "download_block C b pid s = (s', acts) \<Longrightarrow> pending C acts (queue s) = Some (queue s')"
  by (auto simp: download_block_def queue_def split: if_splits list.splits prod.splits)

lemma queue_peer [simp]: "queue (s\<lparr>download_peer := p\<rparr>) = queue s"
  by (simp add: queue_def)

lemma ask_blocks_refines:
  "ask_blocks busy pid s = (s', acts) \<Longrightarrow>
     pending C acts q = Some q \<and> queue s' = queue s \<and> filter retraction acts = []"
  by (auto simp: ask_blocks_def queue_def Let_def split: if_splits)

lemma ask_next_refines:
  "ask_next busy pid s = (s', acts) \<Longrightarrow>
     pending C acts q = Some q \<and> queue s' = queue s \<and> filter retraction acts = []"
  by (auto simp: ask_next_def queue_def Let_def dest: ask_blocks_refines split: if_splits)

lemma incoming_refines:
  assumes "incoming_message C B services busy pid msg s d = Ok (s', d', acts)" and "retractable s acts"
  shows "pending C acts (queue s) = Some (queue s')"
proof -
  have inv: "pending C (download_inv B busy invs pid d) q = Some q" for invs q d
    by (rule pending_other) (auto simp: download_inv_def dest: get_headers_other split: if_splits)
  show ?thesis
    using assms by (cases msg)
      (auto simp: incoming_message_def inv split: if_splits prod.splits
        dest: download_headers_refines download_block_refines)
qed

text \<open>Every message refines the abstract queue.\<close>

lemma message_refines:
  assumes "block_download_message C B services busy msg (s, d) = Ok (s', d', acts)" and "retractable s acts"
  shows "pending C acts (queue s) = Some (queue s')"
proof (cases msg)
  case (Connected pid a)
  then show ?thesis
    using assms(1) pending_other [of "get_headers B busy pid d" C "queue s"] get_headers_other [of _ B busy pid d]
    by (auto split: if_splits)
next
  case (Disconnected pid a)
  then show ?thesis using assms(1) by (auto simp: queue_def split: if_splits)
next
  case (Incoming pid m)
  then obtain s1 acts1 asks where m: "incoming_message C B services busy pid m s d = Ok (s1, d', acts1)"
    and ask: "ask_next busy pid s1 = (s', asks)" and acts: "acts = acts1 @ asks"
    using assms(1) by (force simp: case_prod_unfold prod_eq_iff)
  show ?thesis
    using incoming_refines [OF m] ask_next_refines [OF ask, of C] assms(2)
    by (auto simp: acts pending_append retractable_def)
next
  case (Outgoing m)
  then show ?thesis using assms(1) by auto
qed

section \<open>Runs\<close>

text \<open>Messages in every order, under every answer of the book-keeping.\<close>

inductive download_run ::
  "('p, 'k) crates \<Rightarrow> 'd chain_crate \<Rightarrow> 'i block_download \<times> 'd \<Rightarrow> 'i net_action list \<Rightarrow> 'i block_download \<times> 'd \<Rightarrow> bool"
  for C B st where
  run_start: "download_run C B st [] st"
| run_message: "download_run C B st acts (s, d) \<Longrightarrow>
    block_download_message C B services busy msg (s, d) = Ok (s', d', acts') \<Longrightarrow> retractable s acts' \<Longrightarrow>
    download_run C B st (acts @ acts') (s', d')"

lemma download_run_pending:
  "download_run C B st acts st' \<Longrightarrow> pending C acts (queue (fst st)) = Some (queue (fst st'))"
  by (induction rule: download_run.induct) (auto simp: pending_append message_refines)

text \<open>
  C5. The block download implements the queue: on every run whose messages take off no more
  blocks than are wanted, the headers and blocks the store is told of are steps of the
  abstract machine from the queue at the start to the queue at the end.
\<close>

theorem download_refines_queue:
  assumes "download_run C B (s, d) acts (s', d')"
  shows "pending C acts (blocks_asked s @ blocks_wanted s) = Some (blocks_asked s' @ blocks_wanted s')"
  using download_run_pending [OF assms] by (simp add: queue_def)

text \<open>The headers announced and the blocks handed over in a list of actions.\<close>

fun announced :: "('p, 'k) crates \<Rightarrow> 'i net_action list \<Rightarrow> (hash \<times> u32) list" where
  "announced C [] = []"
| "announced C (Header_connected h n # as) = (header_hash C h, n) # announced C as"
| "announced C (a # as) = announced C as"

fun delivered :: "('p, 'k) crates \<Rightarrow> 'i net_action list \<Rightarrow> (hash \<times> u32) list" where
  "delivered C [] = []"
| "delivered C (Block_connected b n # as) = (header_hash C (header b), n) # delivered C as"
| "delivered C (a # as) = delivered C as"

lemma pending_balance:
  "pending C acts q = Some q' \<Longrightarrow> filter retraction acts = [] \<Longrightarrow> delivered C acts @ q' = q @ announced C acts"
proof (induction acts arbitrary: q)
  case (Cons a acts)
  then show ?case by (cases a) (auto split: list.splits if_splits option.splits)
qed simp

text \<open>
  C9. While the trunk only grows, the blocks are handed to the store exactly in the order in
  which their headers were announced to it, with their heights, none left out and none twice:
  what was handed over, followed by what is asked for and wanted, is what was pending at
  the start followed by what was announced.
\<close>

theorem blocks_delivered_in_order:
  assumes "download_run C B (s, d) acts (s', d')" and "filter retraction acts = []"
  shows "delivered C acts @ blocks_asked s' @ blocks_wanted s'
       = blocks_asked s @ blocks_wanted s @ announced C acts"
  using pending_balance [OF download_run_pending [OF assms(1)] assms(2)] by (simp add: queue_def)

text \<open>
  C40. A block that leaves the trunk after it was asked for is still expected: the handler takes
  blocks off the wanted ones only, so that the block, if it is the next one expected, is handed to the store when it
  arrives, after the store was told that it is disconnected.
\<close>

theorem stale_block_delivered:
  assumes "download_headers C B busy hs peer (s, d) = Ok (s', d', acts)"
    and "Block_disconnected (header b) \<in> set acts"
    and "blocks_asked s = (header_hash C (header b), n) # rest" and "download_peer s = Some pid"
  shows "download_block C b pid s' =
    (s'\<lparr>blocks_asked := rest\<rparr>, [Received_reply pid 1 Expect_Block, Block_connected b n])"
proof -
  have "blocks_asked s' = blocks_asked s \<and> download_peer s' = download_peer s"
    using assms(1)
    by (auto simp: download_headers_def Let_def split: if_splits option.splits dest: headers_loop_asked)
  then show ?thesis using assms(3,4) by (simp add: download_block_def)
qed

end
