(* ===== verification/Chain_Sync.thy ===== *)
theory Chain_Sync
  imports Block_Queue Store_Run
begin

text \<open>
  The block download and the content store together, as \<^verbatim>\<open>src/p2p_bitcoin.rs\<close> connects them:
  \<^verbatim>\<open>BitcoinDriver\<close> passes what the download reports to the store, and \<^verbatim>\<open>P2PBitcoin::start\<close>
  brings the store back to the trunk and decides which blocks to download.
\<close>

section \<open>The driver\<close>

fun driver ::
  "('p, 'k) crates \<Rightarrow> ('p, 'k, 'c, 'm, 'u) wallet_crates \<Rightarrow> trunk \<Rightarrow> 'i net_action \<Rightarrow> ('c, 'm) store
   \<Rightarrow> ('c, 'm) store outcome" where
  "driver C W T (Block_connected b n) s = expect_ok ''can not add block'' (block_connected C W T b n s)"
| "driver C W T (Header_connected h n) s = expect_ok ''can not add header'' (add_header C n h s)"
| "driver C W T (Block_disconnected h) s = expect_ok ''can not unwind tip'' (unwind_tip C W h s)"
| "driver C W T _ s = Ok s"

section \<open>Start\<close>

text \<open>
  The loop that walks from the last processed block back to the trunk. \<open>None\<close>: not ended
  within \<open>fuel\<close> rounds.
\<close>

fun unwind_loop :: "chaindb \<Rightarrow> nat \<Rightarrow> hash \<Rightarrow> cached_header \<Rightarrow> block_header list outcome option" where
  "unwind_loop D 0 p h = None"
| "unwind_loop D (Suc fuel) p h =
     (if pos_on_trunk D p = None
      then (let p' = prev_blockhash (stored_header h)
            in (case cdb_get_header D p' of
                  None \<Rightarrow> Some (Panic (Expect_failed ''inconsistent header cache''))
                | Some h' \<Rightarrow>
                    map_option (\<lambda>r. obind r (\<lambda>hs. Ok (stored_header h # hs))) (unwind_loop D fuel p' h')))
      else Some (Ok []))"

definition disconnected_while_down :: "chaindb \<Rightarrow> nat \<Rightarrow> hash option \<Rightarrow> block_header list outcome option" where
  "disconnected_while_down D fuel processed =
     (case processed of
        None \<Rightarrow> Some (Ok [])
      | Some p \<Rightarrow>
          (case cdb_get_header D p of
             None \<Rightarrow> Some (Panic (Expect_failed ''can not find header for last processed block''))
           | Some h \<Rightarrow> unwind_loop D fuel p h))"

text \<open>
  The part of \<^verbatim>\<open>start\<close> that concerns the store and the download. The variable that walks back is
  a new one: the download is started with the processed block as it was read.
\<close>

definition bitcoin_start ::
  "('p, 'k) crates \<Rightarrow> ('p, 'k, 'c, 'm, 'u) wallet_crates \<Rightarrow> trunk \<Rightarrow> chaindb \<Rightarrow> nat \<Rightarrow> u64 \<Rightarrow> ('c, 'm) store
   \<Rightarrow> (('c, 'm) store \<times> 'i block_download) outcome option" where
  "bitcoin_start C W T D fuel b s =
     (case expect_ok ''can not read processed block'' (read_processed C (sdb s)) of
        Ok processed \<Rightarrow>
          (case disconnected_while_down D fuel processed of
             None \<Rightarrow> None
           | Some (Ok hs) \<Rightarrow>
               (case ofold (\<lambda>h. driver C W T (Block_disconnected h :: 'i net_action)) hs s of
                  Ok s' \<Rightarrow>
                    map_option (\<lambda>r. obind r (\<lambda>bd. Ok (set_tx_sender s', bd)))
                      (block_download_new C D fuel processed b)
                | Err e \<Rightarrow> Some (Err e)
                | Panic p \<Rightarrow> Some (Panic p))
           | Some (Err e) \<Rightarrow> Some (Err e)
           | Some (Panic p) \<Rightarrow> Some (Panic p))
      | Err e \<Rightarrow> Some (Err e)
      | Panic p \<Rightarrow> Some (Panic p))"

section \<open>The blocks wanted at the start\<close>

text \<open>
  A trunk as the header cache stores it, from the tip to the genesis block: every header
  but the last names the next one, which the cache knows by its hash.
\<close>

abbreviation chash :: "('p, 'k) crates \<Rightarrow> cached_header \<Rightarrow> hash" where
  "chash C h \<equiv> header_hash C (stored_header h)"

fun linked :: "('p, 'k) crates \<Rightarrow> chaindb \<Rightarrow> cached_header list \<Rightarrow> bool" where
  "linked C D [] \<longleftrightarrow> False"
| "linked C D [h] \<longleftrightarrow> prev_blockhash (stored_header h) = hash_default"
| "linked C D (h # h' # hs) \<longleftrightarrow> prev_blockhash (stored_header h) = chash C h' \<and> chash C h' \<noteq> hash_default
     \<and> cdb_get_header D (chash C h') = Some h' \<and> linked C D (h' # hs)"

definition trunk_headers :: "('p, 'k) crates \<Rightarrow> chaindb \<Rightarrow> cached_header list \<Rightarrow> bool" where
  "trunk_headers C D hs \<longleftrightarrow> linked C D hs \<and> header_tip D = Some (hd hs) \<and> chash C (hd hs) \<noteq> hash_default
     \<and> (\<forall>h \<in> set hs. pos_on_trunk D (chash C h) \<noteq> None \<and> cdb_get_header D (chash C h) = Some h)"

definition older :: "u64 \<Rightarrow> cached_header \<Rightarrow> bool" where
  "older b h \<longleftrightarrow> ucast (hd_time (stored_header h)) < b"

text \<open>The blocks above the one to stop at, as far back as the birth of the wallet.\<close>

definition blocks_above :: "('p, 'k) crates \<Rightarrow> hash \<Rightarrow> u64 \<Rightarrow> cached_header list \<Rightarrow> (hash \<times> u32) list" where
  "blocks_above C stop_at b hs =
     rev (map (\<lambda>h. (chash C h, stored_height h)) (takeWhile (\<lambda>h. chash C h \<noteq> stop_at \<and> \<not> older b h) hs))"

lemma trunk_headers_inj:
  assumes "trunk_headers C D hs" and "y \<in> set hs" and "x \<in> set hs" and "chash C y = chash C x"
  shows "y = x"
  using assms by (metis option.inject trunk_headers_def)

lemma wanted_loop_ends:
  assumes "linked C D (h # hs)" and "chash C h \<noteq> hash_default" and "\<not> older b h"
    and "stop_at = hash_default \<or> (\<exists>x \<in> set (h # hs). chash C x = stop_at \<or> older b x)"
    and "length hs + 2 \<le> fuel"
  shows "wanted_loop D stop_at b fuel (chash C h) h wanted
       = Some (Ok (blocks_above C stop_at b (h # hs) @ wanted))"
  using assms
proof (induction hs arbitrary: h fuel wanted)
  case Nil
  then obtain f where f: "fuel = Suc (Suc f)" by (metis add_2_eq_Suc' le_Suc_ex list.size(3) add_0 plus_nat.simps(2))
  with Nil show ?case by (auto simp: blocks_above_def f)
next
  case (Cons h' hs)
  then obtain f where f: "fuel = Suc f" "length hs + 2 \<le> f" by (cases fuel) auto
  show ?case
  proof (cases "chash C h = stop_at \<or> older b h'")
    case True
    with Cons.prems show ?thesis by (auto simp: f(1) blocks_above_def older_def Let_def)
  next
    case False
    with Cons.prems have "wanted_loop D stop_at b f (chash C h') h' ((chash C h, stored_height h) # wanted)
        = Some (Ok (blocks_above C stop_at b (h' # hs) @ (chash C h, stored_height h) # wanted))"
      by (intro Cons.IH) (use f(2) in auto)
    with False Cons.prems show ?thesis
      by (simp add: f(1) blocks_above_def older_def Let_def)
  qed
qed

lemma wanted_loop_genesis:
  assumes "stop_at \<noteq> hash_default" and "prev_blockhash (stored_header h) = hash_default"
  shows "wanted_loop D stop_at b fuel hash_default h wanted = None"
  using assms by (induction fuel arbitrary: wanted) auto

lemma wanted_loop_endless:
  assumes "linked C D (h # hs)" and "stop_at \<noteq> hash_default"
    and "\<forall>x \<in> set (h # hs). chash C x \<noteq> stop_at \<and> \<not> older b x"
  shows "wanted_loop D stop_at b fuel (chash C h) h wanted = None"
  using assms
proof (induction hs arbitrary: h fuel wanted)
  case Nil
  then show ?case by (cases fuel) (auto simp: wanted_loop_genesis)
next
  case (Cons h' hs)
  show ?case
  proof (cases fuel)
    case (Suc f)
    have "wanted_loop D stop_at b f (chash C h') h' w = None" for w
      by (rule Cons.IH) (use Cons.prems in auto)
    with Cons.prems show ?thesis by (auto simp: Suc older_def)
  qed simp
qed

lemma not_older_tip: "b < ucast (hd_time (stored_header h)) \<Longrightarrow> \<not> older b h"
  by (simp add: older_def)

lemma block_download_new_ends:
  assumes "trunk_headers C D (h # hs)" and "b < ucast (hd_time (stored_header h))"
    and "stop_at = (case processed of Some p \<Rightarrow> p | None \<Rightarrow> hash_default)"
    and "stop_at = hash_default \<or> (\<exists>x \<in> set (h # hs). chash C x = stop_at \<or> older b x)"
    and "length hs + 2 \<le> fuel"
  shows "block_download_new C D fuel processed b =
    Some (Ok \<lparr>blocks_wanted = blocks_above C stop_at b (h # hs), blocks_asked = [], download_peer = None,
              birth = b\<rparr>)"
  using assms wanted_loop_ends [of C D h hs b stop_at fuel "[]"]
  by (simp add: block_download_new_def trunk_headers_def not_older_tip)

text \<open>
  C24. Let the block processed last be on the trunk, or let there be none, and let the tip be younger
  than the wallet. Then the loop that decides what to download at the start ends, within one round
  more than the trunk has headers, and the blocks wanted are those above the processed one, oldest
  first, as far back as the wallet's birth.
\<close>

theorem startup_blocks_wanted:
  assumes "trunk_headers C D (h # hs)" and "b < ucast (hd_time (stored_header h))"
    and "processed = None \<or> (\<exists>x \<in> set (h # hs). processed = Some (chash C x))"
    and "length hs + 2 \<le> fuel"
  shows "block_download_new C D fuel processed b =
    Some (Ok \<lparr>blocks_wanted = blocks_above C (case processed of Some p \<Rightarrow> p | None \<Rightarrow> hash_default) b (h # hs),
              blocks_asked = [], download_peer = None, birth = b\<rparr>)"
  by (rule block_download_new_ends [OF assms(1,2) refl _ assms(4)]) (use assms(3) in auto)

lemma bitcoin_start_eq:
  fixes s s' :: "('c, 'm) store"
  assumes "read_processed C (sdb s) = Ok processed"
    and "disconnected_while_down D fuel processed = Some (Ok gone)"
    and "ofold (\<lambda>h. driver C W T (Block_disconnected h :: 'i net_action)) gone s = Ok s'"
  shows "bitcoin_start C W T D fuel b s =
    map_option (\<lambda>r. obind r (\<lambda>bd. Ok (set_tx_sender s', bd :: 'i block_download)))
      (block_download_new C D fuel processed b)"
  using assms by (simp add: bitcoin_start_def)

lemma blocks_above_absent:
  assumes "\<forall>x \<in> set hs. chash C x \<noteq> p" and "\<forall>x \<in> set hs. chash C x \<noteq> q"
  shows "blocks_above C p b hs = blocks_above C q b hs"
proof -
  have "takeWhile (\<lambda>h. chash C h \<noteq> p \<and> \<not> older b h) hs = takeWhile (\<lambda>h. chash C h \<noteq> q \<and> \<not> older b h) hs"
    by (rule takeWhile_cong) (use assms in auto)
  then show ?thesis by (simp add: blocks_above_def)
qed

lemma linked_not_default:
  "linked C D (h # hs) \<Longrightarrow> x \<in> set hs \<Longrightarrow> chash C x \<noteq> hash_default"
  by (induction hs arbitrary: h) auto

text \<open>
  C38. After a reorganisation while the node was down, the store is unwound to the trunk, but the
  download is started with the block that was left. If a header older than the wallet's
  birth is on the trunk, every block since the birth is downloaded again, as if none had been
  processed; if there is none, the start never ends.
\<close>

theorem restart_after_reorg:
  fixes s s' :: "('c, 'm) store"
  assumes "trunk_headers C D (h # hs)" and "b < ucast (hd_time (stored_header h))"
    and "read_processed C (sdb s) = Ok (Some p)" and "p \<noteq> hash_default"
    and "\<forall>x \<in> set (h # hs). chash C x \<noteq> p"
    and "disconnected_while_down D fuel (Some p) = Some (Ok gone)"
    and "ofold (\<lambda>h. driver C W T (Block_disconnected h :: 'i net_action)) gone s = Ok s'"
    and "length hs + 2 \<le> fuel"
  shows "bitcoin_start C W T D fuel b s =
    (if \<exists>x \<in> set hs. older b x
     then Some (Ok (set_tx_sender s',
            \<lparr>blocks_wanted = blocks_above C hash_default b (h # hs), blocks_asked = [],
             download_peer = None :: 'i option, birth = b\<rparr>))
     else None)"
proof (cases "\<exists>x \<in> set hs. older b x")
  case True
  have "\<forall>x \<in> set (h # hs). chash C x \<noteq> hash_default"
    using assms(1) linked_not_default by (fastforce simp: trunk_headers_def)
  then have "blocks_above C p b (h # hs) = blocks_above C hash_default b (h # hs)"
    by (rule blocks_above_absent [OF assms(5)])
  moreover have "block_download_new C D fuel (Some p) b = Some (Ok
      \<lparr>blocks_wanted = blocks_above C p b (h # hs), blocks_asked = [],
       download_peer = None :: 'i option, birth = b\<rparr>)"
    by (rule block_download_new_ends [OF assms(1,2) _ _ assms(8)]) (use True in auto)
  ultimately show ?thesis using True by (simp add: bitcoin_start_eq [OF assms(3,6,7)])
next
  case False
  then have "wanted_loop D p b fuel (chash C h) h [] = None"
    using assms(1,4,5) not_older_tip [OF assms(2)]
    by (intro wanted_loop_endless) (auto simp: trunk_headers_def)
  then have "(block_download_new C D fuel (Some p) b :: 'i block_download outcome option) = None"
    using assms(1,2) by (simp add: block_download_new_def trunk_headers_def)
  with False show ?thesis by (simp add: bitcoin_start_eq [OF assms(3,6,7)])
qed

section \<open>Blocks that are left out\<close>

lemma delete_confirmed_processed:
  "delete_confirmed C x d0 = Ok (keys, d) \<Longrightarrow> processed_tbl d = processed_tbl d0"
  by (auto simp: delete_confirmed_def delete_ids_def)

lemma drop_keys_db: "drop_keys C keys d s = Ok s' \<Longrightarrow> sdb s' = d"
  by (auto simp: drop_keys_def split: if_splits)

lemma unwind_tip_processed:
  assumes "unwind_tip C W hdr s = Ok s'"
  shows "processed_tbl (sdb s') = Some (sha256d_to_hex C (prev_blockhash hdr))"
proof -
  obtain keys d s1 where
    "delete_confirmed C (header_hash C hdr) (store_processed C (prev_blockhash hdr) (sdb s)) = Ok (keys, d)"
    "drop_keys C keys d s = Ok s1" "sdb s' = sdb s1"
    using assms by (auto simp: unwind_tip_def)
  then show ?thesis by (simp add: drop_keys_db delete_confirmed_processed store_processed_def)
qed

lemma takeWhile_split:
  "\<forall>x \<in> set xs. P x \<Longrightarrow> \<not> P y \<Longrightarrow> takeWhile P (xs @ y # ys) = xs"
  by (induction xs) auto

text \<open>
  C39. The store is told of a header that left the trunk even if the block was never downloaded, and
  then records the previous block as the processed one. A node that is restarted before it
  has downloaded that previous block does not ask for it: only the blocks above it are
  wanted.
\<close>

theorem unwind_skips_blocks:
  assumes "crates_ok C" and "driver C W T (Block_disconnected hdr) s = Ok s'"
    and "trunk_headers C D (new @ x # old)" and "chash C x = prev_blockhash hdr"
    and "length (chash C x) = DIGEST_LEN" and "\<forall>y \<in> set new. chash C y \<noteq> chash C x \<and> \<not> older b y"
    and "new \<noteq> []" and "b < ucast (hd_time (stored_header (hd new)))"
    and "length new + length old + 2 \<le> fuel"
  shows "\<exists>bd :: 'i block_download. bitcoin_start C W' T' D fuel b s' = Some (Ok (set_tx_sender s', bd))
    \<and> blocks_wanted bd = rev (map (\<lambda>h. (chash C h, stored_height h)) new)
    \<and> (chash C x, stored_height x) \<notin> set (blocks_wanted bd)"
proof -
  have rp: "read_processed C (sdb s') = Ok (Some (chash C x))"
    using assms(1,2,5) unwind_tip_processed [of C W hdr s s']
    by (simp add: read_processed_def crates_ok_def assms(4))
  obtain y ys where new: "new = y # ys" using assms(7) by (cases new) auto
  let ?wanted = "rev (map (\<lambda>h. (chash C h, stored_height h)) new)"
  have tr: "trunk_headers C D (y # ys @ x # old)" using assms(3) by (simp add: new)
  have above: "blocks_above C (chash C x) b (y # ys @ x # old) = ?wanted"
    unfolding append_Cons [symmetric] new [symmetric] blocks_above_def by (subst takeWhile_split) (use assms(6) in auto)
  have "block_download_new C D fuel (Some (chash C x)) b = Some (Ok
      \<lparr>blocks_wanted = blocks_above C (chash C x) b (y # ys @ x # old), blocks_asked = [],
       download_peer = None :: 'i option, birth = b\<rparr>)"
    by (rule block_download_new_ends [OF tr]) (use assms(8,9) in \<open>auto simp: new\<close>)
  moreover have "disconnected_while_down D fuel (Some (chash C x)) = Some (Ok [])"
    using assms(3,9) by (cases fuel) (auto simp: disconnected_while_down_def trunk_headers_def)
  ultimately have "bitcoin_start C W' T' D fuel b s' = Some (Ok (set_tx_sender s',
      \<lparr>blocks_wanted = ?wanted, blocks_asked = [], download_peer = None :: 'i option, birth = b\<rparr>))"
    by (simp add: bitcoin_start_eq [OF rp] above)
  then show ?thesis using assms(6) by auto
qed

end
