(* ===== verification/Resume.thy ===== *)
theory Resume
  imports Chain_Sync
begin

text \<open>
  The contract between the block download and its downstream, and what follows from it: a
  node that is stopped and started again resumes with the blocks it had not received.
\<close>

section \<open>The downstream\<close>

text \<open>
  What the download relies on: the downstream marks the last block it was given, headers do not move the mark,
  and all else does not reach it. The state of the trunk may change between two calls; it
  is the environment \<open>'e\<close>. \<open>enc\<close> is the form in which a block hash is marked.
\<close>

locale downstream =
  fixes C :: "('p, 'k) crates" and act :: "'e \<Rightarrow> 'i net_action \<Rightarrow> 's \<Rightarrow> 's outcome"
    and mark :: "'s \<Rightarrow> 'x option" and enc :: "hash \<Rightarrow> 'x"
  assumes act_other: "\<not> queue_action a \<Longrightarrow> act e a s = Ok s"
    and act_block: "act e (Block_connected b n) s = Ok s' \<Longrightarrow> mark s' = Some (enc (header_hash C (header b)))"
    and act_header: "act e (Header_connected h n) s = Ok s' \<Longrightarrow> mark s' = mark s"
    and act_unwound: "act e (Block_disconnected h) s = Ok s' \<Longrightarrow> mark s' = Some (enc (prev_blockhash h))"
begin

lemma mark_step:
  assumes "act e a s = Ok s'" and "\<not> retraction a"
  shows "mark s' = (case delivered C [a] of [] \<Rightarrow> mark s | x # _ \<Rightarrow> Some (enc (fst x)))"
  using assms act_block act_header act_other [of a e s] by (cases a) auto

lemma delivered_append: "delivered C (as @ bs) = delivered C as @ delivered C bs"
proof (induction as)
  case (Cons a as)
  then show ?case by (cases a) auto
qed simp

text \<open>After a run without retraction the mark is the last block handed over.\<close>

lemma mark_run:
  assumes "ofold (\<lambda>(e, a). act e a) xs s = Ok s'" and "filter retraction (map snd xs) = []"
  shows "mark s' = (if delivered C (map snd xs) = [] then mark s
                    else Some (enc (fst (last (delivered C (map snd xs))))))"
  using assms
proof (induction xs arbitrary: s)
  case (Cons x xs)
  obtain e a where x: "x = (e, a)" by (cases x)
  with Cons.prems obtain s1 where s1: "act e a s = Ok s1" and rest: "ofold (\<lambda>(e, a). act e a) xs s1 = Ok s'"
    by auto
  have na: "\<not> retraction a" and nr: "filter retraction (map snd xs) = []"
    using Cons.prems(2) x by (auto split: if_splits)
  have d: "delivered C (a # map snd xs) = delivered C [a] @ delivered C (map snd xs)"
    using delivered_append [of "[a]" "map snd xs"] by simp
  have "delivered C [a] = [] \<or> (\<exists>y. delivered C [a] = [y])" by (cases a) auto
  with Cons.IH [OF rest nr] mark_step [OF s1 na] show ?case by (auto simp: x d)
qed simp

end

section \<open>The store as a downstream\<close>

lemma delete_expired_processed: "delete_expired C n d = Ok (keys, d') \<Longrightarrow> processed_tbl d' = processed_tbl d"
  by (auto simp: delete_expired_def delete_ids_def)

lemma add_header_processed: "add_header C n h s = Ok s' \<Longrightarrow> processed_tbl (sdb s') = processed_tbl (sdb s)"
  by (auto simp: add_header_def dest: drop_keys_sdb delete_expired_processed)

lemma add_content_processed:
  assumes "add_content C T c s = Ok (b, s')"
  shows "processed_tbl (sdb s') = processed_tbl (sdb s)"
  using assms
proof (cases rule: add_content_cases)
  case (2 height hdr out str d)
  then have "d = (sdb s)\<lparr>content_tbl := upsert row_id
      (content_row_of C height (header_hash C hdr) c (out_value out) str) (content_tbl (sdb s))\<rparr>"
    using store_content_Ok by blast
  with 2 show ?thesis by simp
qed simp

lemma block_connected_processed:
  assumes "block_connected C W T b n s = Ok s'"
  shows "processed_tbl (sdb s') = Some (sha256d_to_hex C (header_hash C (header b)))"
proof -
  let ?f = "\<lambda>(tix, pk, i :: hash, a, term) s.
      (case a of
         None \<Rightarrow> Ok s
       | Some a \<Rightarrow> obind (add_content C T \<lparr>ad = a, funding = proof_new C b tix, funder = pk,
                                  content_term = term\<rparr> s) (\<lambda>(_, s). Ok s))"
  obtain changed w where w: "wallet_process W b (swallet s) = (changed, w)" by (cases "wallet_process W b (swallet s)")
  with assms obtain ps d where
    run: "ofold ?f ps (s\<lparr>swallet := w, sdb := store_processed C (header_hash C (header b)) d\<rparr>) = Ok s'"
    by (fastforce simp: block_connected_def Let_def)
  show ?thesis
    by (rule ofold_invariant [OF run])
      (auto simp: store_processed_def dest!: add_content_processed split: option.splits)
qed

lemma driver_other: "\<not> queue_action a \<Longrightarrow> driver C W T a s = Ok s"
  by (cases a) auto

interpretation store_downstream: downstream C "driver C W" "\<lambda>s. processed_tbl (sdb s)" "sha256d_to_hex C" for C W
  by unfold_locales
    (auto simp: driver_other dest: block_connected_processed add_header_processed unwind_tip_processed)

section \<open>The trunk has no block twice\<close>

lemma linked_unique: "linked C D (x # xs) \<Longrightarrow> linked C D (x # ys) \<Longrightarrow> xs = ys"
proof (induction xs arbitrary: x ys)
  case Nil
  then show ?case by (cases ys) auto
next
  case (Cons a xs)
  then obtain b zs where ys: "ys = b # zs" by (cases ys) auto
  with Cons.prems have "a = b" by auto
  with Cons.prems ys show ?case using Cons.IH [of a zs] by auto
qed

lemma linked_suffix: "linked C D (as @ x # bs) \<Longrightarrow> linked C D (x # bs)"
proof (induction as)
  case (Cons a as)
  then show ?case by (cases as) auto
qed simp

lemma linked_distinct: "linked C D hs \<Longrightarrow> distinct hs"
proof (induction hs)
  case (Cons x hs)
  have "x \<notin> set hs"
  proof
    assume "x \<in> set hs"
    then obtain as bs where hs: "hs = as @ x # bs" by (auto simp: in_set_conv_decomp)
    then have "linked C D (x # bs)" using linked_suffix [of C D "x # as" x bs] Cons.prems by simp
    then have "hs = bs" using linked_unique [OF Cons.prems] by simp
    with hs show False by simp
  qed
  moreover have "distinct hs" using Cons by (cases hs) auto
  ultimately show ?case by simp
qed simp

text \<open>Going on from a block in the middle of the wanted ones.\<close>

lemma blocks_above_resume:
  assumes "trunk_headers C D hs" and "blocks_above C stop_at b hs = del @ rest" and "del \<noteq> []"
  shows "\<exists>x \<in> set hs. chash C x = fst (last del) \<and> blocks_above C (chash C x) b hs = rest"
proof -
  let ?f = "\<lambda>h. (chash C h, stored_height h)" and ?P = "\<lambda>h. chash C h \<noteq> stop_at \<and> \<not> older b h"
  obtain ys zs where tw: "takeWhile ?P hs = ys @ zs" and ys: "map ?f ys = rev rest" and zs: "map ?f zs = rev del"
    using assms(2) unfolding blocks_above_def rev_swap by (auto simp: map_eq_append_conv)
  then obtain x zs' where x: "zs = x # zs'" and fx: "?f x = last del"
    using assms(3) by (cases zs; cases del rule: rev_cases) auto
  obtain tail where hs: "hs = ys @ x # zs' @ tail"
    using takeWhile_dropWhile_id [of ?P hs] tw x by (metis append.assoc append_Cons)
  have young: "\<not> older b y" if "y \<in> set ys" for y
    using that tw set_takeWhileD [of y ?P hs] by auto
  have "distinct hs" using assms(1) linked_distinct by (auto simp: trunk_headers_def)
  then have "chash C y \<noteq> chash C x \<and> \<not> older b y" if "y \<in> set ys" for y
    using that young trunk_headers_inj [OF assms(1), of y x] by (auto simp: hs)
  then have "blocks_above C (chash C x) b hs = rev (map ?f ys)"
    unfolding blocks_above_def hs by (subst takeWhile_split) auto
  moreover have "chash C x = fst (last del)" by (simp flip: fx)
  ultimately show ?thesis using ys by (intro bexI [of _ x]) (auto simp: hs)
qed

text \<open>What a restart wants when the last processed block is on the trunk.\<close>

lemma restart_after_processed:
  assumes "crates_ok C" and "processed_tbl (sdb s) = Some (sha256d_to_hex C (chash C x))" and "length (chash C x) = DIGEST_LEN"
    and "trunk_headers C D (h # hs)" and "x \<in> set (h # hs)" and "b < ucast (hd_time (stored_header h))"
    and "length hs + 2 \<le> fuel"
  shows "bitcoin_start C W T D fuel b s =
    Some (Ok (set_tx_sender s, \<lparr>blocks_wanted = blocks_above C (chash C x) b (h # hs), blocks_asked = [],
      download_peer = None :: 'i option, birth = b\<rparr>))"
proof -
  have rp: "read_processed C (sdb s) = Ok (Some (chash C x))"
    using crates_okD(5) [OF assms(1)] assms(2,3) by (simp add: read_processed_def)
  have down: "disconnected_while_down D fuel (Some (chash C x)) = Some (Ok [])"
    using assms(4,5,7) by (cases fuel) (auto simp: disconnected_while_down_def trunk_headers_def)
  have "bitcoin_start C W T D fuel b s =
      map_option (\<lambda>r. obind r (\<lambda>bd. Ok (set_tx_sender s, bd :: 'i block_download)))
        (block_download_new C D fuel (Some (chash C x)) b)"
    by (rule bitcoin_start_eq [OF rp down]) simp
  moreover have "block_download_new C D fuel (Some (chash C x)) b =
      Some (Ok \<lparr>blocks_wanted = blocks_above C (chash C x) b (h # hs), blocks_asked = [],
                download_peer = None :: 'i option, birth = b\<rparr>)"
    by (rule block_download_new_ends [OF assms(4,6) _ _ assms(7)]) (use assms(5) in auto)
  ultimately show ?thesis by simp
qed

text \<open>
  C10. A node resumes where it stopped. Let nothing be unwound during a run, and let no header of a side
  chain be announced: the blocks pending at the start of the run, followed by those announced since, are
  exactly the blocks of the trunk above some block, oldest first, as far back as the birth. Then a
  restart after some blocks were delivered unwinds nothing and wants exactly the blocks that were
  asked for or wanted when the node stopped. (A header of a side chain is announced and its
  block is wanted too; if such a block is the last one delivered, the restart unwinds it.)
\<close>

theorem restart_resumes:
  fixes xs :: "(trunk \<times> 'i net_action) list"
  assumes "crates_ok C" and "\<forall>h. length (header_hash C h) = DIGEST_LEN"
    and "download_run C B (bd, d) (map snd xs) (bd', d')" and "filter retraction (map snd xs) = []"
    and "delivered C (map snd xs) \<noteq> []" and "ofold (\<lambda>(T, a). driver C W T a) xs s = Ok s'"
    and "trunk_headers C (view B d') (h # hs)" and "b < ucast (hd_time (stored_header h))"
    and "blocks_asked bd @ blocks_wanted bd @ announced C (map snd xs) = blocks_above C stop_at b (h # hs)"
    and "length hs + 2 \<le> fuel"
  shows "bitcoin_start C W' T' (view B d') fuel b s' =
    Some (Ok (set_tx_sender s', \<lparr>blocks_wanted = blocks_asked bd' @ blocks_wanted bd', blocks_asked = [],
      download_peer = None :: 'i option, birth = b\<rparr>))"
proof -
  let ?D = "view B d'" and ?del = "delivered C (map snd xs)" and ?rest = "blocks_asked bd' @ blocks_wanted bd'"
  have "blocks_above C stop_at b (h # hs) = ?del @ ?rest"
    using pending_balance [OF download_run_pending [OF assms(3)] assms(4)] assms(9) by (simp add: queue_def)
  then obtain x where x: "x \<in> set (h # hs)" "chash C x = fst (last ?del)"
    and above: "blocks_above C (chash C x) b (h # hs) = ?rest"
    using blocks_above_resume [OF assms(7) _ assms(5)] by blast
  have "processed_tbl (sdb s') = Some (sha256d_to_hex C (chash C x))"
    using store_downstream.mark_run [OF assms(6,4)] assms(5) x(2) by simp
  then show ?thesis
    using restart_after_processed [OF assms(1) _ _ assms(7) x(1) assms(8,10), where s = s' and ?'i = 'i] assms(2)
    by (simp add: above)
qed

end
