(* ===== verification/Startup.thy ===== *)
theory Startup
  imports Chain_Sync
begin

text \<open>
  The main program, \<^verbatim>\<open>src/defiads/main.rs\<close>, as far as it decides something: what the options
  mean, how the wallet is created on the first start and opened on a later one, the rescan,
  and the content store the threads share. The dialogue that creates a wallet is in \<open>Wallet_New\<close>, the
  command line in \<open>Options\<close> and the start of the threads in \<open>Main_Program\<close>.
\<close>

section \<open>Options\<close>

datatype network = Bitcoin | Testnet | Regtest

text \<open>How many connections to keep: without discovery as many as there are given peers.\<close>

definition connection_target :: "string \<Rightarrow> bool \<Rightarrow> socket_addr list \<Rightarrow> nat \<Rightarrow> nat outcome" where
  "connection_target name discovery peers connections =
     (if \<not> discovery then
        (if length peers = 0
         then Panic (Expect_failed (''You have to provide '' @ name @ ''-peers or enable '' @ name @ ''-discovery''))
         else Ok (length peers))
      else Ok connections)"

fun set_port :: "socket_addr \<Rightarrow> u16 \<Rightarrow> socket_addr" where
  "set_port (V4 a b c d _) p = V4 a b c d p"
| "set_port (V6 s _) p = V6 s p"

fun get_port :: "socket_addr \<Rightarrow> u16" where
  "get_port (V4 _ _ _ _ p) = p"
| "get_port (V6 _ p) = p"

definition network_socket :: "network \<Rightarrow> socket_addr \<Rightarrow> socket_addr" where
  "network_socket net sock = (if net \<noteq> Bitcoin then set_port sock (get_port sock + 100) else sock)"

definition storage_limit_option :: "u64 \<Rightarrow> u64" where
  "storage_limit_option n = n * 1000 * 1000"

section \<open>The wallet\<close>

record config =
  apikey :: rstring
  encryptedwalletkey :: string
  keyroot :: string
  lookahead :: u32
  cfg_birth :: u64

text \<open>
  The functions of the crates \<^verbatim>\<open>toml\<close>, \<^verbatim>\<open>bitcoin\<close> and \<^verbatim>\<open>bitcoin_wallet\<close> on the configuration file and
  the key hierarchy: \<open>master_from_encrypted\<close> also reads the text of the root key,
  \<open>add_stored_account\<close> also reads the stored columns.
\<close>

record 'm start_crates =
  read_config :: "string \<Rightarrow> config option"
  write_config :: "config \<Rightarrow> string"
  master_from_encrypted :: "bytes \<Rightarrow> string \<Rightarrow> u64 \<Rightarrow> 'm option"
  master_network :: "'m \<Rightarrow> network"
  master_encrypted :: "'m \<Rightarrow> bytes"
  master_root :: "'m \<Rightarrow> string"
  master_birth :: "'m \<Rightarrow> u64"
  add_stored_account :: "'m \<Rightarrow> u32 \<times> u32 \<Rightarrow> network \<Rightarrow> u32 \<Rightarrow> u32 \<times> string \<times> bytes \<Rightarrow> 'm option"

definition KEY_LOOK_AHEAD :: u32 where
  "KEY_LOOK_AHEAD = 10"

definition open_account ::
  "'m start_crates \<Rightarrow> network \<Rightarrow> db \<Rightarrow> (u32 \<times> u32) \<times> u32 \<times> string \<Rightarrow> 'm \<Rightarrow> 'm outcome" where
  "open_account X net d x m =
     (case x of (a, ahead, msg) \<Rightarrow>
        obind (expect_ok msg (read_account (fst a) (snd a) d))
          (\<lambda>cols. expect ''malformed account stored'' (add_stored_account X m a net ahead cols)))"

definition open_wallet ::
  "'m start_crates \<Rightarrow> ('p, 'k) crates \<Rightarrow> ('p, 'k, 'c, 'm, 'u) wallet_crates \<Rightarrow> network \<Rightarrow> string \<Rightarrow> db
   \<Rightarrow> (config \<times> ('c, 'm) wallet) outcome" where
  "open_wallet X C W net config_string d =
     obind (expect ''can not parse config file'' (read_config X config_string))
       (\<lambda>cfg. obind (expect ''encryptedwalletkey is not hex'' (hex_decode W (encryptedwalletkey cfg)))
       (\<lambda>enc. obind (expect ''keyroot is malformed'' (master_from_encrypted X enc (keyroot cfg) (cfg_birth cfg)))
       (\<lambda>m. if net \<noteq> master_network X m then Panic Assert_failed
            else obind (ofold (open_account X net d)
                   [((0, 0), lookahead cfg, ''can not read account 0/0''),
                    ((0, 1), lookahead cfg, ''can not read account 0/1''),
                    ((1, 0), 0, ''can not read account 1/0'')] m)
       (\<lambda>m. obind (expect_ok ''can not read coins'' (read_coins C W m d))
       (\<lambda>(cs, m). obind (wallet_from_storage W cs m) (\<lambda>w. Ok (cfg, w)))))))"

text \<open>What the program asks a wallet for.\<close>

definition wallet_master_public :: "'m start_crates \<Rightarrow> ('c, 'm) wallet \<Rightarrow> string" where
  "wallet_master_public X w = master_root X (master w)"

definition wallet_encrypted :: "'m start_crates \<Rightarrow> ('c, 'm) wallet \<Rightarrow> bytes" where
  "wallet_encrypted X w = master_encrypted X (master w)"

definition wallet_birth :: "'m start_crates \<Rightarrow> ('c, 'm) wallet \<Rightarrow> u64" where
  "wallet_birth X w = master_birth X (master w)"

definition wallet_confirmed_balance :: "('p, 'k, 'c, 'm, 'u) wallet_crates \<Rightarrow> ('c, 'm) wallet \<Rightarrow> u64" where
  "wallet_confirmed_balance W w = confirmed_balance W (coins w)"

definition wallet_unconfirmed_balance :: "('p, 'k, 'c, 'm, 'u) wallet_crates \<Rightarrow> ('c, 'm) wallet \<Rightarrow> u64" where
  "wallet_unconfirmed_balance W w = unconfirmed_balance W (coins w)"

lemmas wallet_accessors = wallet_master_public_def wallet_encrypted_def wallet_birth_def

lemma wallet_balance_split: "wallet_balance W w = wallet_confirmed_balance W w + wallet_unconfirmed_balance W w"
  by (simp add: wallet_balance_def wallet_confirmed_balance_def wallet_unconfirmed_balance_def)

text \<open>The first start: the wallet is new, \<open>key\<close> is the base 64 text of twelve random bytes.\<close>

definition create_wallet ::
  "'m start_crates \<Rightarrow> ('p, 'k) crates \<Rightarrow> ('p, 'k, 'c, 'm, 'u) wallet_crates \<Rightarrow> rstring \<Rightarrow> ('c, 'm) wallet \<Rightarrow> db
   \<Rightarrow> (config \<times> string \<times> db) outcome" where
  "create_wallet X C W key w d =
     (let cfg = \<lparr>apikey = key, encryptedwalletkey = hex_encode W (wallet_encrypted X w),
                 keyroot = wallet_master_public X w, lookahead = KEY_LOOK_AHEAD,
                 cfg_birth = wallet_birth X w\<rparr>
      in obind (expect_ok ''can not store new wallet's coins'' (store_coins C W (coins w) d))
           (\<lambda>d. obind (expect_ok ''can not store new master account'' (store_master W (master w) d))
           (\<lambda>(_, d). Ok (cfg, write_config X cfg, d))))"

section \<open>Rescan and start of the store\<close>

text \<open>\<open>trunk_rev\<close> is what \<^verbatim>\<open>iter_trunk_rev(None)\<close> of the header cache yields.\<close>

definition main_rescan ::
  "('p, 'k) crates \<Rightarrow> ('p, 'k, 'c, 'm, 'u) wallet_crates \<Rightarrow> u64 \<Rightarrow> cached_header list \<Rightarrow> db \<Rightarrow> ('c, 'm) wallet
   \<Rightarrow> db \<times> ('c, 'm) wallet" where
  "main_rescan C W b trunk_rev d w =
     (case find (\<lambda>t. ucast (hd_time (stored_header t)) < b) trunk_rev of
        None \<Rightarrow> (d, w)
      | Some t \<Rightarrow> (rescan C (header_hash C (stored_header t)) d, wallet_rescan W w))"

definition main_store ::
  "('p, 'k) crates \<Rightarrow> ('p, 'k, 'c, 'm, 'u) wallet_crates \<Rightarrow> config \<Rightarrow> u64 \<Rightarrow> bool \<Rightarrow> cached_header list
   \<Rightarrow> db \<Rightarrow> ('c, 'm) wallet \<Rightarrow> ('c, 'm) store outcome" where
  "main_store C W cfg limit_gb do_rescan trunk_rev d w =
     (case (if do_rescan then main_rescan C W (cfg_birth cfg) trunk_rev d w else (d, w)) of
        (d, w) \<Rightarrow> expect_ok ''can not initialize content store''
                   (store_new C d (storage_limit_option limit_gb) w))"

section \<open>A wallet is opened as it was created\<close>

lemma read_account_other:
  assumes "store_account W m a d = Some d'" and "b \<noteq> a"
  shows "read_account (fst b) (snd b) d' = read_account (fst b) (snd b) d"
proof -
  have "find P (filter Q xs @ [r]) = find P xs" if "\<not> P r" "\<And>x. P x \<Longrightarrow> Q x" for P Q and r :: account_row and xs
    using that by (induction xs) auto
  from this [of "\<lambda>r. acc_account r = fst b \<and> acc_sub r = snd b"] assms show ?thesis
    by (cases a; cases b) (auto simp: store_account_def read_account_def upsert_def)
qed

lemma store_account_columns:
  assumes "store_account W m a d = Some d'" shows "\<exists>cols. account_columns W m a = Some cols"
  using assms by (auto simp: store_account_def)

lemma store_master_reads:
  assumes "ofold (\<lambda>a (n, d). obind (unwrap (store_account W m a d)) (\<lambda>d. Ok (n + 1, d))) as (k, d) = Ok (n, d')"
    and "b \<in> set as \<or> (\<exists>cols. account_columns W m b = Some cols \<and> read_account (fst b) (snd b) d = Ok cols)"
  shows "\<exists>cols. account_columns W m b = Some cols \<and> read_account (fst b) (snd b) d' = Ok cols"
  using assms
proof (induction as arbitrary: k d)
  case (Cons a as)
  then obtain e where e: "store_account W m a d = Some e"
    and rest: "ofold (\<lambda>a (n, d). obind (unwrap (store_account W m a d)) (\<lambda>d. Ok (n + 1, d))) as (k + 1, e) = Ok (n, d')"
    by (auto simp: unwrap_def split: option.splits)
  have "b \<in> set as \<or> (\<exists>cols. account_columns W m b = Some cols \<and> read_account (fst b) (snd b) e = Ok cols)"
  proof (cases "b = a")
    case True
    then show ?thesis using store_account_columns [OF e] store_read_account [OF _ e] by auto
  next
    case False
    then show ?thesis using Cons.prems(2) read_account_other [OF e False] by auto
  qed
  with rest show ?case by (rule Cons.IH)
qed auto

text \<open>
  The hierarchy can be restored: the encrypted key with the root key gives the hierarchy
  without accounts, and reading the columns of an account back adds that account.
\<close>

definition master_restorable ::
  "'m start_crates \<Rightarrow> ('p, 'k, 'c, 'm, 'u) wallet_crates \<Rightarrow> network \<Rightarrow> 'm \<Rightarrow> bool" where
  "master_restorable X W net m \<longleftrightarrow>
     {(0, 0), (0, 1), (1, 0)} \<subseteq> set (account_numbers W m)
     \<and> (\<exists>m0 m1 m2. master_from_encrypted X (master_encrypted X m) (master_root X m) (master_birth X m) = Some m0
          \<and> master_network X m0 = net
          \<and> Option.bind (account_columns W m (0, 0)) (add_stored_account X m0 (0, 0) net KEY_LOOK_AHEAD) = Some m1
          \<and> Option.bind (account_columns W m (0, 1)) (add_stored_account X m1 (0, 1) net KEY_LOOK_AHEAD) = Some m2
          \<and> Option.bind (account_columns W m (1, 0)) (add_stored_account X m2 (1, 0) net 0) = Some m)"

lemma store_coins_empty:
  assumes "confirmed_coins W cs = []" and "txout_tbl d = []" and "store_coins C W cs d = Ok d'"
  shows "coins_tbl d' = [] \<and> txout_tbl d' = []"
  using assms by (auto simp: store_coins_def Let_def read_unconfirmed_def)

lemma store_master_tables:
  assumes "store_master W m d = Ok (n, d')"
  shows "coins_tbl d' = coins_tbl d \<and> txout_tbl d' = txout_tbl d"
proof -
  let ?I = "\<lambda>(k :: nat, e). coins_tbl e = coins_tbl d \<and> txout_tbl e = txout_tbl d"
  have "?I (n, d')"
    by (rule ofold_invariant [OF assms [unfolded store_master_def], of ?I])
      (auto simp: unwrap_def store_account_def split: option.splits)
  then show ?thesis by simp
qed

text \<open>
  The first start leaves a wallet that the next start opens: with the configuration file and the
  database as they were written, opening gives the same configuration and the same wallet.
\<close>

lemma created_wallet_opens:
  assumes "hex_ok W" and "read_config X (write_config X cfg) = Some cfg"
    and "master_restorable X W net (master w)" and "coins w = coins_new W"
    and "confirmed_coins W (coins_new W) = []" and "unconfirmed_coins W (coins_new W) = []"
    and "txout_tbl d = []" and "create_wallet X C W key w d = Ok (cfg, str, d')"
  shows "open_wallet X C W net str d' = Ok (cfg, w)"
proof -
  obtain d1 n where d1: "store_coins C W (coins w) d = Ok d1" and sm: "store_master W (master w) d1 = Ok (n, d')"
    and cfg: "cfg = \<lparr>apikey = key, encryptedwalletkey = hex_encode W (master_encrypted X (master w)),
        keyroot = master_root X (master w), lookahead = KEY_LOOK_AHEAD, cfg_birth = master_birth X (master w)\<rparr>"
    and str: "str = write_config X cfg"
    using assms(8) by (auto simp: create_wallet_def wallet_accessors Let_def)
  have tbl: "coins_tbl d' = []" "txout_tbl d' = []"
    using store_coins_empty [OF _ assms(7) d1] store_master_tables [OF sm] assms(4,5) by auto
  have acc: "\<exists>cols. account_columns W (master w) b = Some cols \<and> read_account (fst b) (snd b) d' = Ok cols"
    if "b \<in> set (account_numbers W (master w))" for b
    using store_master_reads [OF sm [unfolded store_master_def]] that by blast
  have "read_coins C W m d' = Ok (coins_new W, m)" for m
    by (simp add: read_coins_def tbl)
  moreover have "wallet_from_storage W (coins_new W) (master w) = Ok w"
    by (cases w) (use assms(4-6) in \<open>simp add: wallet_from_storage_def\<close>)
  ultimately show ?thesis
    using assms(1,3) acc [of "(0, 0)"] acc [of "(0, 1)"] acc [of "(1, 0)"]
    by (auto simp: open_wallet_def str assms(2) [unfolded cfg] cfg hex_ok_def master_restorable_def open_account_def)
qed

section \<open>Rescan\<close>

lemma find_first:
  assumes "find P xs = Some x"
  shows "\<exists>ys zs. xs = ys @ x # zs \<and> P x \<and> (\<forall>y \<in> set ys. \<not> P y)"
  using assms
proof (induction xs)
  case (Cons a xs)
  show ?case
  proof (cases "P a")
    case True
    with Cons.prems show ?thesis by (intro exI [of _ "[]"] exI [of _ xs]) auto
  next
    case False
    with Cons obtain ys zs where "xs = ys @ x # zs" "P x" "\<forall>y \<in> set ys. \<not> P y" by auto
    with False show ?thesis by (intro exI [of _ "a # ys"] exI [of _ zs]) auto
  qed
qed simp

lemma trunk_headers_not_default:
  assumes "trunk_headers C D hs" and "y \<in> set hs"
  shows "chash C y \<noteq> hash_default"
  using assms linked_not_default by (cases hs) (fastforce simp: trunk_headers_def)+

lemma blocks_above_first_older:
  assumes "trunk_headers C D (ys @ x # zs)" and "older b x" and "\<forall>y \<in> set ys. \<not> older b y"
    and "stop_at = chash C x \<or> stop_at = hash_default"
  shows "blocks_above C stop_at b (ys @ x # zs) = rev (map (\<lambda>h. (chash C h, stored_height h)) ys)"
proof -
  have "chash C y \<noteq> stop_at \<and> \<not> older b y" if "y \<in> set ys" for y
    using assms(2-4) that trunk_headers_inj [OF assms(1), of y x] trunk_headers_not_default [OF assms(1), of y]
    by auto
  then show ?thesis using assms(2) by (simp add: blocks_above_def takeWhile_split)
qed

text \<open>
  C25. A rescan starts over: the store of a node started with the option has no coins and no unconfirmed
  transactions, keeps the content, and the download wants every block since the birth of the
  wallet, provided the header cache reaches back beyond the birth.
\<close>

theorem rescan_starts_over:
  assumes "crates_ok C" and "trunk_headers C D (h # hs)" and "cfg_birth cfg < ucast (hd_time (stored_header h))"
    and "find (older (cfg_birth cfg)) (h # hs) = Some x" and "length (chash C x) = DIGEST_LEN"
    and "main_store C W cfg gb True (h # hs) d w = Ok s" and "length hs + 2 \<le> fuel"
  shows "coins (swallet s) = coins_new W \<and> coins_tbl (sdb s) = [] \<and> txout_tbl (sdb s) = []
    \<and> content_tbl (sdb s) = content_tbl d
    \<and> bitcoin_start C W T D fuel (cfg_birth cfg) s = Some (Ok (set_tx_sender s,
        \<lparr>blocks_wanted = rev (map (\<lambda>h. (chash C h, stored_height h))
            (takeWhile (\<lambda>h. \<not> older (cfg_birth cfg) h) (h # hs))),
         blocks_asked = [], download_peer = None :: 'i option, birth = cfg_birth cfg\<rparr>))"
proof -
  let ?b = "cfg_birth cfg" and ?d = "rescan C (chash C x) d"
  obtain ys zs where tr: "h # hs = ys @ x # zs" and x: "older ?b x" and ys: "\<forall>y \<in> set ys. \<not> older ?b y"
    using find_first [OF assms(4)] by blast
  have s: "sdb s = ?d" "swallet s = wallet_rescan W w"
    using assms(4,6) by (auto simp: main_store_def main_rescan_def older_def [abs_def] store_new_def split: prod.splits)
  obtain processed where rp: "read_processed C ?d = Ok processed" and p: "processed = None \<or> processed = Some (chash C x)"
    using crates_okD [OF assms(1)] assms(5)
    by (cases "processed_tbl d") (auto simp: read_processed_def rescan_def)
  have down: "disconnected_while_down D fuel processed = Some (Ok [])"
    using p assms(2,7) tr by (cases fuel) (auto simp: disconnected_while_down_def trunk_headers_def)
  have "block_download_new C D fuel processed ?b =
      Some (Ok \<lparr>blocks_wanted = blocks_above C (case processed of Some p \<Rightarrow> p | None \<Rightarrow> hash_default) ?b (h # hs),
                blocks_asked = [], download_peer = None :: 'i option, birth = ?b\<rparr>)"
    by (rule block_download_new_ends [OF assms(2,3) refl _ assms(7)]) (use x tr in auto)
  moreover have "blocks_above C (case processed of Some p \<Rightarrow> p | None \<Rightarrow> hash_default) ?b (h # hs)
      = rev (map (\<lambda>h. (chash C h, stored_height h)) ys)"
    unfolding tr by (rule blocks_above_first_older [OF assms(2) [unfolded tr] x ys]) (use p in auto)
  moreover have "takeWhile (\<lambda>h. \<not> older ?b h) (h # hs) = ys"
    unfolding tr using x ys by (simp add: takeWhile_split)
  moreover have "bitcoin_start C W T D fuel ?b s =
      map_option (\<lambda>r. obind r (\<lambda>bd. Ok (set_tx_sender s, bd :: 'i block_download)))
        (block_download_new C D fuel processed ?b)"
    by (rule bitcoin_start_eq [OF rp [folded s(1)] down]) simp
  ultimately show ?thesis using s by (simp add: rescan_def wallet_rescan_def)
qed

end
