(* ===== verification/Address_Book.thy ===== *)
theory Address_Book
  imports Database
begin

text \<open>
  The address table, \<^verbatim>\<open>src/db.rs\<close> from \<^verbatim>\<open>compute_address_iblt\<close> on: a table of a fixed number of
  slots per network. The slot of an address is a keyed hash of its segments, without the
  port, so that an address is found, and other addresses are displaced, in one place only.
  The time is an argument of every operation that reads the clock. Times are unsigned in the
  code and signed in the engine: a comparison inside SQL is one of \<open>sint\<close>.
\<close>

section \<open>Operations\<close>

definition ADDRESS_SLOTS :: u64 where
  "ADDRESS_SLOTS = 10000"

definition OLD_CONNECTION :: u64 where
  "OLD_CONNECTION = 5 * 24 * 60 * 60"

definition BAN_TIME :: u64 where
  "BAN_TIME = 60 * 60 * 24"

definition address_slot :: "hash_crates \<Rightarrow> u64 \<times> u64 \<Rightarrow> string \<Rightarrow> socket_addr \<Rightarrow> u16" where
  "address_slot H seed network a =
     (case seed of (k0, k1) \<Rightarrow>
        ucast (siphash H k0 k1 (map of_char network # map (le_u16 H) (address (net_address_new a)))
               mod ADDRESS_SLOTS))"

text \<open>\<^verbatim>\<open>primary key(network, slot)\<close>\<close>

definition address_key :: "address_row \<Rightarrow> string \<times> u16" where
  "address_key r = (adr_network r, adr_slot r)"

definition put_address :: "address_row \<Rightarrow> db \<Rightarrow> nat \<times> db" where
  "put_address r d = (1, d\<lparr>address_tbl := upsert address_key r (address_tbl d)\<rparr>)"

text \<open>\<open>r0\<close> and \<open>r1\<close> are drawn for the seed if there is none yet.\<close>

definition store_address ::
  "hash_crates \<Rightarrow> u64 \<Rightarrow> u64 \<Rightarrow> u64 \<Rightarrow> string \<Rightarrow> socket_addr \<Rightarrow> u64 \<Rightarrow> u64 \<Rightarrow> u64 \<Rightarrow> db \<Rightarrow> nat \<times> db" where
  "store_address H r0 r1 now network a conn seen ban d =
     (case read_seed r0 r1 d of (seed, d1) \<Rightarrow>
        let slot = address_slot H seed network a;
            row = (\<lambda>c l b. \<lparr>adr_network = network, adr_slot = slot, adr_ip = a, adr_connected = c,
                            adr_last_seen = l, adr_banned = b\<rparr>)
        in (case find (\<lambda>r. adr_network r = network \<and> adr_slot r = slot) (address_tbl d1) of
              Some r \<Rightarrow>
                if adr_ip r \<noteq> a then
                  if adr_banned r > 0 \<or> adr_connected r < now - OLD_CONNECTION
                  then put_address (row conn seen ban) d1
                  else (0, d1)
                else put_address (row (max (adr_connected r) conn) (max (adr_last_seen r) seen)
                                    (max (adr_banned r) ban)) d1
            | None \<Rightarrow> put_address (row conn seen ban) d1))"

text \<open>
  \<open>sample\<close> is the number drawn from the Poisson distribution, \<open>other_than\<close> the addresses to
  avoid.
\<close>

definition eligible_addresses :: "u64 \<Rightarrow> string \<Rightarrow> socket_addr set \<Rightarrow> db \<Rightarrow> socket_addr list" where
  "eligible_addresses now network other_than d =
     filter (\<lambda>a. a \<notin> other_than)
       (map adr_ip (sort_key (\<lambda>r. - sint (adr_last_seen r))
          (filter (\<lambda>r. adr_network r = network \<and> sint (adr_banned r) < sint (now - BAN_TIME))
             (address_tbl d))))"

definition get_an_address :: "u64 \<Rightarrow> nat \<Rightarrow> string \<Rightarrow> socket_addr set \<Rightarrow> db \<Rightarrow> socket_addr option" where
  "get_an_address now sample network other_than d =
     (let eligible = eligible_addresses now network other_than d; len = length eligible
      in if len = 0 then None else Some (eligible ! min (len - 1) sample))"

text \<open>The query of \<^verbatim>\<open>compute_address_iblt\<close> and \<^verbatim>\<open>compute_address_sketch\<close>.\<close>

definition recent_addresses :: "u64 \<Rightarrow> db \<Rightarrow> net_address list" where
  "recent_addresses now d =
     (let yesterday = now - 24 * 60 * 60
      in map (\<lambda>r. net_address_new (adr_ip r))
           (filter (\<lambda>r. adr_network r = ''defiads'' \<and> sint (adr_last_seen r) > sint yesterday
                      \<and> sint (adr_banned r) < sint yesterday) (address_tbl d)))"

definition compute_address_iblt :: "hash_crates \<Rightarrow> u64 \<Rightarrow> u32 \<Rightarrow> db \<Rightarrow> net_address iblt outcome" where
  "compute_address_iblt H now len d =
     obind (iblt_new H (net_address_ops H) len NH K0 K1)
       (iblt_insert_all (net_address_ops H) (recent_addresses now d))"

definition compute_address_sketch ::
  "hash_crates \<Rightarrow> u64 \<Rightarrow> nat \<Rightarrow> db \<Rightarrow> (u64 list \<times> u32) outcome" where
  "compute_address_sketch H now len d =
     obind (min_sketch H (net_address_ops H) len K0 K1 (recent_addresses now d))
       (\<lambda>(sketch, _, n_keys). Ok (sketch, n_keys))"

section \<open>The slots\<close>

text \<open>
  Every row is in the slot of its address under the stored seed, and no slot is taken twice.
\<close>

definition addresses_ok :: "hash_crates \<Rightarrow> db \<Rightarrow> bool" where
  "addresses_ok H d \<longleftrightarrow> distinct (map address_key (address_tbl d))
     \<and> (\<forall>r \<in> set (address_tbl d). socket_wf (adr_ip r)
          \<and> (case seed_tbl d of
               None \<Rightarrow> False
             | Some seed \<Rightarrow> adr_slot r = address_slot H seed (adr_network r) (adr_ip r)))"

lemma addresses_ok_empty: "addresses_ok H db_empty"
  by (simp add: addresses_ok_def db_empty_def)

lemma read_seed_cases:
  obtains seed where "read_seed r0 r1 d = (seed, d\<lparr>seed_tbl := Some seed\<rparr>)"
    "seed_tbl d = Some seed \<or> seed_tbl d = None"
  by (cases "seed_tbl d") (auto simp: read_seed_def intro!: that)

lemma address_slot_less: "unat (address_slot H seed network a) < 10000"
proof -
  obtain k0 k1 where s: "seed = (k0, k1)" by (cases seed)
  define h where "h = siphash H k0 k1 (map of_char network # map (le_u16 H) (address (net_address_new a)))"
  have "unat (h mod 10000) < 10000" by (simp add: unat_mod)
  then have "unat (ucast (h mod 10000) :: u16) = unat (h mod 10000)"
    by (simp add: unsigned_ucast_eq take_bit_nat_eq_self)
  with \<open>unat (h mod 10000) < 10000\<close> show ?thesis
    by (simp add: address_slot_def s ADDRESS_SLOTS_def h_def [symmetric])
qed

lemma upsert_address_ok:
  assumes "distinct (map address_key tbl)"
  shows "distinct (map address_key (upsert address_key r tbl))"
  using assms by (auto simp: upsert_def distinct_map_filter)

lemma put_address_ok:
  assumes "addresses_ok H d" and "seed_tbl d = Some seed" and "socket_wf (adr_ip r)"
    and "adr_slot r = address_slot H seed (adr_network r) (adr_ip r)"
  shows "addresses_ok H (snd (put_address r d))"
  using assms upsert_address_ok [of "address_tbl d" r]
  by (auto simp: addresses_ok_def put_address_def upsert_def)

lemma addresses_ok_seed:
  assumes "addresses_ok H d" and "seed_tbl d = Some seed \<or> seed_tbl d = None"
  shows "addresses_ok H (d\<lparr>seed_tbl := Some seed\<rparr>)"
  using assms by (auto simp: addresses_ok_def)

text \<open>All branches of \<open>store_address\<close> at once.\<close>

lemma store_address_cases:
  obtains seed slot where
    "seed_tbl d = Some seed \<or> seed_tbl d = None" "slot = address_slot H seed network a"
    "(\<forall>r \<in> set (address_tbl d). address_key r \<noteq> (network, slot))
     \<and> store_address H r0 r1 now network a c l b d =
        put_address \<lparr>adr_network = network, adr_slot = slot, adr_ip = a, adr_connected = c,
                     adr_last_seen = l, adr_banned = b\<rparr> (d\<lparr>seed_tbl := Some seed\<rparr>)"
  | seed slot r where
    "seed_tbl d = Some seed \<or> seed_tbl d = None" "slot = address_slot H seed network a"
    "r \<in> set (address_tbl d)" "address_key r = (network, slot)"
    "store_address H r0 r1 now network a c l b d =
       (if adr_ip r = a then
          put_address \<lparr>adr_network = network, adr_slot = slot, adr_ip = a,
             adr_connected = max (adr_connected r) c, adr_last_seen = max (adr_last_seen r) l,
             adr_banned = max (adr_banned r) b\<rparr> (d\<lparr>seed_tbl := Some seed\<rparr>)
        else if adr_banned r > 0 \<or> adr_connected r < now - OLD_CONNECTION then
          put_address \<lparr>adr_network = network, adr_slot = slot, adr_ip = a, adr_connected = c,
             adr_last_seen = l, adr_banned = b\<rparr> (d\<lparr>seed_tbl := Some seed\<rparr>)
        else (0, d\<lparr>seed_tbl := Some seed\<rparr>))"
proof -
  obtain seed where s: "read_seed r0 r1 d = (seed, d\<lparr>seed_tbl := Some seed\<rparr>)"
    "seed_tbl d = Some seed \<or> seed_tbl d = None"
    by (rule read_seed_cases)
  let ?slot = "address_slot H seed network a"
  show thesis
  proof (cases "find (\<lambda>r. adr_network r = network \<and> adr_slot r = ?slot) (address_tbl d)")
    case None
    then have "\<forall>r \<in> set (address_tbl d). address_key r \<noteq> (network, ?slot)"
      by (auto simp: find_None_iff address_key_def)
    with None show thesis
      by (intro that(1) [OF s(2) refl]) (simp add: store_address_def s(1) Let_def)
  next
    case (Some r)
    then have r: "r \<in> set (address_tbl d)" "address_key r = (network, ?slot)"
      by (auto simp: find_Some_iff address_key_def)
    from Some show thesis
      by (intro that(2) [OF s(2) refl r]) (simp add: store_address_def s(1) Let_def)
  qed
qed


lemma store_address_ok:
  assumes "addresses_ok H d" and "socket_wf a"
  shows "addresses_ok H (snd (store_address H r0 r1 now network a c l b d))"
proof (rule store_address_cases [of d H network a r0 r1 now c l b])
  fix seed slot
  assume "seed_tbl d = Some seed \<or> seed_tbl d = None" "slot = address_slot H seed network a"
    and "(\<forall>r \<in> set (address_tbl d). address_key r \<noteq> (network, slot))
     \<and> store_address H r0 r1 now network a c l b d =
        put_address \<lparr>adr_network = network, adr_slot = slot, adr_ip = a, adr_connected = c,
                     adr_last_seen = l, adr_banned = b\<rparr> (d\<lparr>seed_tbl := Some seed\<rparr>)"
  then show ?thesis
    using put_address_ok [OF addresses_ok_seed [OF assms(1)]] assms(2) by simp
next
  fix seed slot r
  assume s: "seed_tbl d = Some seed \<or> seed_tbl d = None" and "slot = address_slot H seed network a"
    and "store_address H r0 r1 now network a c l b d =
       (if adr_ip r = a then
          put_address \<lparr>adr_network = network, adr_slot = slot, adr_ip = a,
             adr_connected = max (adr_connected r) c, adr_last_seen = max (adr_last_seen r) l,
             adr_banned = max (adr_banned r) b\<rparr> (d\<lparr>seed_tbl := Some seed\<rparr>)
        else if adr_banned r > 0 \<or> adr_connected r < now - OLD_CONNECTION then
          put_address \<lparr>adr_network = network, adr_slot = slot, adr_ip = a, adr_connected = c,
             adr_last_seen = l, adr_banned = b\<rparr> (d\<lparr>seed_tbl := Some seed\<rparr>)
        else (0, d\<lparr>seed_tbl := Some seed\<rparr>))"
  then show ?thesis
    using put_address_ok [OF addresses_ok_seed [OF assms(1) s]] addresses_ok_seed [OF assms(1) s] assms(2)
    by simp
qed

lemma addresses_ok_bounded:
  assumes "addresses_ok H d"
  shows "length (filter (\<lambda>r. adr_network r = network) (address_tbl d)) \<le> 10000"
proof -
  let ?rs = "filter (\<lambda>r. adr_network r = network) (address_tbl d)"
  have "distinct (map address_key ?rs)"
    using assms by (auto simp: addresses_ok_def intro: distinct_map_filter)
  then have "distinct (map (\<lambda>r. unat (adr_slot r)) ?rs)"
    by (auto simp: distinct_map inj_on_def address_key_def word_unat_eq_iff)
  moreover have "set (map (\<lambda>r. unat (adr_slot r)) ?rs) \<subseteq> {..<10000}"
    using assms by (auto simp: addresses_ok_def address_slot_less split: option.splits)
  ultimately have "card (set (map (\<lambda>r. unat (adr_slot r)) ?rs)) \<le> card {..<10000 :: nat}"
    by (intro card_mono) auto
  with \<open>distinct (map (\<lambda>r. unat (adr_slot r)) ?rs)\<close> show ?thesis
    by (simp only: distinct_card length_map card_lessThan)
qed

text \<open>
  The address table cannot be flooded: whatever addresses are stored, one after the other,
  a network never has more than ten thousand rows, each in the slot of its address.
\<close>

lemma address_book_bounded:
  assumes "addresses_ok H d" and "\<forall>(network, a, c, l, b) \<in> set xs. socket_wf a"
    and "d' = fold (\<lambda>(network, a, c, l, b) d. snd (store_address H r0 r1 now network a c l b d)) xs d"
  shows "addresses_ok H d' \<and> length (filter (\<lambda>r. adr_network r = n) (address_tbl d')) \<le> 10000"
proof -
  have "addresses_ok H d'"
    using assms(1,2) unfolding assms(3)
    by (induction xs arbitrary: d) (auto intro: store_address_ok)
  then show ?thesis using addresses_ok_bounded by blast
qed

text \<open>
  What storing an address does to the rows that are there: the row of the same address is
  kept with times that never go back; the row of another address in the slot goes only
  if it was banned or its last connection is older than five days; every other row stays.
\<close>

lemma store_address_keeps:
  assumes "addresses_ok H d" and "r \<in> set (address_tbl d)"
    and "d' = snd (store_address H r0 r1 now network a c l b d)"
  shows "r \<in> set (address_tbl d')
    \<or> (\<exists>r' \<in> set (address_tbl d'). address_key r' = address_key r \<and> adr_ip r' = a \<and>
         (if adr_ip r = a
          then adr_connected r' = max (adr_connected r) c \<and> adr_last_seen r' = max (adr_last_seen r) l
             \<and> adr_banned r' = max (adr_banned r) b
          else adr_banned r > 0 \<or> adr_connected r < now - OLD_CONNECTION))"
proof (rule store_address_cases [of d H network a r0 r1 now c l b])
  fix seed slot
  assume "(\<forall>r \<in> set (address_tbl d). address_key r \<noteq> (network, slot))
     \<and> store_address H r0 r1 now network a c l b d =
        put_address \<lparr>adr_network = network, adr_slot = slot, adr_ip = a, adr_connected = c,
                     adr_last_seen = l, adr_banned = b\<rparr> (d\<lparr>seed_tbl := Some seed\<rparr>)"
  then show ?thesis using assms(2) by (auto simp: assms(3) put_address_def upsert_def address_key_def)
next
  fix seed slot q
  assume q: "q \<in> set (address_tbl d)" "address_key q = (network, slot)"
    and st: "store_address H r0 r1 now network a c l b d =
       (if adr_ip q = a then
          put_address \<lparr>adr_network = network, adr_slot = slot, adr_ip = a,
             adr_connected = max (adr_connected q) c, adr_last_seen = max (adr_last_seen q) l,
             adr_banned = max (adr_banned q) b\<rparr> (d\<lparr>seed_tbl := Some seed\<rparr>)
        else if adr_banned q > 0 \<or> adr_connected q < now - OLD_CONNECTION then
          put_address \<lparr>adr_network = network, adr_slot = slot, adr_ip = a, adr_connected = c,
             adr_last_seen = l, adr_banned = b\<rparr> (d\<lparr>seed_tbl := Some seed\<rparr>)
        else (0, d\<lparr>seed_tbl := Some seed\<rparr>))"
  have "r = q" if "address_key r = (network, slot)"
    using assms(1,2) q that by (auto simp: addresses_ok_def distinct_map inj_on_def)
  then show ?thesis
    using assms(2) q(2) by (cases "address_key r = (network, slot)")
      (auto simp: assms(3) st put_address_def upsert_def address_key_def)
qed

lemma address_key_unique:
  "addresses_ok H d \<Longrightarrow> r \<in> set (address_tbl d) \<Longrightarrow> q \<in> set (address_tbl d) \<Longrightarrow> address_key r = address_key q \<Longrightarrow> r = q"
  by (auto simp: addresses_ok_def distinct_map inj_on_def)

lemma address_key_slot:
  assumes "addresses_ok H d" and "fst (read_seed r0 r1 d) = seed" and "r \<in> set (address_tbl d)"
  shows "address_key r = (adr_network r, address_slot H seed (adr_network r) (adr_ip r))"
  using assms by (auto simp: addresses_ok_def address_key_def read_seed_def split: option.splits)

text \<open>
  The slot of a stored address, under the seed the table has or draws: afterwards it holds the
  address, seen no earlier than told, or, still as it was, another one that is not banned and was
  connected during the last five days. The other slots are left alone.
\<close>

lemma store_address_slot:
  assumes "addresses_ok H d" and "fst (read_seed r0 r1 d) = seed"
    and "d' = snd (store_address H r0 r1 now network a c l b d)" and "slot = address_slot H seed network a"
  shows "seed_tbl d' = Some seed"
    and "\<exists>r \<in> set (address_tbl d'). address_key r = (network, slot)
      \<and> (adr_ip r = a \<and> l \<le> adr_last_seen r
         \<or> r \<in> set (address_tbl d) \<and> adr_ip r \<noteq> a \<and> adr_banned r = 0 \<and> now - OLD_CONNECTION \<le> adr_connected r)"
    and "address_key q \<noteq> (network, slot) \<Longrightarrow> q \<in> set (address_tbl d') \<longleftrightarrow> q \<in> set (address_tbl d)"
proof -
  have s: "read_seed r0 r1 d = (seed, d\<lparr>seed_tbl := Some seed\<rparr>)"
    using assms(2) by (cases "seed_tbl d") (auto simp: read_seed_def)
  let ?old = "find (\<lambda>r. adr_network r = network \<and> adr_slot r = slot) (address_tbl d)"
  have old: "r \<in> set (address_tbl d)" "adr_network r = network" "adr_slot r = slot" if "?old = Some r" for r
    using that by (auto simp: find_Some_iff)
  show "seed_tbl d' = Some seed"
    by (simp add: assms(3,4) store_address_def s put_address_def Let_def split: option.split)
  show "\<exists>r \<in> set (address_tbl d'). address_key r = (network, slot)
      \<and> (adr_ip r = a \<and> l \<le> adr_last_seen r
         \<or> r \<in> set (address_tbl d) \<and> adr_ip r \<noteq> a \<and> adr_banned r = 0 \<and> now - OLD_CONNECTION \<le> adr_connected r)"
  proof (cases ?old)
    case (Some r)
    with old [OF Some] show ?thesis
      by (auto simp: assms(3,4) store_address_def s put_address_def upsert_def address_key_def Let_def not_less)
  qed (simp add: assms(3,4) store_address_def s put_address_def upsert_def address_key_def Let_def)
  show "q \<in> set (address_tbl d') \<longleftrightarrow> q \<in> set (address_tbl d)" if "address_key q \<noteq> (network, slot)"
    using that
    by (auto simp: assms(3,4) store_address_def s put_address_def upsert_def address_key_def Let_def split: option.split)
qed

text \<open>An address that is banned, or was connected long ago, gives its slot to any other one.\<close>

lemma store_address_displaces:
  assumes "addresses_ok H d" and "seed_tbl d = Some seed" and "r \<in> set (address_tbl d)"
    and "address_key r = (network, address_slot H seed network x)" and "adr_ip r \<noteq> x"
    and "0 < adr_banned r \<or> adr_connected r < now - OLD_CONNECTION"
  shows "store_address H r0 r1 now network x c l b d =
    put_address \<lparr>adr_network = network, adr_slot = address_slot H seed network x, adr_ip = x, adr_connected = c,
      adr_last_seen = l, adr_banned = b\<rparr> d"
proof -
  have "\<exists>q. find (\<lambda>r. adr_network r = network \<and> adr_slot r = address_slot H seed network x) (address_tbl d) = Some q
      \<and> q \<in> set (address_tbl d) \<and> address_key q = address_key r"
    using assms(3,4)
    by (cases "find (\<lambda>r. adr_network r = network \<and> adr_slot r = address_slot H seed network x) (address_tbl d)")
      (auto simp: find_None_iff find_Some_iff address_key_def)
  then have "find (\<lambda>r. adr_network r = network \<and> adr_slot r = address_slot H seed network x) (address_tbl d) = Some r"
    using address_key_unique [OF assms(1) _ assms(3)] by blast
  with assms(2,5,6) show ?thesis by (simp add: store_address_def read_seed_def Let_def)
qed

text \<open>Times below \<open>2 ^ 63\<close> are the same for the engine and the code.\<close>

lemma signed_take_bit_nat: "n < 2 ^ 63 \<Longrightarrow> signed_take_bit 63 (int n) = int n"
  by (intro signed_take_bit_int_eq_self) simp_all

lemma sint_of_time:
  assumes "unat (w :: u64) < 2 ^ 63"
  shows "sint w = int (unat w)"
proof -
  have "sint w = signed_take_bit 63 (int (unat w))" by (simp add: sint_uint)
  also have "\<dots> = int (unat w)" by (rule signed_take_bit_nat [OF assms])
  finally show ?thesis .
qed

lemma later_than_ban:
  assumes "BAN_TIME < now" and "unat now < 2 ^ 63"
  shows "sint (0 :: u64) < sint (now - BAN_TIME)"
proof -
  have "unat (now - BAN_TIME) = unat now - unat BAN_TIME" "unat BAN_TIME < unat now"
    using assms(1) unat_sub [OF less_imp_le, of BAN_TIME now] by (simp_all add: word_less_nat_alt)
  then have "unat (now - BAN_TIME) < 2 ^ 63" "0 < unat (now - BAN_TIME)" using assms(2) by linarith+
  then have "sint (now - BAN_TIME) = int (unat (now - BAN_TIME))" "0 < int (unat (now - BAN_TIME))"
    by (simp_all only: sint_of_time of_nat_0_less_iff)
  then show ?thesis by (metis sint_0)
qed

lemma get_an_address_eligible:
  assumes "get_an_address now sample network other_than d = Some a"
  shows "a \<in> set (eligible_addresses now network other_than d)"
proof -
  let ?es = "eligible_addresses now network other_than d"
  have "?es \<noteq> []" and "a = ?es ! min (length ?es - 1) sample"
    using assms by (auto simp: get_an_address_def Let_def split: if_splits)
  then show ?thesis by (auto simp: min_less_iff_disj)
qed

text \<open>
  The address to connect to next: one that is stored for the network, was not banned during
  the last day and is not to be avoided; there is none exactly when no such address is
  stored.
\<close>

lemma get_an_address_spec:
  "(case get_an_address now sample network other_than d of
      None \<Rightarrow> \<not> (\<exists>r \<in> set (address_tbl d). adr_network r = network
                   \<and> sint (adr_banned r) < sint (now - BAN_TIME) \<and> adr_ip r \<notin> other_than)
    | Some a \<Rightarrow> a \<notin> other_than \<and> (\<exists>r \<in> set (address_tbl d). adr_network r = network
                   \<and> sint (adr_banned r) < sint (now - BAN_TIME) \<and> adr_ip r = a))"
proof -
  let ?es = "eligible_addresses now network other_than d"
  have set: "a \<in> set ?es \<longleftrightarrow> a \<notin> other_than \<and> (\<exists>r \<in> set (address_tbl d). adr_network r = network
      \<and> sint (adr_banned r) < sint (now - BAN_TIME) \<and> adr_ip r = a)" for a
    by (auto simp: eligible_addresses_def)
  show ?thesis
  proof (cases "get_an_address now sample network other_than d")
    case None
    then have "?es = []" by (auto simp: get_an_address_def Let_def split: if_splits)
    with None show ?thesis using set by auto
  next
    case (Some a)
    with get_an_address_eligible [OF Some] show ?thesis using set by simp
  qed
qed

section \<open>Addresses as keys\<close>

lemma recent_addresses_wf:
  assumes "addresses_ok H d" and "n \<in> set (recent_addresses now d)"
  shows "net_address_wf n"
  using assms by (auto simp: recent_addresses_def Let_def addresses_ok_def intro!: net_address_new_wf)

text \<open>Rows in different slots have different segments, so the keys of a table are distinct.\<close>

lemma distinct_recent_addresses:
  assumes "addresses_ok H d"
  shows "distinct (recent_addresses now d)"
proof -
  have "r = q" if "r \<in> set (address_tbl d)" "q \<in> set (address_tbl d)"
    "net_address_new (adr_ip r) = net_address_new (adr_ip q)" "adr_network r = adr_network q" for r q
  proof -
    have "address_key r = address_key q"
      using assms that by (cases "seed_tbl d") (simp_all add: addresses_ok_def address_key_def address_slot_def)
    then show ?thesis using assms that by (auto simp: addresses_ok_def distinct_map inj_on_def)
  qed
  moreover have "distinct (address_tbl d)" using assms by (auto simp: addresses_ok_def distinct_map)
  ultimately show ?thesis
    by (auto simp: recent_addresses_def Let_def distinct_map inj_on_def)
qed

end
