(* ===== verification/Address_Pool.thy ===== *)
theory Address_Pool
  imports Address_Book Bitcoin_Net
begin

text \<open>
  The threads that keep the address book and the connections, on both networks:
  \<^verbatim>\<open>AddressPoolMaintainer\<close> and \<^verbatim>\<open>KeepConnected\<close> of \<^verbatim>\<open>src/p2p_bitcoin.rs\<close> and
  \<^verbatim>\<open>src/p2p_defiads.rs\<close>. The two copies differ in the name of the network, which is an argument
  here, and in the messages: only the Bitcoin one learns addresses from \<^verbatim>\<open>addr\<close> messages.
\<close>

section \<open>The address pool\<close>

type_synonym 'i peer_addresses = "'i \<Rightarrow> socket_addr option"

definition pool_connected ::
  "hash_crates \<Rightarrow> u64 \<Rightarrow> u64 \<Rightarrow> u64 \<Rightarrow> string \<Rightarrow> 'i \<Rightarrow> socket_addr option \<Rightarrow> 'i peer_addresses \<times> db
   \<Rightarrow> 'i peer_addresses \<times> db" where
  "pool_connected H r0 r1 now network pid addr st =
     (case st of (p, d) \<Rightarrow>
        (case addr of
           None \<Rightarrow> (p, d)
         | Some a \<Rightarrow> (p(pid \<mapsto> a), snd (store_address H r0 r1 now network a now now 0 d))))"

definition pool_disconnected ::
  "hash_crates \<Rightarrow> u64 \<Rightarrow> u64 \<Rightarrow> u64 \<Rightarrow> string \<Rightarrow> 'i \<Rightarrow> bool \<Rightarrow> 'i peer_addresses \<times> db
   \<Rightarrow> 'i peer_addresses \<times> db" where
  "pool_disconnected H r0 r1 now network pid banned st =
     (case st of (p, d) \<Rightarrow>
        (case (if banned then p pid else None) of
           None \<Rightarrow> (p, d)
         | Some a \<Rightarrow> (p(pid := None), snd (store_address H r0 r1 now network a 0 0 now d))))"

text \<open>The addresses of an \<^verbatim>\<open>addr\<close> message that were seen before now and offer the needed services.\<close>

definition pool_addr ::
  "hash_crates \<Rightarrow> u64 \<Rightarrow> u64 \<Rightarrow> u64 \<Rightarrow> u64 \<Rightarrow> addr_entry list \<Rightarrow> db \<Rightarrow> db" where
  "pool_addr H r0 r1 now needed_services av d =
     fold (\<lambda>e d.
         if ucast (ae_last_seen e) < now \<and> ae_services e AND needed_services = needed_services
         then (case ae_socket e of
                 Some a \<Rightarrow> snd (store_address H r0 r1 now ''bitcoin'' a 0 (ucast (ae_last_seen e)) 0 d)
               | None \<Rightarrow> d)
         else d) av d"

text \<open>One message of the Bitcoin thread.\<close>

fun bitcoin_pool_message ::
  "hash_crates \<Rightarrow> u64 \<Rightarrow> u64 \<Rightarrow> u64 \<Rightarrow> u64 \<Rightarrow> 'i peer_message \<Rightarrow> 'i peer_addresses \<times> db
   \<Rightarrow> 'i peer_addresses \<times> db" where
  "bitcoin_pool_message H r0 r1 now needed (Connected pid addr) st =
     pool_connected H r0 r1 now ''bitcoin'' pid addr st"
| "bitcoin_pool_message H r0 r1 now needed (Disconnected pid banned) st =
     pool_disconnected H r0 r1 now ''bitcoin'' pid banned st"
| "bitcoin_pool_message H r0 r1 now needed (Incoming pid msg) (p, d) =
     (p, case msg of Addr av \<Rightarrow> pool_addr H r0 r1 now needed av d | _ \<Rightarrow> d)"
| "bitcoin_pool_message H r0 r1 now needed (Outgoing _) st = st"

section \<open>Keeping connected\<close>

record keep_connected =
  dns :: "socket_addr list"
  earlier :: "socket_addr set"
  min_connections :: nat

text \<open>
  A poll of the future: \<open>peers\<close> are the addresses of the connected peers, \<open>sample\<close> the number
  \<^verbatim>\<open>get_an_address\<close> draws, \<open>r\<close> the random number for the seeds. The result is the address to
  connect to, if any.
\<close>

definition keep_connected_poll ::
  "u64 \<Rightarrow> nat \<Rightarrow> u32 \<Rightarrow> string \<Rightarrow> nat \<Rightarrow> socket_addr list \<Rightarrow> db \<Rightarrow> keep_connected
   \<Rightarrow> socket_addr option \<times> keep_connected" where
  "keep_connected_poll now sample r network n_connected peers d k =
     (if n_connected < min_connections k
      then let tried = earlier k \<union> set peers
           in (case get_an_address now sample network tried d of
                 Some c \<Rightarrow> (Some c, k\<lparr>earlier := insert c tried\<rparr>)
               | None \<Rightarrow>
                   (let eligible = filter (\<lambda>a. a \<notin> tried) (dns k)
                    in if length eligible > 0
                       then (let c = eligible ! (unat r mod length eligible)
                             in (Some c, k\<lparr>earlier := insert c tried\<rparr>))
                       else (None, k\<lparr>earlier := tried\<rparr>)))
      else (None, k))"

section \<open>Bans\<close>

lemma store_address_own_row:
  assumes "addresses_ok H d"
    and "r \<in> set (address_tbl (snd (store_address H r0 r1 now network a c l b d)))"
    and "adr_network r = network" and "adr_ip r = a"
  shows "b \<le> adr_banned r \<and> (adr_banned r = b \<or> (\<exists>q \<in> set (address_tbl d). adr_banned r = max (adr_banned q) b))"
proof -
  have key: "address_key q = (network, slot)"
    if "q \<in> set (address_tbl d)" "adr_network q = network" "adr_ip q = a"
      "seed_tbl d = Some seed \<or> seed_tbl d = None" "slot = address_slot H seed network a" for q slot seed
    using assms(1) that by (auto simp: addresses_ok_def address_key_def)
  have put: "adr_banned r = adr_banned x"
    if "r \<in> set (address_tbl (snd (put_address x (d\<lparr>seed_tbl := Some seed\<rparr>))))"
      "address_key x = (network, slot)" "seed_tbl d = Some seed \<or> seed_tbl d = None"
      "slot = address_slot H seed network a" for x seed slot
    using that key [of r seed slot] assms(3,4)
    by (auto simp: put_address_def upsert_def)
  show ?thesis
  proof (rule store_address_cases [of d H network a r0 r1 now c l b])
    fix seed slot
    assume s: "seed_tbl d = Some seed \<or> seed_tbl d = None" "slot = address_slot H seed network a"
      and "(\<forall>r \<in> set (address_tbl d). address_key r \<noteq> (network, slot))
       \<and> store_address H r0 r1 now network a c l b d =
          put_address \<lparr>adr_network = network, adr_slot = slot, adr_ip = a, adr_connected = c,
                       adr_last_seen = l, adr_banned = b\<rparr> (d\<lparr>seed_tbl := Some seed\<rparr>)"
    then show ?thesis using assms(2) put [OF _ _ s] by (auto simp: address_key_def)
  next
    fix seed slot q
    assume s: "seed_tbl d = Some seed \<or> seed_tbl d = None" "slot = address_slot H seed network a"
      and q: "q \<in> set (address_tbl d)" "address_key q = (network, slot)"
      and st: "store_address H r0 r1 now network a c l b d =
       (if adr_ip q = a then
          put_address \<lparr>adr_network = network, adr_slot = slot, adr_ip = a,
             adr_connected = max (adr_connected q) c, adr_last_seen = max (adr_last_seen q) l,
             adr_banned = max (adr_banned q) b\<rparr> (d\<lparr>seed_tbl := Some seed\<rparr>)
        else if adr_banned q > 0 \<or> adr_connected q < now - OLD_CONNECTION then
          put_address \<lparr>adr_network = network, adr_slot = slot, adr_ip = a, adr_connected = c,
             adr_last_seen = l, adr_banned = b\<rparr> (d\<lparr>seed_tbl := Some seed\<rparr>)
        else (0, d\<lparr>seed_tbl := Some seed\<rparr>))"
    have "r \<notin> set (address_tbl d)" if "adr_ip q \<noteq> a"
    proof
      assume "r \<in> set (address_tbl d)"
      with key [OF this assms(3,4) s] q assms(1) have "r = q"
        by (auto simp: addresses_ok_def distinct_map inj_on_def)
      with that assms(4) show False by simp
    qed
    then show ?thesis
      using assms(2) put [OF _ _ s] q(1) unfolding st
      by (auto simp: address_key_def split: if_splits)
  qed
qed

lemma max_time_less: "unat (x :: u64) < n \<Longrightarrow> unat y < n \<Longrightarrow> unat (max x y) < n"
  by (simp add: max_def)

text \<open>A choice comes from the address book, or from the seeds when the book has nothing to try.\<close>

lemma keep_connected_poll_choice:
  assumes "fst (keep_connected_poll now sample r network n peers d k) = Some c"
  shows "get_an_address now sample network (earlier k \<union> set peers) d = Some c
    \<or> c \<in> set (dns k) \<and> get_an_address now sample network (earlier k \<union> set peers) d = None"
proof -
  have "es ! (unat r mod length es) \<in> set (dns k)" if "es = filter P (dns k)" "es \<noteq> []" for es P
    using that nth_mem [of "unat r mod length es" es] by auto
  with assms show ?thesis
    by (fastforce simp: keep_connected_poll_def Let_def split: if_splits option.splits)
qed

text \<open>The ban of an address that has its slot, at a time or later.\<close>

definition ban_recorded :: "hash_crates \<Rightarrow> u64 \<times> u64 \<Rightarrow> string \<Rightarrow> socket_addr \<Rightarrow> u64 \<Rightarrow> db \<Rightarrow> bool" where
  "ban_recorded H seed network a now d \<longleftrightarrow> addresses_ok H d \<and> seed_tbl d = Some seed
     \<and> (\<exists>r \<in> set (address_tbl d). adr_network r = network \<and> adr_ip r = a
          \<and> now \<le> adr_banned r \<and> unat (adr_banned r) < 2 ^ 63)"

lemma ban_recorded_step:
  assumes "ban_recorded H seed network a now d" and "socket_wf x" and "unat b < 2 ^ 63"
    and "n = network \<and> address_slot H seed network x = address_slot H seed network a \<longrightarrow> x = a"
  shows "ban_recorded H seed network a now (snd (store_address H r0 r1 t n x c l b d))"
proof -
  let ?d' = "snd (store_address H r0 r1 t n x c l b d)"
  obtain r where ok: "addresses_ok H d" "seed_tbl d = Some seed"
    and r: "r \<in> set (address_tbl d)" "adr_network r = network" "adr_ip r = a" "now \<le> adr_banned r"
      "unat (adr_banned r) < 2 ^ 63"
    using assms(1) by (auto simp: ban_recorded_def)
  have seed: "fst (read_seed r0 r1 d) = seed" by (simp add: read_seed_def ok(2))
  note st = store_address_slot [OF ok(1) seed refl refl]
  have "\<exists>r \<in> set (address_tbl ?d'). adr_network r = network \<and> adr_ip r = a \<and> now \<le> adr_banned r
      \<and> unat (adr_banned r) < 2 ^ 63"
  proof (cases "address_key r = (n, address_slot H seed n x)")
    case True
    with address_key_slot [OF ok(1) seed r(1)] r(2,3) assms(4) have "x = a" by auto
    with store_address_keeps [OF ok(1) r(1) refl, of r0 r1 t n x c l b] r assms(3) show ?thesis
      by (auto simp: address_key_def max_time_less le_max_iff_disj)
  next
    case False
    then show ?thesis using st(3) r by blast
  qed
  with store_address_ok [OF ok(1) assms(2)] st(1) show ?thesis by (simp add: ban_recorded_def)
qed

lemma ban_recorded_run:
  assumes "ban_recorded H seed network a now d"
    and "\<forall>(t, n, x, c, l, b) \<in> set ops. socket_wf x \<and> unat b < 2 ^ 63
      \<and> (n = network \<and> address_slot H seed network x = address_slot H seed network a \<longrightarrow> x = a)"
  shows "ban_recorded H seed network a now
    (fold (\<lambda>(t, n, x, c, l, b) d. snd (store_address H r0 r1 t n x c l b d)) ops d)"
  using assms
proof (induction ops arbitrary: d)
  case (Cons e ops)
  obtain t n x c l b where e: "e = (t, n, x, c, l, b)" by (cases e)
  show ?case
    using Cons.prems by (auto simp: e intro!: Cons.IH ban_recorded_step)
qed simp

lemma ban_recorded_start:
  assumes "addresses_ok H d" and "seed_tbl d = Some seed" and "socket_wf a" and "unat now < 2 ^ 63"
    and "\<forall>r \<in> set (address_tbl d). unat (adr_banned r) < 2 ^ 63"
    and "\<forall>r \<in> set (address_tbl d). address_key r = (network, address_slot H seed network a) \<longrightarrow> adr_ip r = a"
  shows "ban_recorded H seed network a now (snd (store_address H r0 r1 now network a 0 0 now d))"
proof -
  let ?d' = "snd (store_address H r0 r1 now network a 0 0 now d)"
  have seed: "fst (read_seed r0 r1 d) = seed" by (simp add: read_seed_def assms(2))
  note st = store_address_slot [OF assms(1) seed refl refl, where now = now and a = a and b = now and l = 0]
  obtain r where r: "r \<in> set (address_tbl ?d')" "adr_network r = network" "adr_ip r = a"
    using st(2) [of network 0] assms(6) by (auto simp: address_key_def)
  from store_address_own_row [OF assms(1) this] assms(4,5) have "now \<le> adr_banned r" "unat (adr_banned r) < 2 ^ 63"
    by (auto simp: max_time_less)
  with r st(1) store_address_ok [OF assms(1,3)] show ?thesis by (auto simp: ban_recorded_def)
qed

lemma ban_recorded_avoids:
  assumes "ban_recorded H seed network a now d" and "unat now < 2 ^ 63" and "unat now' < 2 ^ 63"
    and "unat BAN_TIME \<le> unat now'" and "unat now' \<le> unat now + unat BAN_TIME"
  shows "get_an_address now' sample network other_than d \<noteq> Some a"
proof
  assume "get_an_address now' sample network other_than d = Some a"
  then obtain q where q: "q \<in> set (address_tbl d)" "adr_network q = network" "adr_ip q = a"
    and elig: "sint (adr_banned q) < sint (now' - BAN_TIME)"
    by (auto dest!: get_an_address_eligible simp: eligible_addresses_def)
  obtain r where ok: "addresses_ok H d" "seed_tbl d = Some seed"
    and r: "r \<in> set (address_tbl d)" "adr_network r = network" "adr_ip r = a"
      "now \<le> adr_banned r" "unat (adr_banned r) < 2 ^ 63"
    using assms(1) by (auto simp: ban_recorded_def)
  have seed: "fst (read_seed r0 r1 d) = seed" for r0 r1 by (simp add: read_seed_def ok(2))
  have "q = r"
    by (rule address_key_unique [OF ok(1) q(1) r(1)])
      (simp add: address_key_slot [OF ok(1) seed q(1)] address_key_slot [OF ok(1) seed r(1)] q r)
  have n: "unat (now' - BAN_TIME) = unat now' - unat BAN_TIME"
    using assms(4) by (simp add: unat_sub word_le_nat_alt)
  then have "unat (now' - BAN_TIME) < 2 ^ 63" using assms(3) by linarith
  with elig have "unat (adr_banned r) < unat (now' - BAN_TIME)"
    by (simp only: \<open>q = r\<close> sint_of_time r(5) of_nat_less_iff)
  moreover have "unat now \<le> unat (adr_banned r)" using r(4) by (simp add: word_le_nat_alt)
  ultimately show False using n assms(5) by linarith
qed

text \<open>
  C27. A ban keeps a peer away for a day, as long as no other address takes its slot. Let the
  address pool be told that a peer was banned whose slot no other address has, and let any
  addresses be stored after that, by any thread, none of them another one of the same slot of that
  network. (The same address may be learned or connected again; the ban stays.) Then the
  address is not chosen from the address book of that network during the following day, and the
  thread that keeps connected chooses it only from the seeds it was started with, and only when the
  book has no address to try. (Stored times are below \<open>2 ^ 63\<close>.)
\<close>

theorem ban_keeps_away:
  assumes "addresses_ok H d" and "seed_tbl d = Some seed"
    and "\<forall>r \<in> set (address_tbl d). unat (adr_banned r) < 2 ^ 63"
    and "\<forall>r \<in> set (address_tbl d). address_key r = (network, address_slot H seed network a) \<longrightarrow> adr_ip r = a"
    and "p pid = Some a" and "socket_wf a"
    and "pool_disconnected H r0 r1 now network pid True (p, d) = (p', d')"
    and "\<forall>(t, n, x, c, l, b) \<in> set ops. socket_wf x \<and> unat b < 2 ^ 63
      \<and> (n = network \<and> address_slot H seed network x = address_slot H seed network a \<longrightarrow> x = a)"
    and "d'' = fold (\<lambda>(t, n, x, c, l, b) d. snd (store_address H r0 r1 t n x c l b d)) ops d'"
    and "unat now < 2 ^ 63" and "unat now' < 2 ^ 63"
    and "unat BAN_TIME \<le> unat now'" and "unat now' \<le> unat now + unat BAN_TIME"
  shows "get_an_address now' sample network other_than d'' \<noteq> Some a
    \<and> (fst (keep_connected_poll now' sample r network n_connected peers d'' k) = Some a
         \<longrightarrow> a \<in> set (dns k) \<and> get_an_address now' sample network (earlier k \<union> set peers) d'' = None)"
proof -
  have d': "d' = snd (store_address H r0 r1 now network a 0 0 now d)"
    using assms(5,7) by (simp add: pool_disconnected_def)
  have "ban_recorded H seed network a now d''"
    unfolding assms(9) d'
    by (rule ban_recorded_run [OF ban_recorded_start [OF assms(1,2,6,10,3,4)] assms(8)])
  then have away: "get_an_address now' sample network others d'' \<noteq> Some a" for others
    by (rule ban_recorded_avoids [OF _ assms(10-13)])
  moreover have "a \<in> set (dns k) \<and> get_an_address now' sample network (earlier k \<union> set peers) d'' = None"
    if "fst (keep_connected_poll now' sample r network n_connected peers d'' k) = Some a"
    using that away keep_connected_poll_choice [of now' sample r network n_connected peers d'' k] by auto
  ultimately show ?thesis by blast
qed

section \<open>Connections are tried once\<close>

lemma keep_connected_poll_fresh:
  assumes "keep_connected_poll now sample r network n peers d k = (choice, k')"
  shows "earlier k \<subseteq> earlier k'" and "choice = Some c \<Longrightarrow> c \<notin> earlier k \<and> c \<notin> set peers \<and> c \<in> earlier k'"
    and "n < min_connections k \<Longrightarrow> set peers \<subseteq> earlier k'" and "min_connections k' = min_connections k"
proof -
  have sel: "c \<notin> t" if "get_an_address now sample network t d = Some c" for c t
    using get_an_address_eligible [OF that] by (simp add: eligible_addresses_def)
  have nth: "es ! (unat r mod length es) \<in> set es" if "es \<noteq> []" for es :: "socket_addr list"
    using that by simp
  show "earlier k \<subseteq> earlier k'" "n < min_connections k \<Longrightarrow> set peers \<subseteq> earlier k'"
    "min_connections k' = min_connections k"
    using assms by (auto simp: keep_connected_poll_def Let_def split: if_splits option.splits)
  show "c \<notin> earlier k \<and> c \<notin> set peers \<and> c \<in> earlier k'" if "choice = Some c"
    using assms that nth [of "filter (\<lambda>a. a \<notin> earlier k \<union> set peers) (dns k)"]
    by (auto simp: keep_connected_poll_def Let_def split: if_splits option.splits dest: sel)
qed

text \<open>
  What a poll finds: the clock, the numbers drawn, the connected peers as the network layer counts
  and lists them, and the database.
\<close>

record poll_view =
  pv_now :: u64
  pv_sample :: nat
  pv_random :: u32
  pv_count :: nat
  pv_peers :: "socket_addr list"
  pv_db :: db

text \<open>The choices of a sequence of polls, one for each.\<close>

fun keep_connected_run :: "string \<Rightarrow> poll_view list \<Rightarrow> keep_connected \<Rightarrow> socket_addr option list" where
  "keep_connected_run network [] k = []"
| "keep_connected_run network (v # vs) k =
     (case keep_connected_poll (pv_now v) (pv_sample v) (pv_random v) network (pv_count v) (pv_peers v) (pv_db v) k of
        (choice, k') \<Rightarrow> choice # keep_connected_run network vs k')"

text \<open>
  What is chosen was not entered before, nor chosen by an earlier poll, nor connected at this or an
  earlier poll that looked for a peer.
\<close>

lemma keep_connected_run_fresh:
  assumes "j < length vs" and "keep_connected_run network vs k ! j = Some c"
  shows "c \<notin> earlier k \<and> (\<forall>i < j. keep_connected_run network vs k ! i \<noteq> Some c)
    \<and> (\<forall>i \<le> j. pv_count (vs ! i) < min_connections k \<longrightarrow> c \<notin> set (pv_peers (vs ! i)))"
  using assms
proof (induction vs arbitrary: j k)
  case (Cons v vs)
  obtain choice k' where p: "keep_connected_poll (pv_now v) (pv_sample v) (pv_random v) network (pv_count v)
      (pv_peers v) (pv_db v) k = (choice, k')" by fastforce
  note fresh = keep_connected_poll_fresh [OF p]
  show ?case
  proof (cases j)
    case 0
    then show ?thesis using Cons.prems(2) fresh(2) [of c] by (simp add: p)
  next
    case (Suc j')
    with Cons.prems have IH: "c \<notin> earlier k'" "\<forall>i < j'. keep_connected_run network vs k' ! i \<noteq> Some c"
      "\<forall>i \<le> j'. pv_count (vs ! i) < min_connections k \<longrightarrow> c \<notin> set (pv_peers (vs ! i))"
      using Cons.IH [of j' k'] fresh(4) by (auto simp: p)
    have "choice \<noteq> Some c" using IH(1) fresh(2) [of c] by blast
    moreover have "pv_count v < min_connections k \<longrightarrow> c \<notin> set (pv_peers v)" using IH(1) fresh(3) by blast
    ultimately show ?thesis
      using IH fresh(1) by (auto simp: p Suc less_Suc_eq_0_disj nth_Cons split: nat.split)
  qed
qed simp

end
