(* ===== verification/Biadnet.thy ===== *)
theory Biadnet
  imports Address_Pool Messages
begin

text \<open>
  The node's configuration of the network layer, \<^verbatim>\<open>BiadnetP2PConfig\<close>, and the start of the network,
  \<^verbatim>\<open>P2PBiadNet::start\<close>, of \<^verbatim>\<open>src/p2p_defiads.rs\<close>, with the seeds of \<^verbatim>\<open>src/find_peers.rs\<close>. The buffer
  of \<^verbatim>\<open>murmel\<close> is a type \<open>'b\<close>, the encoder and decoder of \<^verbatim>\<open>serde_cbor\<close> are functions on it.
\<close>

section \<open>Seeds and peers\<close>

definition BIADNET_PORT :: u16 where
  "BIADNET_PORT = 21766"

definition SEEDER :: "string list" where
  "SEEDER = []"

text \<open>\<open>lookup\<close> is the resolver of the system.\<close>

definition seed :: "(string \<Rightarrow> u16 \<Rightarrow> socket_addr list option) \<Rightarrow> bool \<Rightarrow> socket_addr list" where
  "seed lookup test =
     concat (map (\<lambda>seedhost. case lookup seedhost (BIADNET_PORT + (if test then 100 else 0)) of
                               Some hosts \<Rightarrow> hosts | None \<Rightarrow> []) SEEDER)"

text \<open>The given peers are contacted on the port of the network, whatever port they were given with.\<close>

fun peer_socket :: "bool \<Rightarrow> socket_addr \<Rightarrow> socket_addr" where
  "peer_socket test (V4 a b c d _) = V4 a b c d (if test then BIADNET_PORT + 100 else BIADNET_PORT)"
| "peer_socket test (V6 s _) = V6 s (if test then BIADNET_PORT + 100 else BIADNET_PORT)"

definition store_seeds :: "hash_crates \<Rightarrow> u64 \<Rightarrow> u64 \<Rightarrow> u64 \<Rightarrow> string \<Rightarrow> socket_addr list \<Rightarrow> db \<Rightarrow> db" where
  "store_seeds H r0 r1 now network seeds d =
     fold (\<lambda>a d. snd (store_address H r0 r1 now network a 0 0 0 d)) seeds d"

section \<open>Address pool and connections\<close>

text \<open>\<^verbatim>\<open>PeerMessage\<close> over the messages of this network, as it reaches the threads.\<close>

datatype ('i, 'p, 'k) biadnet_event =
    Peer_connected 'i "socket_addr option"
  | Peer_disconnected 'i bool
  | Peer_incoming 'i "('p, 'k) message"
  | Peer_outgoing "('p, 'k) message"

fun biadnet_pool_message ::
  "hash_crates \<Rightarrow> u64 \<Rightarrow> u64 \<Rightarrow> u64 \<Rightarrow> ('i, 'p, 'k) biadnet_event \<Rightarrow> 'i peer_addresses \<times> db
   \<Rightarrow> 'i peer_addresses \<times> db" where
  "biadnet_pool_message H r0 r1 now (Peer_connected pid addr) st = pool_connected H r0 r1 now ''defiads'' pid addr st"
| "biadnet_pool_message H r0 r1 now (Peer_disconnected pid banned) st =
     pool_disconnected H r0 r1 now ''defiads'' pid banned st"
| "biadnet_pool_message H r0 r1 now _ st = st"

definition biadnet_keep_connected ::
  "u64 \<Rightarrow> nat \<Rightarrow> u32 \<Rightarrow> nat \<Rightarrow> socket_addr list \<Rightarrow> db \<Rightarrow> keep_connected \<Rightarrow> socket_addr option \<times> keep_connected" where
  "biadnet_keep_connected now sample r n_connected peers d k =
     keep_connected_poll now sample r ''defiads'' n_connected peers d k"

section \<open>Configuration\<close>

definition MAGIC :: u32 where
  "MAGIC = 0xB1AD"

definition MAX_PROTOCOL_VERSION :: u32 where
  "MAX_PROTOCOL_VERSION = 1"

definition MIN_PROTOCOL_VERSION :: u32 where
  "MIN_PROTOCOL_VERSION = 1"

text \<open>The operator in the source is the exclusive or.\<close>

definition MAX_MESSAGE_SIZE :: u64 where
  "MAX_MESSAGE_SIZE = 2 XOR 26"

record biadnet_config =
  cfg_nonce :: u64
  cfg_user_agent :: rstring
  cfg_max_protocol_version :: u32
  cfg_server :: bool

definition user_agent_text :: rstring where
  "user_agent_text = map of_char ''defiads 0.1.0''"

text \<open>What the network layer reads from the configuration.\<close>

definition config_nonce :: "biadnet_config \<Rightarrow> u64" where
  "config_nonce cfg = cfg_nonce cfg"

definition config_magic :: "biadnet_config \<Rightarrow> u32" where
  "config_magic cfg = MAGIC"

definition config_user_agent :: "biadnet_config \<Rightarrow> rstring" where
  "config_user_agent cfg = cfg_user_agent cfg"

definition config_get_height :: "biadnet_config \<Rightarrow> u32" where
  "config_get_height cfg = 0"

definition config_max_protocol_version :: "biadnet_config \<Rightarrow> u32" where
  "config_max_protocol_version cfg = cfg_max_protocol_version cfg"

definition config_min_protocol_version :: "biadnet_config \<Rightarrow> u32" where
  "config_min_protocol_version cfg = MIN_PROTOCOL_VERSION"

definition config_verack :: "biadnet_config \<Rightarrow> ('p, 'k) message" where
  "config_verack cfg = Verack"

text \<open>\<open>now\<close> is the time in seconds.\<close>

definition version_for :: "biadnet_config \<Rightarrow> u64 \<Rightarrow> socket_addr \<Rightarrow> u32 \<Rightarrow> ('p, 'k) message" where
  "version_for cfg now remote max_version =
     Version \<lparr>vm_version = min MAX_PROTOCOL_VERSION max_version, vm_timestamp = now,
              vm_receiver = net_address_new remote, vm_sender = net_address_default,
              vm_nonce = cfg_nonce cfg, vm_user_agent = user_agent_text, vm_start_height = 0\<rparr>"

definition envelope_wrap :: "('p, 'k) message \<Rightarrow> ('p, 'k) envelope" where
  "envelope_wrap m = \<lparr>env_magic = MAGIC, env_payload = m\<rparr>"

definition envelope_unwrap :: "('p, 'k) envelope \<Rightarrow> ('p, 'k) message outcome" where
  "envelope_unwrap e = Ok (env_payload e)"

section \<open>Encoding\<close>

text \<open>
  \<open>cbor_next\<close> reads one value from the buffer: nothing, a value, or an error, which may say that the
  data ended.
\<close>

datatype 'e cbor_next = Nothing | Value 'e | Eof | Malformed

record ('b, 'e) wire_crate =
  buffer_len :: "'b \<Rightarrow> nat"
  buffer_rollback :: "'b \<Rightarrow> 'b"
  buffer_commit :: "'b \<Rightarrow> 'b"
  cbor_write :: "'b \<Rightarrow> 'e \<Rightarrow> 'b option"
  cbor_read :: "'b \<Rightarrow> 'e cbor_next \<times> 'b"

definition envelope_encode ::
  "('b, ('p, 'k) envelope) wire_crate \<Rightarrow> ('p, 'k) envelope \<Rightarrow> 'b \<Rightarrow> 'b outcome" where
  "envelope_encode X item dst =
     (case cbor_write X dst item of None \<Rightarrow> Err (IO InvalidInput) | Some b \<Rightarrow> Ok b)"

definition envelope_decode ::
  "('b, ('p, 'k) envelope) wire_crate \<Rightarrow> 'b \<Rightarrow> ('p, 'k) envelope option outcome \<times> 'b" where
  "envelope_decode X src =
     (case cbor_read X src of
        (Nothing, src) \<Rightarrow>
          if buffer_len X src > unat MAX_MESSAGE_SIZE then (Err (IO InvalidInput), src)
          else (Ok None, buffer_rollback X src)
      | (Value m, src) \<Rightarrow> (Ok (Some m), buffer_commit X src)
      | (Eof, src) \<Rightarrow> (Ok None, buffer_rollback X src)
      | (Malformed, src) \<Rightarrow> (Err (IO InvalidInput), src))"

text \<open>The limit is 24 bytes, and does not concern a message of which more data is expected.\<close>

lemma max_message_size: "MAX_MESSAGE_SIZE = 24"
  by (simp add: MAX_MESSAGE_SIZE_def)

lemma unfinished_message_kept:
  assumes "cbor_read X src = (Eof, b)"
  shows "envelope_decode X src = (Ok None, buffer_rollback X b)"
  by (simp add: envelope_decode_def assms)

text \<open>
  A version message arrives as it was sent: if the decoder reads back what the encoder wrote, the
  receiver finds the agreed version, the sender's nonce and the receiver's own address, the
  latter in the form in which both address families are exchanged.
\<close>

lemma version_roundtrip:
  assumes "\<forall>e. \<exists>b c. cbor_write X buf e = Some b \<and> cbor_read X b = (Value e, c)"
  shows "\<exists>b m v. envelope_encode X (envelope_wrap (version_for cfg now remote n)) buf = Ok b
    \<and> obind (fst (envelope_decode X b)) (\<lambda>e. obind (unwrap e) envelope_unwrap) = Ok m
    \<and> is_version m = Some v \<and> vc_version v = min 1 n \<and> vc_nonce v = cfg_nonce cfg
    \<and> vc_receiver v = (0, address (net_address_new remote), port (net_address_new remote))"
proof -
  obtain b c where "cbor_write X buf (envelope_wrap (version_for cfg now remote n)) = Some b"
    "cbor_read X b = (Value (envelope_wrap (version_for cfg now remote n)), c)"
    using assms by blast
  then show ?thesis
    by (simp add: envelope_encode_def envelope_decode_def envelope_unwrap_def envelope_wrap_def version_for_def
        MAX_PROTOCOL_VERSION_def)
qed

section \<open>The trunk\<close>

text \<open>This file has a copy of \<^verbatim>\<open>ChainDBTrunk\<close>; it is the same trunk.\<close>

definition biadnet_chaindb_trunk :: "chaindb \<Rightarrow> trunk" where
  "biadnet_chaindb_trunk D =
     \<lparr>is_on_trunk = (\<lambda>h. case pos_on_trunk D h of Some _ \<Rightarrow> True | None \<Rightarrow> False),
      get_header = (\<lambda>h. case cdb_get_header D h of Some cached \<Rightarrow> Some (stored_header cached) | None \<Rightarrow> None),
      get_header_for_height =
        (\<lambda>n. case cdb_get_header_for_height D n of Some cached \<Rightarrow> Some (stored_header cached) | None \<Rightarrow> None),
      get_height = pos_on_trunk D,
      get_tip = (case header_tip D of Some cached \<Rightarrow> Some (stored_header cached) | None \<Rightarrow> None),
      trunk_len = (case header_tip D of Some cached \<Rightarrow> stored_height cached | None \<Rightarrow> 0)\<rparr>"

lemma biadnet_chaindb_trunk_eq: "biadnet_chaindb_trunk D = chaindb_trunk D"
  by (auto simp: biadnet_chaindb_trunk_def chaindb_trunk_def fun_eq_iff split: option.splits)

end
