(* ===== verification/Commits.thy ===== *)
theory Commits
  imports Store_Run
begin

text \<open>
  The transactions of the handlers of the store. Most handlers of \<^verbatim>\<open>src/store.rs\<close> are one transaction of the
  database; connecting a block is several, and so is the updater's handling of content. A panic, or the
  end of the process, between two of them leaves what was committed before. The functions here list the
  stores after each transaction of a handler, as far as it gets.
\<close>

section \<open>As far as it gets\<close>

fun progress :: "('x \<Rightarrow> 's \<Rightarrow> 's outcome) \<Rightarrow> 'x list \<Rightarrow> 's \<Rightarrow> 's list" where
  "progress f [] s = []"
| "progress f (x # xs) s = (case f x s of Ok s' \<Rightarrow> s' # progress f xs s' | _ \<Rightarrow> [])"

lemma progress_last: "ofold f xs s = Ok s' \<Longrightarrow> last (s # progress f xs s) = s'"
  by (induction xs arbitrary: s) auto

lemma progress_reached:
  assumes "t \<in> set (progress f xs s)" and "\<And>x s s'. f x s = Ok s' \<Longrightarrow> R\<^sup>*\<^sup>* s s'"
  shows "R\<^sup>*\<^sup>* s t"
  using assms(1)
proof (induction xs arbitrary: s)
  case (Cons x xs)
  then obtain u where u: "f x s = Ok u" and t: "t = u \<or> t \<in> set (progress f xs u)" by (cases "f x s") auto
  have "R\<^sup>*\<^sup>* s u" by (rule assms(2) [OF u])
  then show ?case using t Cons.IH [of u] by (auto intro: rtranclp_trans)
qed simp

section \<open>Connecting a block\<close>

text \<open>
  The first transaction: which publications of ours the block confirms, the coins of the wallet, and the
  mark that the block is processed.
\<close>

definition block_transaction ::
  "('p, 'k) crates \<Rightarrow> ('p, 'k, 'c, 'm, 'u) wallet_crates \<Rightarrow> block \<Rightarrow> ('c, 'm) store
   \<Rightarrow> ((nat \<times> 'k \<times> hash \<times> ad option \<times> u16) list \<times> ('c, 'm) store) outcome" where
  "block_transaction C W b s =
     obind (newly_confirmed C b (sdb s)) (\<lambda>confirmed.
       let (changed, w) = wallet_process W b (swallet s) in
       obind (if changed then store_coins C W (coins w) (sdb s) else Ok (sdb s)) (\<lambda>d.
         Ok (confirmed, s\<lparr>swallet := w, sdb := store_processed C (header_hash C (header b)) d\<rparr>)))"

text \<open>Then a transaction for every confirmed ad.\<close>

definition admit_ad ::
  "('p, 'k) crates \<Rightarrow> trunk \<Rightarrow> block \<Rightarrow> nat \<times> 'k \<times> hash \<times> ad option \<times> u16 \<Rightarrow> ('c, 'm) store \<Rightarrow> ('c, 'm) store outcome" where
  "admit_ad C T b p s =
     (case p of (tix, pk, i, a, term) \<Rightarrow>
        (case a of
           None \<Rightarrow> Ok s
         | Some a \<Rightarrow> obind (add_content C T \<lparr>ad = a, funding = proof_new C b tix, funder = pk,
                                    content_term = term\<rparr> s) (\<lambda>(_, s). Ok s)))"

lemma admit_ads_eq: "admit_ads C T b = ofold (admit_ad C T b)"
  unfolding admit_ads_def by (rule arg_cong [where f = ofold]) (auto simp: admit_ad_def fun_eq_iff)

lemma block_connected_eq:
  "block_connected C W T b height s = obind (block_transaction C W b s) (\<lambda>(ps, s). ofold (admit_ad C T b) ps s)"
  unfolding admit_ads_eq [symmetric]
  by (cases "newly_confirmed C b (sdb s)"; cases "wallet_process W b (swallet s)")
    (auto simp: block_connected_def block_transaction_def admit_ads_def Let_def obind_assoc split: if_splits)

definition block_progress ::
  "('p, 'k) crates \<Rightarrow> ('p, 'k, 'c, 'm, 'u) wallet_crates \<Rightarrow> trunk \<Rightarrow> block \<Rightarrow> ('c, 'm) store \<Rightarrow> ('c, 'm) store list" where
  "block_progress C W T b s =
     (case block_transaction C W b s of
        Ok (ps, s1) \<Rightarrow> s1 # progress (admit_ad C T b) ps s1
      | _ \<Rightarrow> [])"

lemma block_progress_last:
  assumes "block_connected C W T b height s = Ok s'"
  shows "last (s # block_progress C W T b s) = s'"
  using assms progress_last by (fastforce simp: block_connected_eq block_progress_def split: if_splits)

lemma block_transactionE:
  assumes "block_transaction C W b s = Ok (ps, s1)"
  obtains w d where "newly_confirmed C b (sdb s) = Ok ps" "content_tbl d = content_tbl (sdb s)"
    "d = sdb s \<or> store_coins C W (coins w) (sdb s) = Ok d"
    "s1 = s\<lparr>swallet := w, sdb := store_processed C (header_hash C (header b)) d\<rparr>"
proof -
  obtain changed w where w: "wallet_process W b (swallet s) = (changed, w)" by (rule prod.exhaust)
  with assms obtain d where d: "(if changed then store_coins C W (coins w) (sdb s) else Ok (sdb s)) = Ok d"
    and "newly_confirmed C b (sdb s) = Ok ps"
    "s1 = s\<lparr>swallet := w, sdb := store_processed C (header_hash C (header b)) d\<rparr>"
    by (auto simp: block_transaction_def Let_def split: if_splits)
  moreover have "content_tbl d = content_tbl (sdb s)" "d = sdb s \<or> store_coins C W (coins w) (sdb s) = Ok d"
    using d content_tbl_store_coins by (auto split: if_splits)
  ultimately show thesis using that by blast
qed

lemma block_transaction_content:
  assumes "block_transaction C W b s = Ok (ps, s1)" shows "same_content s1 s"
  using assms by (rule block_transactionE) (simp add: same_content_def store_processed_def)

lemma admit_ad_step: "admit_ad C T b p s = Ok s' \<Longrightarrow> s' = s \<or> store_step C W s s'"
  by (auto simp: admit_ad_def intro: step_admit split: prod.splits option.splits)

section \<open>Content of a peer\<close>

text \<open>
  \<^verbatim>\<open>add_content\<close>, whose error is ignored, and, unless more content is expected, \<^verbatim>\<open>truncate_to_limit\<close>.
\<close>

definition truncate_progress :: "('p, 'k) crates \<Rightarrow> bool \<Rightarrow> ('c, 'm) store \<Rightarrow> ('c, 'm) store list" where
  "truncate_progress C busy s =
     (if busy then [] else (case truncate_to_limit C s of Ok s' \<Rightarrow> [s'] | _ \<Rightarrow> []))"

definition content_progress ::
  "('p, 'k) crates \<Rightarrow> trunk \<Rightarrow> bool \<Rightarrow> ('p, 'k) content \<Rightarrow> ('c, 'm) store \<Rightarrow> ('c, 'm) store list" where
  "content_progress C T busy c s =
     (case add_content C T c s of
        Ok (_, s1) \<Rightarrow> s1 # truncate_progress C busy s1
      | Err _ \<Rightarrow> truncate_progress C busy s
      | Panic _ \<Rightarrow> [])"

lemma truncate_progress_iff: "t \<in> set (truncate_progress C busy s) \<longleftrightarrow> \<not> busy \<and> truncate_to_limit C s = Ok t"
  by (cases "truncate_to_limit C s") (auto simp: truncate_progress_def)

lemma content_progress_cases:
  assumes "t \<in> set (content_progress C T busy c s)"
  obtains s1 where "s1 = s \<or> (\<exists>b. add_content C T c s = Ok (b, s1))" "t = s1 \<or> truncate_to_limit C s1 = Ok t"
  using assms
  by (cases "add_content C T c s") (auto simp: content_progress_def truncate_progress_iff split: prod.splits)

end
