(* ===== verification/Shared_Store.thy ===== *)
theory Shared_Store
  imports Commits Address_Book Iblt_Types
begin

text \<open>
  What the threads of a node share: the content store with its database, in which the address
  table is kept as well. A thread moves it by a step of the store, by the first transaction of a block
  whose handler got no further, or by storing an address; and every move keeps the invariant
  \<open>shared_ok\<close>: the content table is well formed, every address is in its slot, and the cached tables
  are well typed.
\<close>

section \<open>Moves\<close>

inductive address_move :: "('p, 'k) crates \<Rightarrow> ('c, 'm) store \<Rightarrow> ('c, 'm) store \<Rightarrow> bool" for C where
  move_address: "socket_wf a \<Longrightarrow>
    address_move C s (s\<lparr>sdb := snd (store_address (hashing C) r0 r1 now network a c l b (sdb s))\<rparr>)"

inductive node_move ::
  "('p, 'k) crates \<Rightarrow> ('p, 'k, 'c, 'm, 'u) wallet_crates \<Rightarrow> ('c, 'm) store \<Rightarrow> ('c, 'm) store \<Rightarrow> bool"
  for C W where
  move_store: "store_step C W s s' \<Longrightarrow> node_move C W s s'"
| move_block: "block_transaction C W b s = Ok (ps, s') \<Longrightarrow> node_move C W s s'"
| move_addresses: "address_move C s s' \<Longrightarrow> node_move C W s s'"

lemma address_moves: "(address_move C)\<^sup>*\<^sup>* s s' \<Longrightarrow> (node_move C W)\<^sup>*\<^sup>* s s'"
  by (erule rtranclp_mono [THEN predicate2D, rotated]) (auto intro: move_addresses)

definition tables_typed :: "(u32 \<times> content_key iblt) list \<Rightarrow> bool" where
  "tables_typed ts \<longleftrightarrow> (\<forall>n t. (n, t) \<in> set ts \<longrightarrow> iblt_typed content_key_wf t)"

definition caches_typed :: "('c, 'm) store \<Rightarrow> bool" where
  "caches_typed s \<longleftrightarrow> tables_typed (iblts s)"

definition shared_ok :: "('p, 'k) crates \<Rightarrow> ('c, 'm) store \<Rightarrow> bool" where
  "shared_ok C s \<longleftrightarrow> db_ok C (sdb s) \<and> addresses_ok (hashing C) (sdb s) \<and> caches_typed s"

section \<open>Steps of the store leave the addresses alone\<close>

definition same_addresses :: "db \<Rightarrow> db \<Rightarrow> bool" where
  "same_addresses d' d \<longleftrightarrow> address_tbl d' = address_tbl d \<and> seed_tbl d' = seed_tbl d"

lemma same_addresses_refl [simp]: "same_addresses d d"
  by (simp add: same_addresses_def)

lemma same_addresses_trans: "same_addresses d2 d1 \<Longrightarrow> same_addresses d1 d \<Longrightarrow> same_addresses d2 d"
  by (simp add: same_addresses_def)

lemma same_addresses_ok: "same_addresses d' d \<Longrightarrow> addresses_ok H d \<Longrightarrow> addresses_ok H d'"
  by (simp add: same_addresses_def addresses_ok_def)

lemma same_addresses_ops [simp]:
  "same_addresses (store_processed C h d) e \<longleftrightarrow> same_addresses d e"
  "same_addresses (store_txout C t f d) e \<longleftrightarrow> same_addresses d e"
  "same_addresses (d\<lparr>content_tbl := x\<rparr>) e \<longleftrightarrow> same_addresses d e"
  "same_addresses (d\<lparr>publication_tbl := y\<rparr>) e \<longleftrightarrow> same_addresses d e"
  by (simp_all add: same_addresses_def store_processed_def store_txout_def Let_def)

lemma store_account_addresses: "store_account W m a d = Some d' \<Longrightarrow> same_addresses d' d"
  by (auto simp: store_account_def same_addresses_def split: prod.splits)

lemma store_coins_addresses: "store_coins C W cs d = Ok d' \<Longrightarrow> same_addresses d' d"
  by (auto simp: store_coins_def same_addresses_def Let_def)

lemma delete_addresses:
  "delete_expired C height d = Ok (keys, d') \<Longrightarrow> same_addresses d' d"
  "delete_confirmed C h d = Ok (keys, d') \<Longrightarrow> same_addresses d' d"
  "truncate_content C limit d = Ok (keys, d') \<Longrightarrow> same_addresses d' d"
  by (auto simp: delete_expired_def delete_confirmed_def delete_ids_def dest!: truncate_content_filter(1))

lemma add_content_addresses:
  assumes "add_content C T c s = Ok (b, s')" shows "same_addresses (sdb s') (sdb s)"
  using assms
proof (cases rule: add_content_cases)
  case (2 height hdr out str d)
  then have "d = (sdb s)\<lparr>content_tbl := upsert row_id
      (content_row_of C height (header_hash C hdr) c (out_value out) str) (content_tbl (sdb s))\<rparr>"
    using store_content_Ok by blast
  with 2 show ?thesis by simp
qed simp

lemma block_connected_addresses:
  assumes "block_connected C W T b height s = Ok s'" shows "same_addresses (sdb s') (sdb s)"
  using assms
proof (rule block_connected_cases)
  fix ps w d
  assume "d = sdb s \<or> store_coins C W (coins w) (sdb s) = Ok d"
    and run: "admit_ads C T b ps (s\<lparr>swallet := w, sdb := store_processed C (header_hash C (header b)) d\<rparr>) = Ok s'"
  then have "same_addresses d (sdb s)" using store_coins_addresses by auto
  then show ?thesis
    by (intro admit_ads_invariant [OF run, of "\<lambda>t. same_addresses (sdb t) (sdb s)"])
      (auto intro: same_addresses_trans dest: add_content_addresses)
qed

lemma store_fund_addresses:
  assumes "store_fund C W rnd fuel T i term amount fee pass s = Some (r, s')"
  shows "same_addresses (sdb s') (sdb s) \<and> iblts s' = iblts s"
proof -
  obtain r1 w where "wallet_fund W rnd fuel i term pass fee amount T
      (\<lambda>pk term. funding_script C pk (the term)) (swallet s) = Some (r1, w)"
    using assms by (auto simp: store_fund_def)
  with assms show ?thesis
    by (cases r1; cases "store_account W (master w) (1, 0) (sdb s)")
      (auto simp: store_fund_def Let_def send_tx_def dest: store_account_addresses split: prod.splits if_splits)
qed

lemma store_withdraw_addresses:
  assumes "store_withdraw C W rnd fuel T pass target fee amount s = Some (r, s')"
  shows "same_addresses (sdb s') (sdb s) \<and> iblts s' = iblts s"
proof -
  obtain r1 w where "wallet_withdraw W rnd fuel pass target fee amount T (swallet s) = Some (r1, w)"
    using assms by (auto simp: store_withdraw_def)
  with assms show ?thesis
    by (cases r1; cases "store_account W (master w) (0, 1) (sdb s)")
      (auto simp: store_withdraw_def Let_def send_tx_def dest: store_account_addresses split: prod.splits if_splits)
qed

lemma store_step_addresses:
  assumes "store_step C W s s'"
  shows "same_addresses (sdb s') (sdb s)"
  using assms
proof (induction rule: store_step.induct)
  case (step_serve n s t s')
  then show ?case by (auto simp: get_iblt_def split: option.splits)
next
  case (step_header height hdr s s')
  then show ?case by (auto simp: add_header_def dest!: drop_keys_sdb delete_addresses(1))
next
  case (step_unwind hdr s s')
  then show ?case by (auto simp: unwind_tip_def dest!: drop_keys_sdb delete_addresses(2) intro: same_addresses_trans)
next
  case (step_truncate s s')
  then show ?case by (auto simp: truncate_to_limit_def dest!: drop_keys_sdb delete_addresses(3))
next
  case (step_prepare cat abstr str s i s')
  then show ?case by (auto simp: store_prepare_def prepare_publication_def Let_def)
next
  case (step_deposit s a s')
  then show ?case by (auto simp: deposit_address_def split: if_splits)
qed (auto dest: add_content_addresses block_connected_addresses store_fund_addresses store_withdraw_addresses)

section \<open>Steps of the store keep the types\<close>

lemma key_of_hex_wf: "key_of_hex C x = Ok k \<Longrightarrow> content_key_wf k"
  by (auto simp: key_of_hex_def content_key_new_wf split: option.splits)

lemma omap_pointwise:
  "omap f xs = Ok ys \<Longrightarrow> (\<And>x y. x \<in> set xs \<Longrightarrow> f x = Ok y \<Longrightarrow> P y) \<Longrightarrow> \<forall>y \<in> set ys. P y"
proof (induction xs arbitrary: ys)
  case (Cons x xs)
  then obtain y zs where "f x = Ok y" "omap f xs = Ok zs" "ys = y # zs" by auto
  with Cons.IH [of zs] Cons.prems(2) show ?case by auto
qed simp

lemma compute_content_iblt_typed:
  assumes "compute_content_iblt C n d = Ok t" shows "iblt_typed content_key_wf t"
proof -
  obtain t0 where t0: "iblt_new (hashing C) (content_key_ops (hashing C)) n NH K0 K1 = Ok t0"
    and run: "ofold (\<lambda>id t. obind (key_of_hex C id) (\<lambda>k. iblt_insert (content_key_ops (hashing C)) t k))
      (map row_id (content_tbl d)) t0 = Ok t"
    using assms by (auto simp: compute_content_iblt_def)
  show ?thesis
    by (rule ofold_invariant [OF run])
      (auto intro: content_key.new_typed [OF t0] content_key.insert_typed key_of_hex_wf)
qed

lemma get_iblt_typed:
  assumes "get_iblt C n s = Ok (t, s')" and "caches_typed s"
  shows "caches_typed s'" and "iblt_typed content_key_wf t"
proof -
  obtain u where u: "compute_content_iblt C n (sdb s) = Ok u" using assms(1) by (auto simp: get_iblt_def)
  note typed = assms(2) [unfolded caches_typed_def tables_typed_def]
  have "caches_typed s' \<and> iblt_typed content_key_wf t"
  proof (cases "map_of (iblts s) n")
    case None
    then have "t = u" "iblts s' = (n, u) # iblts s" using assms(1) u by (auto simp: get_iblt_def)
    then show ?thesis using typed compute_content_iblt_typed [OF u] by (simp add: caches_typed_def tables_typed_def)
  next
    case (Some v)
    then have "t = v" "s' = s" using assms(1) u by (auto simp: get_iblt_def)
    then show ?thesis using typed map_of_SomeD [OF Some] assms(2) by blast
  qed
  then show "caches_typed s'" "iblt_typed content_key_wf t" by simp_all
qed

lemma insert_into_iblts_typed:
  assumes "insert_into_iblts C key ts = Ok us" and "tables_typed ts" and "content_key_wf key"
  shows "tables_typed us"
proof -
  have "\<forall>x \<in> set us. iblt_typed content_key_wf (snd x)"
    using assms(1) unfolding insert_into_iblts_def
    by (rule omap_pointwise)
      (use assms(2,3) in \<open>auto simp: tables_typed_def intro: content_key.insert_typed\<close>)
  then show ?thesis by (auto simp: tables_typed_def)
qed

lemma delete_from_iblts_typed:
  assumes "delete_from_iblts C key ts = Ok us" and "tables_typed ts" and "content_key_wf key"
  shows "tables_typed us"
proof -
  have "\<forall>x \<in> set us. iblt_typed content_key_wf (snd x)"
    using assms(1) unfolding delete_from_iblts_def
    by (rule omap_pointwise)
      (use assms(2,3) in \<open>auto simp: tables_typed_def intro: content_key.delete_typed\<close>)
  then show ?thesis by (auto simp: tables_typed_def)
qed

lemma add_content_typed:
  assumes "add_content C T c s = Ok (b, s')" and "caches_typed s"
  shows "caches_typed s'"
proof (cases "s' = s")
  case False
  with assms(1) obtain key where "content_key_wf key" "insert_into_iblts C key (iblts s) = Ok (iblts s')"
    by (auto simp: add_content_def Let_def content_key_new_wf split: option.splits if_splits)
  then show ?thesis using insert_into_iblts_typed assms(2) by (simp add: caches_typed_def)
qed (use assms(2) in simp)

lemma drop_keys_typed:
  assumes "drop_keys C keys d s = Ok s'" and "caches_typed s" and "\<forall>k \<in> set keys. content_key_wf k"
  shows "caches_typed s'"
proof -
  obtain ts deleted_some where run: "ofold (\<lambda>key (ts, deleted_some).
      obind (delete_from_iblts C key ts) (\<lambda>ts'. Ok (ts', deleted_some \<or> ts' \<noteq> []))) keys (iblts s, False)
      = Ok (ts, deleted_some)" and "iblts s' = ts"
    using assms(1) by (auto simp: drop_keys_def split: if_splits)
  moreover have "tables_typed (fst (ts, deleted_some))"
    using run
    by (rule ofold_invariant [where I = "\<lambda>x. tables_typed (fst x)"])
      (use assms(2,3) in \<open>auto simp: caches_typed_def intro: delete_from_iblts_typed\<close>)
  ultimately show ?thesis by (simp add: caches_typed_def)
qed

lemma delete_ids_wf: "delete_ids C ids d = Ok (keys, d') \<Longrightarrow> \<forall>k \<in> set keys. content_key_wf k"
  by (auto simp: delete_ids_def dest!: omap_pointwise [where P = content_key_wf] intro: key_of_hex_wf)

lemma store_step_typed:
  assumes "store_step C W s s'" and "caches_typed s"
  shows "caches_typed s'"
  using assms
proof (induction rule: store_step.induct)
  case (step_serve n s t s')
  then show ?case using get_iblt_typed(1) by blast
next
  case (step_admit T c s a s')
  then show ?case using add_content_typed by blast
next
  case (step_block T b height s s')
  from step_block.hyps show ?case
  proof (rule block_connected_cases)
    fix ps w d
    assume run: "admit_ads C T b ps (s\<lparr>swallet := w, sdb := store_processed C (header_hash C (header b)) d\<rparr>) = Ok s'"
    show ?thesis
      by (rule admit_ads_invariant [OF run])
        (use step_block.prems in \<open>auto simp: caches_typed_def intro: add_content_typed [unfolded caches_typed_def]\<close>)
  qed
next
  case (step_header height hdr s s')
  then show ?case by (auto simp: add_header_def delete_expired_def intro: drop_keys_typed dest!: delete_ids_wf)
next
  case (step_unwind hdr s s')
  then obtain keys d s1 where "delete_confirmed C (header_hash C hdr) (store_processed C (prev_blockhash hdr) (sdb s))
      = Ok (keys, d)" "drop_keys C keys d s = Ok s1" "iblts s' = iblts s1"
    by (auto simp: unwind_tip_def)
  with step_unwind.prems have "caches_typed s1"
    by (auto simp: delete_confirmed_def intro: drop_keys_typed dest!: delete_ids_wf)
  with \<open>iblts s' = iblts s1\<close> show ?case by (simp add: caches_typed_def)
next
  case (step_truncate s s')
  then show ?case
    by (auto simp: truncate_to_limit_def intro: drop_keys_typed dest: truncate_content_filter(2))
next
  case (step_prepare cat abstr str s i s')
  then show ?case by (auto simp: store_prepare_def caches_typed_def)
next
  case (step_deposit s a s')
  then show ?case by (auto simp: deposit_address_def caches_typed_def split: if_splits)
qed (auto simp: caches_typed_def dest: store_fund_addresses store_withdraw_addresses)

section \<open>Every move keeps the invariant\<close>

lemma content_tbl_store_address [simp]:
  "content_tbl (snd (store_address H r0 r1 now network a c l b d)) = content_tbl d"
  by (rule store_address_cases [of d H network a r0 r1 now c l b]) (simp_all add: put_address_def)

lemma address_move_ok:
  assumes "address_move C s s'" and "shared_ok C s"
  shows "shared_ok C s'"
  using assms by cases (auto simp: shared_ok_def caches_typed_def db_ok_def store_address_ok)

lemma block_transaction_ok:
  assumes "block_transaction C W b s = Ok (ps, s')" and "shared_ok C s"
  shows "shared_ok C s'"
  using assms(1)
proof (rule block_transactionE)
  fix w d
  assume d: "content_tbl d = content_tbl (sdb s)" "d = sdb s \<or> store_coins C W (coins w) (sdb s) = Ok d"
    and s': "s' = s\<lparr>swallet := w, sdb := store_processed C (header_hash C (header b)) d\<rparr>"
  have "same_addresses (sdb s') (sdb s)" using d(2) store_coins_addresses by (auto simp: s')
  moreover have "content_tbl (sdb s') = content_tbl (sdb s)" by (simp add: s' store_processed_def d(1))
  ultimately show ?thesis
    using assms(2) by (auto simp: shared_ok_def db_ok_def caches_typed_def s' intro: same_addresses_ok)
qed

lemma node_move_ok:
  assumes "crates_ok C" and "node_move C W s s'" and "shared_ok C s"
  shows "shared_ok C s'"
  using assms(2)
proof cases
  case move_store
  with assms(1,3) show ?thesis
    using store_step_db_ok store_step_addresses same_addresses_ok store_step_typed
    unfolding shared_ok_def by blast
qed (use assms(3) in \<open>auto intro: block_transaction_ok address_move_ok\<close>)

lemma node_moves_ok:
  assumes "(node_move C W)\<^sup>*\<^sup>* s s'" and "crates_ok C" and "shared_ok C s"
  shows "shared_ok C s'"
  using assms by (induction rule: rtranclp_induct) (auto intro: node_move_ok)

section \<open>How the handlers move\<close>

lemma moves_step: "store_step C W s s' \<Longrightarrow> (node_move C W)\<^sup>*\<^sup>* s s'"
  by (rule r_into_rtranclp) (rule move_store)

lemma block_progress_moves:
  assumes "t \<in> set (block_progress C W T b s)"
  shows "(node_move C W)\<^sup>*\<^sup>* s t"
proof -
  obtain ps s1 where s1: "block_transaction C W b s = Ok (ps, s1)"
    and t: "t = s1 \<or> t \<in> set (progress (admit_ad C T b) ps s1)"
    using assms by (cases "block_transaction C W b s") (auto simp: block_progress_def)
  have "node_move C W s s1" by (rule move_block [OF s1])
  moreover have "(node_move C W)\<^sup>*\<^sup>* s1 t"
    using t by (auto dest!: admit_ad_step [where W = W] intro: moves_step elim!: progress_reached)
  ultimately show ?thesis by (rule converse_rtranclp_into_rtranclp)
qed

lemma content_progress_moves:
  assumes "t \<in> set (content_progress C T busy c s)"
  shows "(node_move C W)\<^sup>*\<^sup>* s t"
proof -
  obtain s1 where "s1 = s \<or> (\<exists>b. add_content C T c s = Ok (b, s1))" and "t = s1 \<or> truncate_to_limit C s1 = Ok t"
    using assms by (rule content_progress_cases)
  then have "(node_move C W)\<^sup>*\<^sup>* s s1" and "(node_move C W)\<^sup>*\<^sup>* s1 t"
    by (auto intro: moves_step step_admit step_truncate)
  then show ?thesis by simp
qed

text \<open>Moves of the addresses change the table of addresses and the seed of its slots, and nothing else.\<close>

definition same_but_addresses :: "('c, 'm) store \<Rightarrow> ('c, 'm) store \<Rightarrow> bool" where
  "same_but_addresses s' s \<longleftrightarrow>
     s' = s\<lparr>sdb := (sdb s)\<lparr>address_tbl := address_tbl (sdb s'), seed_tbl := seed_tbl (sdb s')\<rparr>\<rparr>"

lemma same_but_addresses_refl [simp]: "same_but_addresses s s"
  by (simp add: same_but_addresses_def)

lemma same_but_addresses_iff:
  "same_but_addresses s' s \<longleftrightarrow> (\<exists>x y. s' = s\<lparr>sdb := (sdb s)\<lparr>address_tbl := x, seed_tbl := y\<rparr>\<rparr>)"
  by (auto simp: same_but_addresses_def)

lemma same_but_addresses_trans:
  "same_but_addresses u t \<Longrightarrow> same_but_addresses t s \<Longrightarrow> same_but_addresses u s"
  by (auto simp: same_but_addresses_iff) blast

lemma store_address_frame:
  assumes "d' = snd (store_address H r0 r1 now network a c l b d)"
  shows "d' = d\<lparr>address_tbl := address_tbl d', seed_tbl := seed_tbl d'\<rparr>"
  by (rule store_address_cases [of d H network a r0 r1 now c l b]) (simp_all add: put_address_def assms)

lemma address_moves_frame:
  assumes "(address_move C)\<^sup>*\<^sup>* s s'" shows "same_but_addresses s' s"
  using assms
proof (induction rule: rtranclp_induct)
  case (step t u)
  from step.hyps(2) have "same_but_addresses u t"
    by cases (simp add: same_but_addresses_def flip: store_address_frame)
  then show ?case using step.IH by (rule same_but_addresses_trans)
qed simp

end
