(* ===== verification/Thread.thy ===== *)
theory Thread
  imports Prelude
begin

text \<open>
  A thread of the node: a loop that takes events, keeps a state of its own and works on what it
  shares with other threads. A handler that panics, or that does not return, stops its thread. What is
  shared may be behind a lock for readers and writers (\<^verbatim>\<open>RwLock\<close>): a handler that panics while it writes
  poisons the lock, one that does not return never releases it, and in both cases whoever asks for
  the lock later stops as well.
\<close>

section \<open>Threads\<close>

type_synonym ('e, 's, 'd, 'o) handler = "'e \<Rightarrow> 's \<times> 'd \<Rightarrow> ('s \<times> 'd \<times> 'o list) outcome option"

text \<open>An event for a thread that may have stopped; \<open>None\<close> of a handler: it does not return.\<close>

definition deliver :: "('e, 's, 'd, 'o) handler \<Rightarrow> 'e \<Rightarrow> 's option \<times> 'd \<Rightarrow> 's option \<times> 'd \<times> 'o list" where
  "deliver handle e st =
     (case st of
        (None, d) \<Rightarrow> (None, d, [])
      | (Some s, d) \<Rightarrow>
          (case handle e (s, d) of
             Some (Ok (s', d', out)) \<Rightarrow> (Some s', d', out)
           | _ \<Rightarrow> (None, d, [])))"

text \<open>A listing that may not end, as a handler that may not return.\<close>

fun returned :: "'a option outcome \<Rightarrow> 'a outcome option" where
  "returned (Ok None) = None"
| "returned (Ok (Some x)) = Some (Ok x)"
| "returned (Err e) = Some (Err e)"
| "returned (Panic p) = Some (Panic p)"

lemma returned_Ok_iff [simp]: "returned m = Some (Ok x) \<longleftrightarrow> m = Ok (Some x)"
  by (cases m rule: returned.cases) auto

lemma deliver_cases:
  assumes "deliver handle e (st, d) = (st', d', out)"
  obtains "st' = None" "d' = d" "out = []"
  | s s' where "st = Some s" "st' = Some s'" "handle e (s, d) = Some (Ok (s', d', out))"
  using assms by (auto simp: deliver_def split: option.splits outcome.splits)

text \<open>
  The contract of a thread: on an event of the right type it keeps its own state in order and
  moves what is shared by moves that the other threads can rely on.
\<close>

locale thread =
  fixes event_ok :: "'e \<Rightarrow> bool" and state_ok :: "'s \<Rightarrow> bool" and shared_inv :: "'d \<Rightarrow> bool"
    and moves :: "'d \<Rightarrow> 'd \<Rightarrow> bool" and handle :: "('e, 's, 'd, 'o) handler"
  assumes handle_ok: "event_ok e \<Longrightarrow> state_ok s \<Longrightarrow> shared_inv d \<Longrightarrow> handle e (s, d) = Some (Ok (s', d', out)) \<Longrightarrow>
      state_ok s' \<and> moves\<^sup>*\<^sup>* d d'"
begin

lemma delivered:
  assumes "event_ok e" and "pred_option state_ok st" and "shared_inv d"
  shows "pred_option state_ok (fst (deliver handle e (st, d)))"
    and "moves\<^sup>*\<^sup>* d (fst (snd (deliver handle e (st, d))))"
proof -
  obtain st' d' out where r: "deliver handle e (st, d) = (st', d', out)" by (rule prod_cases3)
  then have "pred_option state_ok st' \<and> moves\<^sup>*\<^sup>* d d'"
    by (cases rule: deliver_cases) (use assms handle_ok in auto)
  with r show "pred_option state_ok (fst (deliver handle e (st, d)))"
    "moves\<^sup>*\<^sup>* d (fst (snd (deliver handle e (st, d))))" by simp_all
qed

end

text \<open>A thread that only reads what is shared.\<close>

locale reader =
  fixes event_ok :: "'e \<Rightarrow> bool" and state_ok :: "'s \<Rightarrow> bool" and handle :: "('e, 's, 'd, 'o) handler"
  assumes handle_reads: "event_ok e \<Longrightarrow> state_ok s \<Longrightarrow> handle e (s, d) = Some (Ok (s', d', out)) \<Longrightarrow>
      state_ok s' \<and> d' = d"

context reader
begin

lemma unmoved:
  assumes "event_ok e" and "pred_option state_ok st"
  shows "fst (snd (deliver handle e (st, d))) = d"
proof -
  obtain st' d' out where r: "deliver handle e (st, d) = (st', d', out)" by (rule prod_cases3)
  then have "d' = d" by (cases rule: deliver_cases) (use assms handle_reads in auto)
  with r show ?thesis by simp
qed

end

sublocale reader \<subseteq> thread event_ok state_ok shared_inv moves handle for shared_inv moves
  by unfold_locales (use handle_reads in blast)

section \<open>Threads behind a lock\<close>

datatype access = Reads | Writes

text \<open>
  An event for a thread whose handler takes the lock, if it does, as \<open>access\<close> says: not at all, for reading or
  for writing. The flag says that the lock is lost: poisoned or never released. A handler that panics or does
  not return leaves behind what \<open>left\<close> says; a reader does not lose the lock.
\<close>

definition deliver_locked ::
  "('e \<Rightarrow> 's \<times> 'd \<Rightarrow> access option) \<Rightarrow> ('e \<Rightarrow> 's \<times> 'd \<Rightarrow> 'd) \<Rightarrow> ('e, 's, 'd, 'o) handler \<Rightarrow> 'e
   \<Rightarrow> 's option \<times> 'd \<times> bool \<Rightarrow> 's option \<times> 'd \<times> bool \<times> 'o list" where
  "deliver_locked access left handle e st =
     (case st of
        (None, d, lost) \<Rightarrow> (None, d, lost, [])
      | (Some s, d, lost) \<Rightarrow>
          if lost \<and> access e (s, d) \<noteq> None then (None, d, lost, [])
          else (case handle e (s, d) of
                  Some (Ok (s', d', out)) \<Rightarrow> (Some s', d', lost, out)
                | _ \<Rightarrow> (None, left e (s, d), lost \<or> access e (s, d) = Some Writes, [])))"

lemma deliver_locked_cases:
  assumes "deliver_locked access left handle e (st, d, lost) = (st', d', lost', out)"
  obtains "st' = None" "d' = d" "lost' = lost" "out = []"
  | s where "st = Some s" "st' = None" "d' = left e (s, d)" "lost' \<longleftrightarrow> lost \<or> access e (s, d) = Some Writes"
      "lost \<longrightarrow> access e (s, d) = None" "out = []" "\<nexists>x. handle e (s, d) = Some (Ok x)"
  | s s' where "st = Some s" "st' = Some s'" "lost' = lost" "lost \<longrightarrow> access e (s, d) = None"
      "handle e (s, d) = Some (Ok (s', d', out))"
  using assms by (auto simp: deliver_locked_def split: option.splits outcome.splits if_splits)

text \<open>The contract: only a writer changes what is shared, and what it leaves it was moved to.\<close>

locale locked_thread = thread event_ok state_ok shared_inv moves handle
  for event_ok :: "'e \<Rightarrow> bool" and state_ok :: "'s \<Rightarrow> bool" and shared_inv :: "'d \<Rightarrow> bool"
    and moves :: "'d \<Rightarrow> 'd \<Rightarrow> bool" and handle :: "('e, 's, 'd, 'o) handler" +
  fixes access :: "'e \<Rightarrow> 's \<times> 'd \<Rightarrow> access option" and left :: "'e \<Rightarrow> 's \<times> 'd \<Rightarrow> 'd"
  assumes not_written: "access e (s, d) \<noteq> Some Writes \<Longrightarrow> handle e (s, d) = Some (Ok (s', d', out)) \<Longrightarrow> d' = d"
    and not_left: "access e (s, d) \<noteq> Some Writes \<Longrightarrow> left e (s, d) = d"
    and left_moves: "moves\<^sup>*\<^sup>* d (left e (s, d))"
begin

lemma locked_delivered:
  assumes "event_ok e" and "pred_option state_ok st" and "shared_inv d"
  shows "pred_option state_ok (fst (deliver_locked access left handle e (st, d, lost)))"
    and "moves\<^sup>*\<^sup>* d (fst (snd (deliver_locked access left handle e (st, d, lost))))"
proof -
  obtain st' d' lost' out where r: "deliver_locked access left handle e (st, d, lost) = (st', d', lost', out)"
    by (rule prod_cases4)
  then have "pred_option state_ok st' \<and> moves\<^sup>*\<^sup>* d d'"
    by (cases rule: deliver_locked_cases) (use assms handle_ok left_moves in auto)
  with r show "pred_option state_ok (fst (deliver_locked access left handle e (st, d, lost)))"
    "moves\<^sup>*\<^sup>* d (fst (snd (deliver_locked access left handle e (st, d, lost))))" by simp_all
qed

text \<open>Once the lock is lost it stays lost, and the thread leaves what is shared as it is.\<close>

lemma lost_delivered:
  "fst (snd (deliver_locked access left handle e (st, d, True))) = d"
  "fst (snd (snd (deliver_locked access left handle e (st, d, True))))"
proof -
  obtain st' d' lost' out where r: "deliver_locked access left handle e (st, d, True) = (st', d', lost', out)"
    by (rule prod_cases4)
  then have "d' = d \<and> lost'"
  proof (cases rule: deliver_locked_cases)
    case (3 s s')
    then show ?thesis using not_written [OF _ 3(5)] by simp
  qed (use not_left in auto)
  with r show "fst (snd (deliver_locked access left handle e (st, d, True))) = d"
    "fst (snd (snd (deliver_locked access left handle e (st, d, True))))" by simp_all
qed

end

text \<open>An output comes from a handler that returned, and that did not take a lost lock.\<close>

lemma deliver_out:
  assumes "x \<in> set (snd (snd (deliver handle e (st, d))))"
  obtains s s' d' out where "st = Some s" "handle e (s, d) = Some (Ok (s', d', out))" "x \<in> set out"
proof -
  obtain st' d' out where r: "deliver handle e (st, d) = (st', d', out)" by (rule prod_cases3)
  with assms have "x \<in> set out" by simp
  from r show thesis by (cases rule: deliver_cases) (use \<open>x \<in> set out\<close> that in auto)
qed

lemma deliver_locked_out:
  assumes "x \<in> set (snd (snd (snd (deliver_locked access left handle e (st, d, lost)))))"
  obtains s s' d' out where "st = Some s" "handle e (s, d) = Some (Ok (s', d', out))" "x \<in> set out"
    "lost \<longrightarrow> access e (s, d) = None"
proof -
  obtain st' d' lost' out where r: "deliver_locked access left handle e (st, d, lost) = (st', d', lost', out)"
    by (rule prod_cases4)
  with assms have "x \<in> set out" by simp
  from r show thesis by (cases rule: deliver_locked_cases) (use \<open>x \<in> set out\<close> that in auto)
qed

end
