(* ===== verification/Address_Events.thy ===== *)
theory Address_Events
  imports Biadnet Shared_Store Thread
begin

text \<open>
  The threads that keep the addresses of both networks: the two address pools and the two tasks
  that keep the node connected. The pools move the shared store by storing addresses, the tasks
  only read it.
\<close>

section \<open>Types of what arrives\<close>

text \<open>The addresses an event or a peer table brings are addresses of the standard library.\<close>

definition peers_wf :: "'i peer_addresses \<Rightarrow> bool" where
  "peers_wf p \<longleftrightarrow> (\<forall>pid a. p pid = Some a \<longrightarrow> socket_wf a)"

fun bitcoin_event_wf :: "'i peer_message \<Rightarrow> bool" where
  "bitcoin_event_wf (Connected pid (Some a)) = socket_wf a"
| "bitcoin_event_wf (Incoming pid (Addr es)) = (\<forall>e \<in> set es. \<forall>a. ae_socket e = Some a \<longrightarrow> socket_wf a)"
| "bitcoin_event_wf _ = True"

text \<open>The decoder guarantees of a table in a message no more than the type of its keys.\<close>

fun biadnet_event_wf :: "('i, 'p, 'k) biadnet_event \<Rightarrow> bool" where
  "biadnet_event_wf (Peer_connected pid (Some a)) = socket_wf a"
| "biadnet_event_wf (Peer_incoming pid (ContentIBLT tip t)) = iblt_typed content_key_wf t"
| "biadnet_event_wf (Peer_incoming pid (AddressIBLT t)) = iblt_typed net_address_wf t"
| "biadnet_event_wf _ = True"

text \<open>An event with what the random generator and the clock (in seconds) return.\<close>

type_synonym 'a timed = "u64 \<times> u64 \<times> u64 \<times> 'a"

definition event_message :: "'a timed \<Rightarrow> 'a" where
  "event_message e = snd (snd (snd e))"

section \<open>Storing addresses moves the store\<close>

lemma moves_address:
  "socket_wf a \<Longrightarrow>
     (address_move C)\<^sup>*\<^sup>* s (s\<lparr>sdb := snd (store_address (hashing C) r0 r1 now network a c l b (sdb s))\<rparr>)"
  by (rule r_into_rtranclp) (rule move_address)

lemma moves_refl [simp]: "(address_move C)\<^sup>*\<^sup>* s (s\<lparr>sdb := sdb s\<rparr>)"
  by simp

lemma moves_fold:
  fixes s :: "('c, 'm) store"
  assumes "\<And>x (t :: ('c, 'm) store). x \<in> set xs \<Longrightarrow> (address_move C)\<^sup>*\<^sup>* t (t\<lparr>sdb := f x (sdb t)\<rparr>)"
  shows "(address_move C)\<^sup>*\<^sup>* s (s\<lparr>sdb := fold f xs (sdb s)\<rparr>)"
  using assms
proof (induction xs arbitrary: s)
  case (Cons x xs)
  have "(address_move C)\<^sup>*\<^sup>* s (s\<lparr>sdb := f x (sdb s)\<rparr>)" using Cons.prems by simp
  also have "(address_move C)\<^sup>*\<^sup>* (s\<lparr>sdb := f x (sdb s)\<rparr>) (s\<lparr>sdb := fold f (x # xs) (sdb s)\<rparr>)"
    using Cons.IH [of "s\<lparr>sdb := f x (sdb s)\<rparr>"] Cons.prems by simp
  finally show ?case .
qed simp

lemma pool_connected_moves:
  assumes "pool_connected (hashing C) r0 r1 now network pid addr (p, sdb s) = (p', d')"
    and "\<And>a. addr = Some a \<Longrightarrow> socket_wf a" and "peers_wf p"
  shows "peers_wf p' \<and> (address_move C)\<^sup>*\<^sup>* s (s\<lparr>sdb := d'\<rparr>)"
  using assms by (auto simp: pool_connected_def peers_wf_def moves_address split: option.splits if_splits)

lemma pool_disconnected_moves:
  assumes "pool_disconnected (hashing C) r0 r1 now network pid banned (p, sdb s) = (p', d')" and "peers_wf p"
  shows "peers_wf p' \<and> (address_move C)\<^sup>*\<^sup>* s (s\<lparr>sdb := d'\<rparr>)"
  using assms by (auto simp: pool_disconnected_def peers_wf_def moves_address split: option.splits if_splits)

lemma pool_addr_moves:
  assumes "\<forall>e \<in> set es. \<forall>a. ae_socket e = Some a \<longrightarrow> socket_wf a"
  shows "(address_move C)\<^sup>*\<^sup>* s (s\<lparr>sdb := pool_addr (hashing C) r0 r1 now needed es (sdb s)\<rparr>)"
  unfolding pool_addr_def
  by (rule moves_fold) (use assms in \<open>auto simp: moves_address split: option.splits\<close>)

section \<open>The threads\<close>

text \<open>A pool starts with no peer, on either network.\<close>

definition bitcoin_pool_new :: "'j peer_addresses" where
  "bitcoin_pool_new = (\<lambda>_. None)"

definition defiads_pool_new :: "'i peer_addresses" where
  "defiads_pool_new = (\<lambda>_. None)"

definition bitcoin_pool_thread ::
  "('p, 'k) crates \<Rightarrow> ('j peer_message timed, 'j peer_addresses, ('c, 'm) store, 'o) handler" where
  "bitcoin_pool_thread C e st =
     (case (e, st) of ((r0, r1, now, msg), (p, s)) \<Rightarrow>
        (case bitcoin_pool_message (hashing C) r0 r1 now SERVICE_BLOCKS msg (p, sdb s) of
           (p', d') \<Rightarrow> Some (Ok (p', s\<lparr>sdb := d'\<rparr>, []))))"

definition defiads_pool_thread ::
  "('p, 'k) crates \<Rightarrow> (('i, 'p, 'k) biadnet_event timed, 'i peer_addresses, ('c, 'm) store, 'o) handler" where
  "defiads_pool_thread C e st =
     (case (e, st) of ((r0, r1, now, msg), (p, s)) \<Rightarrow>
        (case biadnet_pool_message (hashing C) r0 r1 now msg (p, sdb s) of
           (p', d') \<Rightarrow> Some (Ok (p', s\<lparr>sdb := d'\<rparr>, []))))"

lemma pools_silent [simp]:
  "snd (snd (deliver (bitcoin_pool_thread C) e1 (st1, s))) = []"
  "snd (snd (deliver (defiads_pool_thread C) e2 (st2, s))) = []"
  by (auto simp: deliver_def bitcoin_pool_thread_def defiads_pool_thread_def split: option.splits prod.splits)

text \<open>
  A round of the task that keeps the node connected: the time, the two numbers that are drawn, how
  many peers are connected, and their addresses.
\<close>

type_synonym keep_event = "u64 \<times> nat \<times> u32 \<times> nat \<times> socket_addr list"

definition keep_connected_thread ::
  "string \<Rightarrow> (keep_event, keep_connected, ('c, 'm) store, socket_addr) handler" where
  "keep_connected_thread network e st =
     (case (e, st) of ((now, sample, r, n, peers), (k, s)) \<Rightarrow>
        (case keep_connected_poll now sample r network n peers (sdb s) k of
           (c, k') \<Rightarrow> Some (Ok (k', s, case c of None \<Rightarrow> [] | Some a \<Rightarrow> [a]))))"

interpretation bitcoin_pool: thread "\<lambda>e. bitcoin_event_wf (event_message e)" peers_wf "shared_ok C" "address_move C"
  "bitcoin_pool_thread C" for C
proof (unfold_locales, goal_cases)
  case (1 e p s p' s' out)
  obtain r0 r1 now msg where e: "e = (r0, r1, now, msg)" by (cases e)
  show ?case
  proof (cases msg)
    case (Connected pid addr)
    with 1 e show ?thesis
      by (cases addr) (auto simp: bitcoin_pool_thread_def event_message_def split: prod.splits
          intro!: pool_connected_moves dest: pool_connected_moves)
  next
    case (Disconnected pid banned)
    with 1 e show ?thesis
      by (auto simp: bitcoin_pool_thread_def event_message_def split: prod.splits dest: pool_disconnected_moves)
  next
    case (Incoming pid m)
    with 1 e show ?thesis
      by (cases m) (auto simp: bitcoin_pool_thread_def event_message_def intro: pool_addr_moves)
  qed (use 1 e in \<open>auto simp: bitcoin_pool_thread_def\<close>)
qed

interpretation defiads_pool: thread "\<lambda>e. biadnet_event_wf (event_message e)" peers_wf "shared_ok C" "address_move C"
  "defiads_pool_thread C" for C
proof (unfold_locales, goal_cases)
  case (1 e p s p' s' out)
  obtain r0 r1 now msg where e: "e = (r0, r1, now, msg)" by (cases e)
  show ?case
  proof (cases msg)
    case (Peer_connected pid addr)
    with 1 e show ?thesis
      by (cases addr) (auto simp: defiads_pool_thread_def event_message_def split: prod.splits
          dest: pool_connected_moves)
  next
    case (Peer_disconnected pid banned)
    with 1 e show ?thesis
      by (auto simp: defiads_pool_thread_def event_message_def split: prod.splits dest: pool_disconnected_moves)
  qed (use 1 e in \<open>auto simp: defiads_pool_thread_def\<close>)
qed

interpretation keep: reader "\<lambda>_. True" "\<lambda>_. True" "keep_connected_thread network" for network
  by unfold_locales (auto simp: keep_connected_thread_def split: prod.splits)

end
