(* ===== verification/Discovery.thy ===== *)
theory Discovery
  imports Address_Book Messages "HOL-Library.While_Combinator"
begin

text \<open>
  The exchange of addresses with a peer, \<^verbatim>\<open>src/discovery.rs\<close>: the poll, the comparison of
  sketches, the exchange of address tables and the storing of what is learned. Every handler
  takes the state of the discovery thread with the database and returns them with the
  actions it causes; \<open>now\<close> is the time of the message, \<open>r0\<close> and \<open>r1\<close> what the random generator
  would draw for the seed of the address table.
\<close>

section \<open>State\<close>

definition ADDRESS_MINIMUM_IBLT_SIZE :: u32 where
  "ADDRESS_MINIMUM_IBLT_SIZE = 100"

definition ADDRESS_MAXIMUM_IBLT_SIZE :: u32 where
  "ADDRESS_MAXIMUM_IBLT_SIZE = push_bit 2 ADDRESS_MINIMUM_IBLT_SIZE"

definition SKETCH_SIZE :: nat where
  "SKETCH_SIZE = 10"

record 'i discovery =
  poll_asked :: "'i \<Rightarrow> poll_address_message option"
  iblt_sent :: "'i \<Rightarrow> net_address iblt option"
  addresses :: "'i \<Rightarrow> socket_addr option"

definition discovery_new :: "'i discovery" where
  "discovery_new = \<lparr>poll_asked = (\<lambda>_. None), iblt_sent = (\<lambda>_. None), addresses = (\<lambda>_. None)\<rparr>"

text \<open>A transaction that is dropped without a commit is rolled back.\<close>

definition rolled_back :: "(db \<Rightarrow> 'a \<times> db) \<Rightarrow> db \<Rightarrow> 'a \<times> db" where
  "rolled_back f d = in_transaction f False d"

lemma rolled_back_snd [simp]: "snd (rolled_back f d) = d"
  by (simp add: rolled_back_def in_transaction_def case_prod_unfold)

section \<open>Handlers\<close>

definition poll_address ::
  "hash_crates \<Rightarrow> u64 \<Rightarrow> 'i \<Rightarrow> 'i discovery \<times> db
   \<Rightarrow> ('i discovery \<times> db \<times> ('i, 'p, 'k) action list) outcome" where
  "poll_address H now pid st =
     (case st of (s, d) \<Rightarrow>
        obind (expect_ok ''can not compute address sketch'' (compute_address_sketch H now SKETCH_SIZE d))
          (\<lambda>(sketch, n). let poll = \<lparr>pa_sketch = sketch, pa_size = n\<rparr> in
             Ok (s\<lparr>poll_asked := (poll_asked s)(pid \<mapsto> poll)\<rparr>, d,
                 [Send_network pid (PollAddress poll), Expect pid 1 Expect_PollAddress])))"

text \<open>\<^verbatim>\<open>PeerMessage::Connected\<close>: the transaction that stores the address has no commit.\<close>

definition discovery_connected ::
  "hash_crates \<Rightarrow> u64 \<Rightarrow> u64 \<Rightarrow> u64 \<Rightarrow> 'i \<Rightarrow> socket_addr option \<Rightarrow> 'i discovery \<times> db
   \<Rightarrow> ('i discovery \<times> db \<times> ('i, 'p, 'k) action list) outcome" where
  "discovery_connected H r0 r1 now pid addr st =
     (case st of (s, d) \<Rightarrow>
        (case addr of
           None \<Rightarrow> poll_address H now pid (s, d)
         | Some a \<Rightarrow>
             poll_address H now pid
               (s\<lparr>addresses := (addresses s)(pid \<mapsto> a)\<rparr>,
                snd (rolled_back (store_address H r0 r1 now ''defiads'' a now now 0) d))))"

definition discovery_disconnected ::
  "hash_crates \<Rightarrow> u64 \<Rightarrow> u64 \<Rightarrow> u64 \<Rightarrow> 'i \<Rightarrow> bool \<Rightarrow> 'i discovery \<times> db \<Rightarrow> 'i discovery \<times> db" where
  "discovery_disconnected H r0 r1 now pid banned st =
     (case st of (s, d) \<Rightarrow>
        (case (if banned then addresses s pid else None) of
           None \<Rightarrow> (s\<lparr>poll_asked := (poll_asked s)(pid := None), iblt_sent := (iblt_sent s)(pid := None)\<rparr>, d)
         | Some a \<Rightarrow>
             (s\<lparr>addresses := (addresses s)(pid := None), poll_asked := (poll_asked s)(pid := None),
                iblt_sent := (iblt_sent s)(pid := None)\<rparr>,
              snd (store_address H r0 r1 now ''bitcoin'' a 0 0 now d))))"

definition address_table_size :: "u32 \<Rightarrow> u32" where
  "address_table_size diff =
     (case while_option (\<lambda>n. n < ADDRESS_MAXIMUM_IBLT_SIZE \<and> n < diff) (\<lambda>n. push_bit 2 n)
             ADDRESS_MINIMUM_IBLT_SIZE of
        Some n \<Rightarrow> n | None \<Rightarrow> 0)"

definition on_poll_address ::
  "hash_crates \<Rightarrow> u64 \<Rightarrow> 'i \<Rightarrow> poll_address_message \<Rightarrow> 'i discovery \<times> db
   \<Rightarrow> ('i discovery \<times> db \<times> ('i, 'p, 'k) action list) outcome" where
  "on_poll_address H now pid poll st =
     (case st of (s, d) \<Rightarrow>
        (case poll_asked s pid of
           None \<Rightarrow> poll_address H now pid (s, d)
         | Some question \<Rightarrow>
             (let s1 = s\<lparr>poll_asked := (poll_asked s)(pid := None)\<rparr>;
                  recv = Received pid 1 Expect_PollAddress in
              obind (estimate_diff_size (pa_sketch question) (pa_size question) (pa_sketch poll) (pa_size poll))
                (\<lambda>e. let diff = e * 3 div 2 in
                     if diff > 0 then
                       obind (expect_ok ''could not compute address IBLT''
                                (compute_address_iblt H now (address_table_size diff) d))
                         (\<lambda>t. Ok (s1\<lparr>iblt_sent := (iblt_sent s1)(pid \<mapsto> t)\<rparr>, d,
                                 [recv, Expect pid 1 Expect_AddressIBLT, Send_network pid (AddressIBLT t)]))
                     else Ok (s1, d, [recv])))))"

text \<open>
  The loop over the listing of a received table, up to the first error: \<open>learn\<close> is what it does
  with an inserted entry, which is stored if it has a socket address.
\<close>

definition learn :: "hash_crates \<Rightarrow> u64 \<Rightarrow> u64 \<Rightarrow> u64 \<Rightarrow> net_address \<Rightarrow> db \<Rightarrow> db" where
  "learn H r0 r1 now n d =
     (case socket_address n of Ok a \<Rightarrow> snd (store_address H r0 r1 now ''defiads'' a 0 now 0 d) | _ \<Rightarrow> d)"

fun store_entries ::
  "hash_crates \<Rightarrow> u64 \<Rightarrow> u64 \<Rightarrow> u64 \<Rightarrow> (iblt_error + net_address iblt_entry) list \<Rightarrow> db \<Rightarrow> db" where
  "store_entries H r0 r1 now [] d = d"
| "store_entries H r0 r1 now (Inr (Inserted n) # es) d =
     store_entries H r0 r1 now es (learn H r0 r1 now n d)"
| "store_entries H r0 r1 now (Inr (Deleted n) # es) d = store_entries H r0 r1 now es d"
| "store_entries H r0 r1 now (Inl e # es) d = d"

text \<open>\<open>Ok None\<close>: the listing did not end within \<open>fuel\<close> entries.\<close>

definition on_address_iblt ::
  "hash_crates \<Rightarrow> nat \<Rightarrow> u64 \<Rightarrow> u64 \<Rightarrow> u64 \<Rightarrow> 'i \<Rightarrow> net_address iblt \<Rightarrow> 'i discovery \<times> db
   \<Rightarrow> ('i discovery \<times> db \<times> ('i, 'p, 'k) action list) option outcome" where
  "on_address_iblt H fuel r0 r1 now pid t st =
     (case st of (s, d) \<Rightarrow>
        let K = net_address_ops H in
        obind (case iblt_sent s pid of Some u \<Rightarrow> substract K t u | None \<Rightarrow> Ok t) (\<lambda>diff.
          obind (iblt_entries fuel K (iblt_iterator_new K diff)) (\<lambda>items.
            Ok (map_option (\<lambda>es. (s\<lparr>iblt_sent := (iblt_sent s)(pid := None)\<rparr>,
                                  store_entries H r0 r1 now es d,
                                  [Received pid 1 Expect_AddressIBLT])) items))))"

text \<open>The periodic poll; \<open>chosen\<close> is the connected peer the network layer picked, if any.\<close>

definition discovery_tick ::
  "hash_crates \<Rightarrow> u64 \<Rightarrow> 'i option \<Rightarrow> 'i discovery \<times> db
   \<Rightarrow> ('i discovery \<times> db \<times> ('i, 'p, 'k) action list) outcome" where
  "discovery_tick H now chosen st =
     (case st of (s, d) \<Rightarrow>
        obind (expect_ok ''can not compute address sketch'' (compute_address_sketch H now SKETCH_SIZE d))
          (\<lambda>(sketch, n). let poll = \<lparr>pa_sketch = sketch, pa_size = n\<rparr> in
             (case chosen of
                Some pid \<Rightarrow> Ok (s\<lparr>poll_asked := (poll_asked s)(pid \<mapsto> poll)\<rparr>, d,
                   [Send_network pid (PollAddress poll), Expect pid 1 Expect_PollAddress])
              | None \<Rightarrow> Ok (s, d, []))))"

section \<open>What is recorded of peers\<close>

lemma filter_upsert_other:
  assumes "\<not> P r" and "\<And>q. P q \<Longrightarrow> key q \<noteq> key r"
  shows "filter P (upsert key r tbl) = filter P tbl"
  using assms by (auto simp: upsert_def intro!: filter_cong)

lemma store_address_other_network:
  assumes "network \<noteq> n"
  shows "filter (\<lambda>r. adr_network r = n \<and> Q r)
           (address_tbl (snd (store_address H r0 r1 now network a c l b d)))
       = filter (\<lambda>r. adr_network r = n \<and> Q r) (address_tbl d)"
proof -
  have put: "filter (\<lambda>r. adr_network r = n \<and> Q r) (address_tbl (snd (put_address q d'))) =
      filter (\<lambda>r. adr_network r = n \<and> Q r) (address_tbl d')" if "adr_network q = network" for q d'
    using assms that by (auto simp: put_address_def address_key_def intro!: filter_upsert_other)
  show ?thesis
    by (rule store_address_cases [of d H network a r0 r1 now c l b]) (simp_all add: put)
qed

text \<open>
  The discovery thread's own record of a ban has no effect on this network: it is written under
  the name of the other network, so that the addresses to connect to and the addresses passed
  on to peers stay as they were. (The address pool thread records the ban as well, under the
  right name.)
\<close>

lemma ban_not_effective:
  assumes "discovery_disconnected H r0 r1 now pid True (s, d) = (s', d')"
  shows "get_an_address now' sample ''defiads'' other_than d'
       = get_an_address now' sample ''defiads'' other_than d
    \<and> recent_addresses now' d' = recent_addresses now' d"
proof (cases "addresses s pid")
  case None
  then show ?thesis using assms by (auto simp: discovery_disconnected_def)
next
  case (Some a)
  then have "d' = snd (store_address H r0 r1 now ''bitcoin'' a 0 0 now d)"
    using assms by (simp add: discovery_disconnected_def)
  then show ?thesis
    by (simp add: get_an_address_def eligible_addresses_def recent_addresses_def Let_def
        store_address_other_network)
qed

text \<open>
  The discovery thread does not record a successful connection: it stores the address in a
  transaction that is dropped, so that the database is the one it was.
\<close>

lemma connection_not_recorded:
  assumes "discovery_connected H r0 r1 now pid addr (s, d) = Ok (s', d', acts)"
  shows "d' = d"
  using assms
  by (auto simp: discovery_connected_def poll_address_def Let_def
      split: option.splits)

section \<open>What is learned from a peer\<close>

lemma socket_address_wf: "socket_address n = Ok a \<Longrightarrow> net_address_wf n \<Longrightarrow> socket_wf a"
  by (auto simp: socket_address_def net_address_wf_def split: if_splits option.splits)

lemma learn_ok: "addresses_ok H d \<Longrightarrow> net_address_wf n \<Longrightarrow> addresses_ok H (learn H r0 r1 now n d)"
  by (auto simp: learn_def store_address_ok socket_address_wf split: outcome.splits)

lemma learn_all_ok:
  "addresses_ok H d \<Longrightarrow> \<forall>n \<in> set ns. net_address_wf n \<Longrightarrow> addresses_ok H (fold (learn H r0 r1 now) ns d)"
  by (induction ns arbitrary: d) (auto simp: learn_ok)

lemma store_entries_found:
  "store_entries H r0 r1 now
     (map (\<lambda>e. Inr (entry_of e)) found @ (if c then [Inl IncompleteIteration] else [])) d
   = fold (learn H r0 r1 now) (map fst (filter (\<lambda>e. snd e = 1) found)) d"
  by (induction found arbitrary: d) (auto simp: entry_of_def learn_def)

text \<open>The addresses to connect to among those a peer has.\<close>

definition offered :: "net_address list \<Rightarrow> socket_addr set" where
  "offered ns = {a. \<exists>n \<in> set ns. socket_address n = Ok a}"

text \<open>
  What learning leaves in the slot of an address: an offered address, seen now, or the one that was
  there before and was connected during the last five days.
\<close>

definition slot_settled :: "u64 \<Rightarrow> db \<Rightarrow> socket_addr set \<Rightarrow> u16 \<Rightarrow> db \<Rightarrow> bool" where
  "slot_settled now d A slot d' \<longleftrightarrow>
     (\<exists>r \<in> set (address_tbl d'). address_key r = (''defiads'', slot)
        \<and> (adr_ip r \<in> A \<and> now \<le> adr_last_seen r
           \<or> r \<in> set (address_tbl d) \<and> adr_ip r \<notin> A \<and> adr_banned r = 0 \<and> now - OLD_CONNECTION \<le> adr_connected r))"

lemma learn_settles:
  fixes seed :: "u64 \<times> u64" and H :: hash_crates
  defines "slot \<equiv> address_slot H seed ''defiads''"
  assumes "addresses_ok H d0" and "fst (read_seed r0 r1 d0) = seed" and "fst (read_seed r0 r1 d1) = seed"
    and "addresses_ok H d1" and "\<forall>a \<in> A. slot_settled now d0 A (slot a) d1"
    and "\<And>r. address_key r \<notin> Pair ''defiads'' ` slot ` A \<Longrightarrow> r \<in> set (address_tbl d1) \<longleftrightarrow> r \<in> set (address_tbl d0)"
    and "d2 = snd (store_address H r0 r1 now ''defiads'' x 0 now 0 d1)"
  shows "fst (read_seed r0 r1 d2) = seed"
    and "\<forall>a \<in> insert x A. slot_settled now d0 (insert x A) (slot a) d2"
    and "address_key q \<notin> Pair ''defiads'' ` slot ` insert x A \<Longrightarrow> q \<in> set (address_tbl d2) \<longleftrightarrow> q \<in> set (address_tbl d0)"
proof -
  note st = store_address_slot [OF assms(5,4,8) refl, folded slot_def]
  show "fst (read_seed r0 r1 d2) = seed" using st(1) by (simp add: read_seed_def)
  show "q \<in> set (address_tbl d2) \<longleftrightarrow> q \<in> set (address_tbl d0)"
    if "address_key q \<notin> Pair ''defiads'' ` slot ` insert x A"
    using that st(3) [of q] assms(7) [of q] by auto
  have key: "adr_ip r \<noteq> y" if "r \<in> set (address_tbl d1)" "address_key r = (''defiads'', m)" "m \<noteq> slot y" for r m y
    using address_key_slot [OF assms(5,4) that(1)] that(2,3) by (auto simp: slot_def)
  have new: "slot_settled now d0 (insert x A) (slot x) d2"
  proof (cases "slot x \<in> slot ` A")
    case True
    then obtain r where r: "r \<in> set (address_tbl d1)" "address_key r = (''defiads'', slot x)"
      "adr_ip r \<in> A \<and> now \<le> adr_last_seen r
       \<or> r \<in> set (address_tbl d0) \<and> adr_ip r \<notin> A \<and> adr_banned r = 0 \<and> now - OLD_CONNECTION \<le> adr_connected r"
      using assms(6) by (force simp: slot_settled_def)
    have "q = r" if "q \<in> set (address_tbl d1)" "address_key q = (''defiads'', slot x)" for q
      using address_key_unique [OF assms(5) that(1) r(1)] that(2) r(2) by simp
    with st(2) r show ?thesis unfolding slot_settled_def by blast
  next
    case False
    have "q \<in> set (address_tbl d0) \<and> adr_ip q \<notin> A" if "q \<in> set (address_tbl d1)" "address_key q = (''defiads'', slot x)" for q
      using assms(7) [of q] that False key [OF that] by auto
    with st(2) show ?thesis unfolding slot_settled_def by blast
  qed
  have "slot_settled now d0 (insert x A) (slot a) d2" if a: "a \<in> A" for a
  proof (cases "slot a = slot x")
    case False
    obtain r where r: "r \<in> set (address_tbl d1)" "address_key r = (''defiads'', slot a)"
      "adr_ip r \<in> A \<and> now \<le> adr_last_seen r
       \<or> r \<in> set (address_tbl d0) \<and> adr_ip r \<notin> A \<and> adr_banned r = 0 \<and> now - OLD_CONNECTION \<le> adr_connected r"
      using assms(6) a by (force simp: slot_settled_def)
    then have "r \<in> set (address_tbl d2)" "adr_ip r \<noteq> x" using st(3) [of r] False key [OF r(1,2) False] by auto
    with r(2,3) show ?thesis unfolding slot_settled_def by blast
  qed (simp add: new)
  with new show "\<forall>a \<in> insert x A. slot_settled now d0 (insert x A) (slot a) d2" by blast
qed

lemma learn_all_settle:
  fixes seed :: "u64 \<times> u64" and H :: hash_crates
  defines "slot \<equiv> address_slot H seed ''defiads''"
  assumes "addresses_ok H d" and "fst (read_seed r0 r1 d) = seed" and "\<forall>n \<in> set ns. net_address_wf n"
  shows "fst (read_seed r0 r1 (fold (learn H r0 r1 now) ns d)) = seed
    \<and> (\<forall>a \<in> offered ns. slot_settled now d (offered ns) (slot a) (fold (learn H r0 r1 now) ns d))
    \<and> (\<forall>r. address_key r \<notin> Pair ''defiads'' ` slot ` offered ns
         \<longrightarrow> (r \<in> set (address_tbl (fold (learn H r0 r1 now) ns d)) \<longleftrightarrow> r \<in> set (address_tbl d)))"
  using assms(4)
proof (induction ns rule: rev_induct)
  case Nil
  then show ?case using assms(3) by (simp add: offered_def)
next
  case (snoc n ns)
  let ?d = "fold (learn H r0 r1 now) ns d"
  have ok: "addresses_ok H ?d" using learn_all_ok [OF assms(2)] snoc.prems by simp
  show ?case
  proof (cases "socket_address n")
    case (Ok x)
    have off: "offered (ns @ [n]) = insert x (offered ns)" using Ok by (auto simp: offered_def)
    have d2: "fold (learn H r0 r1 now) (ns @ [n]) d = snd (store_address H r0 r1 now ''defiads'' x 0 now 0 ?d)"
      using Ok by (simp add: learn_def)
    have IH: "fst (read_seed r0 r1 ?d) = seed" "\<forall>a \<in> offered ns. slot_settled now d (offered ns) (slot a) ?d"
      "\<And>r. address_key r \<notin> Pair ''defiads'' ` slot ` offered ns \<Longrightarrow> r \<in> set (address_tbl ?d) \<longleftrightarrow> r \<in> set (address_tbl d)"
      using snoc by auto
    from learn_settles [OF assms(2,3) IH(1) ok IH(2,3) [unfolded slot_def] refl] show ?thesis
      unfolding off d2 slot_def by blast
  qed (use snoc in \<open>simp_all add: offered_def learn_def\<close>)
qed

text \<open>An offered address that has its slot to itself is stored.\<close>

lemma settled_stored:
  fixes seed :: "u64 \<times> u64" and H :: hash_crates
  defines "slot \<equiv> address_slot H seed ''defiads''"
  assumes "slot_settled now d A (slot a) d'" and "addresses_ok H d'" and "fst (read_seed r0 r1 d') = seed" and "a \<in> A"
    and "\<forall>x \<in> A. slot x = slot a \<longrightarrow> x = a"
    and "\<forall>r \<in> set (address_tbl d). address_key r = (''defiads'', slot a) \<and> adr_ip r \<noteq> a
           \<longrightarrow> 0 < adr_banned r \<or> adr_connected r < now - OLD_CONNECTION"
  shows "\<exists>r \<in> set (address_tbl d'). adr_network r = ''defiads'' \<and> adr_ip r = a \<and> now \<le> adr_last_seen r"
proof -
  obtain r where r: "r \<in> set (address_tbl d')" "address_key r = (''defiads'', slot a)"
    "adr_ip r \<in> A \<and> now \<le> adr_last_seen r
     \<or> r \<in> set (address_tbl d) \<and> adr_ip r \<notin> A \<and> adr_banned r = 0 \<and> now - OLD_CONNECTION \<le> adr_connected r"
    using assms(2) by (auto simp: slot_settled_def)
  have "slot (adr_ip r) = slot a" "adr_network r = ''defiads''"
    using address_key_slot [OF assms(3,4) r(1)] r(2) by (auto simp: slot_def)
  then show ?thesis using r assms(5-7) by (intro bexI [OF _ r(1)]) (auto simp: not_less)
qed

text \<open>What a table computed from an ordered book brings: the entries found are learned in turn.\<close>

lemma addresses_found:
  assumes "addresses_ok H d" and "addresses_ok H theirs" and "n \<noteq> 0"
    and "compute_address_iblt H t1 n d = Ok u" and "iblt_sent s pid = Some u"
    and "compute_address_iblt H t2 n theirs = Ok t"
    and "iblt_new H (net_address_ops H) n NH K0 K1 = Ok t0"
    and "no_false_pure (net_address_ops H) t0
           (diff_entries (recent_addresses t2 theirs) (recent_addresses t1 d))"
    and "length (recent_addresses t2 theirs) + length (recent_addresses t1 d) + 2 \<le> fuel"
  shows "\<exists>found rest. mset (diff_entries (recent_addresses t2 theirs) (recent_addresses t1 d)) = mset (found @ rest)
    \<and> (\<forall>b < unat n. length (entries_at (net_address_ops H) t0 b rest) \<noteq> 1)
    \<and> on_address_iblt H fuel r0 r1 now pid t (s, d) = Ok (Some (s\<lparr>iblt_sent := (iblt_sent s)(pid := None)\<rparr>,
         fold (learn H r0 r1 now) (map fst (filter (\<lambda>e. snd e = 1) found)) d, [Received pid 1 Expect_AddressIBLT]))
    \<and> (\<forall>k \<in> set (map fst (filter (\<lambda>e. snd e = 1) found)). net_address_wf k)"
proof -
  let ?K = "net_address_ops H" and ?xs = "recent_addresses t2 theirs" and ?ys = "recent_addresses t1 d"
  note t0 = iblt_new_ok [OF assms(7,3)]
  have tab: "iblt_insert_all ?K ?xs t0 = Ok t" "iblt_insert_all ?K ?ys t0 = Ok u"
    using assms(4,6,7) by (simp_all add: compute_address_iblt_def)
  have wf: "\<forall>k \<in> set ?xs \<union> set ?ys. net_address_wf k"
    using recent_addresses_wf assms(1,2) by blast
  obtain diff found rest where r: "substract ?K t u = Ok diff"
    "mset (diff_entries ?xs ?ys) = mset (found @ rest)"
    "\<forall>b < unat n. length (entries_at ?K t0 b rest) \<noteq> 1"
    "iblt_entries fuel ?K (iblt_iterator_new ?K diff) = Ok (Some (map (\<lambda>e. Inr (entry_of e)) found @
       (if \<exists>b < unat n. bcount (bsum ?K t0 (entries_at ?K t0 b rest)) \<noteq> 0
        then [Inl IncompleteIteration] else [])))"
    using net_address.reconcile [OF t0(1,2) tab distinct_recent_addresses [OF assms(2)]
        distinct_recent_addresses [OF assms(1)] wf assms(8,9)] t0(3) by auto
  have "set found \<subseteq> set (diff_entries ?xs ?ys)" using mset_eq_setD [OF r(2)] by auto
  then have "\<forall>k \<in> set (map fst (filter (\<lambda>e. snd e = 1) found)). net_address_wf k"
    using wf by (fastforce simp: diff_entries_def)
  moreover have "on_address_iblt H fuel r0 r1 now pid t (s, d) =
        Ok (Some (s\<lparr>iblt_sent := (iblt_sent s)(pid := None)\<rparr>,
          fold (learn H r0 r1 now) (map fst (filter (\<lambda>e. snd e = 1) found)) d,
          [Received pid 1 Expect_AddressIBLT]))"
    using r(1,4) by (simp add: on_address_iblt_def assms(5) Let_def store_entries_found)
  ultimately show ?thesis using r(2,3) by blast
qed

text \<open>
  C26. The address exchange. Let a peer answer our table with its own, both computed from address
  books that are in order, and let no bucket look like one of a single address that is not.
  Then the listing ends, and what it finds are entries of the difference, each once; what is not
  found shares its buckets with other addresses that are not found either. The addresses found on
  the peer's side only that can be connected to (not those of hidden services) are offered to the
  book. One that has its slot to itself is stored and seen now: no other address found has the
  slot, and the book has no other address there that is not banned and was connected during the
  last five days. In every case the slot then has one of the addresses found or such an address.
  Rows of other slots stay as they are, and the book stays in order.
\<close>

theorem addresses_learned:
  fixes s :: "'i discovery"
  assumes "addresses_ok H d" and "addresses_ok H theirs" and "n \<noteq> 0"
    and "compute_address_iblt H t1 n d = Ok u" and "iblt_sent s pid = Some u"
    and "compute_address_iblt H t2 n theirs = Ok t"
    and "iblt_new H (net_address_ops H) n NH K0 K1 = Ok t0"
    and "no_false_pure (net_address_ops H) t0
           (diff_entries (recent_addresses t2 theirs) (recent_addresses t1 d))"
    and "length (recent_addresses t2 theirs) + length (recent_addresses t1 d) + 2 \<le> fuel"
    and "slot = address_slot H (fst (read_seed r0 r1 d)) ''defiads''"
  shows "\<exists>found rest A d'.
      on_address_iblt H fuel r0 r1 now pid t (s, d) =
        Ok (Some (s\<lparr>iblt_sent := (iblt_sent s)(pid := None)\<rparr>, d', [Received pid 1 Expect_AddressIBLT :: ('i, 'p, 'k) action]))
    \<and> mset (diff_entries (recent_addresses t2 theirs) (recent_addresses t1 d)) = mset (found @ rest)
    \<and> (\<forall>b < unat n. length (entries_at (net_address_ops H) t0 b rest) \<noteq> 1)
    \<and> A = {a. \<exists>(x, c) \<in> set found. c = 1 \<and> socket_address x = Ok a}
    \<and> (\<forall>a \<in> A. (\<forall>x \<in> A. slot x = slot a \<longrightarrow> x = a)
         \<and> (\<forall>r \<in> set (address_tbl d). address_key r = (''defiads'', slot a) \<and> adr_ip r \<noteq> a
              \<longrightarrow> 0 < adr_banned r \<or> adr_connected r < now - OLD_CONNECTION)
         \<longrightarrow> (\<exists>r \<in> set (address_tbl d'). adr_network r = ''defiads'' \<and> adr_ip r = a \<and> now \<le> adr_last_seen r))
    \<and> (\<forall>a \<in> A. \<exists>r \<in> set (address_tbl d'). address_key r = (''defiads'', slot a)
         \<and> (adr_ip r \<in> A \<and> now \<le> adr_last_seen r
            \<or> r \<in> set (address_tbl d) \<and> adr_ip r \<notin> A \<and> adr_banned r = 0 \<and> now - OLD_CONNECTION \<le> adr_connected r))
    \<and> (\<forall>r. (\<forall>a \<in> A. address_key r \<noteq> (''defiads'', slot a))
         \<longrightarrow> (r \<in> set (address_tbl d') \<longleftrightarrow> r \<in> set (address_tbl d)))
    \<and> addresses_ok H d'"
proof -
  obtain found rest where f: "mset (diff_entries (recent_addresses t2 theirs) (recent_addresses t1 d)) = mset (found @ rest)"
    "\<forall>b < unat n. length (entries_at (net_address_ops H) t0 b rest) \<noteq> 1"
    "on_address_iblt H fuel r0 r1 now pid t (s, d) = Ok (Some (s\<lparr>iblt_sent := (iblt_sent s)(pid := None)\<rparr>,
       fold (learn H r0 r1 now) (map fst (filter (\<lambda>e. snd e = 1) found)) d, [Received pid 1 Expect_AddressIBLT :: ('i, 'p, 'k) action]))"
    and wf: "\<forall>k \<in> set (map fst (filter (\<lambda>e. snd e = 1) found)). net_address_wf k"
    using addresses_found [OF assms(1-9), of r0 r1 now] by blast
  define ns where "ns = map fst (filter (\<lambda>e. snd e = 1) found)"
  define d' where "d' = fold (learn H r0 r1 now) ns d"
  have ok: "addresses_ok H d'" unfolding d'_def by (rule learn_all_ok [OF assms(1)]) (use wf in \<open>simp add: ns_def\<close>)
  have A: "offered ns = {a. \<exists>(x, c) \<in> set found. c = 1 \<and> socket_address x = Ok a}"
    by (force simp: offered_def ns_def)
  note all = learn_all_settle [OF assms(1) refl wf [folded ns_def], of r0 r1 now, folded d'_def assms(10)]
  have settled: "\<forall>a \<in> offered ns. slot_settled now d (offered ns) (slot a) d'" using all by blast
  have alone: "\<forall>a \<in> offered ns. (\<forall>x \<in> offered ns. slot x = slot a \<longrightarrow> x = a)
         \<and> (\<forall>r \<in> set (address_tbl d). address_key r = (''defiads'', slot a) \<and> adr_ip r \<noteq> a
              \<longrightarrow> 0 < adr_banned r \<or> adr_connected r < now - OLD_CONNECTION)
         \<longrightarrow> (\<exists>r \<in> set (address_tbl d'). adr_network r = ''defiads'' \<and> adr_ip r = a \<and> now \<le> adr_last_seen r)"
    using settled_stored [OF _ ok conjunct1 [OF all], folded assms(10)] settled by blast
  have frame: "\<forall>r. (\<forall>a \<in> offered ns. address_key r \<noteq> (''defiads'', slot a))
      \<longrightarrow> (r \<in> set (address_tbl d') \<longleftrightarrow> r \<in> set (address_tbl d))"
    using all by blast
  show ?thesis
    by (intro exI conjI) (rule f(3) [folded ns_def, folded d'_def], rule f(1), rule f(2), rule A, rule alone,
      rule settled [unfolded slot_settled_def], rule frame, rule ok)
qed

section \<open>How a ban is lifted\<close>


end
