(* ===== verification/Send_Tx.thy ===== *)
theory Send_Tx
  imports Bitcoin_Net Store_Run
begin

text \<open>
  The thread that serves and announces transactions, \<^verbatim>\<open>src/sendtx.rs\<close>. Its cache is the
  \<^verbatim>\<open>LruCache\<close> of the crate \<^verbatim>\<open>lru_cache\<close>, a type \<open>'l\<close> with the functions the source calls: look up
  and touch, insert and return what was there, and look up without touching. Own transactions
  are read from the database.
\<close>

record 'l lru_crate =
  lru_new :: "nat \<Rightarrow> 'l"
  lru_get_mut :: "'l \<Rightarrow> hash \<Rightarrow> transaction option \<times> 'l"
  lru_insert :: "'l \<Rightarrow> hash \<Rightarrow> transaction \<Rightarrow> transaction option \<times> 'l"
  lru_contains :: "'l \<Rightarrow> hash \<Rightarrow> bool"

section \<open>Start\<close>

definition CACHE_SIZE :: nat where
  "CACHE_SIZE = 1000"

definition own_unconfirmed :: "('p, 'k) crates \<Rightarrow> db \<Rightarrow> transaction list outcome" where
  "own_unconfirmed C d =
     obind (expect_ok ''can not read unconfirmed transactions'' (read_unconfirmed C d)) (\<lambda>us. Ok (map fst us))"

text \<open>
  The own transactions are read at the start, but the table they are put into is not kept: only a
  transaction that can not be read matters.
\<close>

definition sendtx_new :: "('p, 'k) crates \<Rightarrow> 'l lru_crate \<Rightarrow> db \<Rightarrow> 'l outcome" where
  "sendtx_new C L d = obind (own_unconfirmed C d) (\<lambda>_. Ok (lru_new L CACHE_SIZE))"

section \<open>Handlers\<close>

text \<open>The requested transactions the cache serves, and the hashes it does not know.\<close>

fun serve_cached ::
  "'l lru_crate \<Rightarrow> 'i \<Rightarrow> hash list \<Rightarrow> 'l \<Rightarrow> hash list \<times> 'l \<times> 'i net_action list" where
  "serve_cached L pid [] l = ([], l, [])"
| "serve_cached L pid (h # hs) l =
     (case lru_get_mut L l h of
        (Some t, l1) \<Rightarrow>
          (case serve_cached L pid hs l1 of (rest, l2, acts) \<Rightarrow> (rest, l2, Send_to pid (Tx_msg t) # acts))
      | (None, l1) \<Rightarrow>
          (case serve_cached L pid hs l1 of (rest, l2, acts) \<Rightarrow> (h # rest, l2, acts)))"

definition wanted_transactions :: "inventory list \<Rightarrow> hash list" where
  "wanted_transactions invs = map inv_hash (filter (\<lambda>i. inv_kind i = Inv_Transaction) invs)"

definition sendtx_get_data ::
  "('p, 'k) crates \<Rightarrow> 'l lru_crate \<Rightarrow> 'i \<Rightarrow> inventory list \<Rightarrow> db \<Rightarrow> 'l \<Rightarrow> ('l \<times> 'i net_action list) outcome" where
  "sendtx_get_data C L pid invs d l =
     (let txs = wanted_transactions invs in
      if txs = [] then Ok (l, [])
      else (case serve_cached L pid txs l of
              (rest, l', acts) \<Rightarrow>
                if rest = [] then Ok (l', acts)
                else obind (own_unconfirmed C d) (\<lambda>ts.
                       Ok (l', acts @ map (\<lambda>t. Send_to pid (Tx_msg t))
                                 (filter (\<lambda>t. txid C t \<in> set rest) ts)))))"

definition sendtx_inv :: "'l lru_crate \<Rightarrow> 'i \<Rightarrow> inventory list \<Rightarrow> 'l \<Rightarrow> 'i net_action list" where
  "sendtx_inv L pid invs l =
     (let have_not = filter (\<lambda>i. inv_kind i = Inv_Transaction \<and> \<not> lru_contains L l (inv_hash i)) invs
      in if have_not \<noteq> [] then [Send_to pid (GetData have_not)] else [])"

definition announcement :: "('p, 'k) crates \<Rightarrow> transaction \<Rightarrow> 'i net_action" where
  "announcement C t = Send_random (Inv [\<lparr>inv_kind = Inv_Transaction, inv_hash = txid C t\<rparr>])"

definition sendtx_tx ::
  "('p, 'k) crates \<Rightarrow> 'l lru_crate \<Rightarrow> transaction \<Rightarrow> 'l \<Rightarrow> 'l \<times> 'i net_action list" where
  "sendtx_tx C L t l =
     (case lru_insert L l (txid C t) t of
        (old, l') \<Rightarrow> (l', if old = None then [announcement C t] else []))"

text \<open>The announcement that is due at the first message after a minute.\<close>

definition sendtx_announce ::
  "('p, 'k) crates \<Rightarrow> 'l lru_crate \<Rightarrow> db \<Rightarrow> 'l \<Rightarrow> 'i net_action list outcome" where
  "sendtx_announce C L d l =
     obind (own_unconfirmed C d) (\<lambda>ts.
       Ok (map (announcement C) (filter (\<lambda>t. \<not> lru_contains L l (txid C t)) ts)))"

text \<open>One message; \<open>due\<close> tells whether a minute has passed since the last announcement.\<close>

definition sendtx_message ::
  "('p, 'k) crates \<Rightarrow> 'l lru_crate \<Rightarrow> bool \<Rightarrow> 'i peer_message \<Rightarrow> db \<Rightarrow> 'l \<Rightarrow> ('l \<times> 'i net_action list) outcome" where
  "sendtx_message C L due msg d l =
     obind (case msg of
              Incoming pid (GetData invs) \<Rightarrow> sendtx_get_data C L pid invs d l
            | Incoming pid (Inv invs) \<Rightarrow> Ok (l, sendtx_inv L pid invs l)
            | Incoming pid (Tx_msg t) \<Rightarrow> Ok (sendtx_tx C L t l)
            | Outgoing (Tx_msg t) \<Rightarrow> Ok (l, [announcement C t])
            | _ \<Rightarrow> Ok (l, []))
       (\<lambda>(l', acts).
          if due then obind (sendtx_announce C L d l') (\<lambda>acts'. Ok (l', acts @ acts'))
          else Ok (l', acts))"

section \<open>Runs of the thread\<close>

text \<open>
  The loop of the thread over the messages it receives. At each one the database is what the other
  threads have left, and it is known whether an announcement is due.
\<close>

fun sendtx_run ::
  "('p, 'k) crates \<Rightarrow> 'l lru_crate \<Rightarrow> (bool \<times> 'i peer_message \<times> db) list \<Rightarrow> 'l \<Rightarrow> ('l \<times> 'i net_action list) outcome" where
  "sendtx_run C L [] l = Ok (l, [])"
| "sendtx_run C L ((due, msg, d) # es) l =
     obind (sendtx_message C L due msg d l) (\<lambda>(l', acts).
       obind (sendtx_run C L es l') (\<lambda>(l'', acts'). Ok (l'', acts @ acts')))"

text \<open>The transactions peers have sent to the thread.\<close>

definition received :: "(bool \<times> 'i peer_message \<times> db) list \<Rightarrow> transaction set" where
  "received es = {t. \<exists>due pid d. (due, Incoming pid (Tx_msg t), d) \<in> set es}"

section \<open>The cache\<close>

text \<open>
  What the documentation of \<^verbatim>\<open>lru_cache\<close> promises, over the contents of a cache as a map: a new
  cache is empty; \<^verbatim>\<open>get_mut\<close> returns the value stored under the key and keeps the contents;
  \<^verbatim>\<open>insert\<close> returns the value it replaces and stores the new one, and may drop other entries, as
  the cache holds a limited number of them; \<^verbatim>\<open>contains_key\<close> tells whether there is a value.
\<close>

definition lru_ok :: "'l lru_crate \<Rightarrow> ('l \<Rightarrow> bool) \<Rightarrow> ('l \<Rightarrow> hash \<Rightarrow> transaction option) \<Rightarrow> bool" where
  "lru_ok L ok entries \<longleftrightarrow>
     (\<forall>n. 0 < n \<longrightarrow> ok (lru_new L n) \<and> entries (lru_new L n) = Map.empty)
   \<and> (\<forall>l h. ok l \<longrightarrow> (case lru_get_mut L l h of (r, l') \<Rightarrow> r = entries l h \<and> ok l' \<and> entries l' = entries l))
   \<and> (\<forall>l h t. ok l \<longrightarrow> (case lru_insert L l h t of (r, l') \<Rightarrow>
        r = entries l h \<and> ok l' \<and> entries l' h = Some t \<and> entries l' \<subseteq>\<^sub>m (entries l)(h \<mapsto> t)))
   \<and> (\<forall>l h. ok l \<longrightarrow> (lru_contains L l h \<longleftrightarrow> entries l h \<noteq> None))"

lemma lru_okD:
  assumes "lru_ok L ok entries"
  shows "0 < n \<Longrightarrow> ok (lru_new L n) \<and> entries (lru_new L n) = Map.empty"
    and "ok l \<Longrightarrow> lru_get_mut L l h = (r, l') \<Longrightarrow> r = entries l h \<and> ok l' \<and> entries l' = entries l"
    and "ok l \<Longrightarrow> lru_insert L l h t = (r, l') \<Longrightarrow> ok l' \<and> entries l' \<subseteq>\<^sub>m (entries l)(h \<mapsto> t)"
proof -
  assume "0 < n"
  with assms show "ok (lru_new L n) \<and> entries (lru_new L n) = Map.empty" by (simp add: lru_ok_def)
next
  assume "ok l" and "lru_get_mut L l h = (r, l')"
  with assms [unfolded lru_ok_def, THEN conjunct2, THEN conjunct1, rule_format, of l h]
  show "r = entries l h \<and> ok l' \<and> entries l' = entries l" by simp
next
  assume "ok l" and "lru_insert L l h t = (r, l')"
  with assms [unfolded lru_ok_def, THEN conjunct2, THEN conjunct2, THEN conjunct1, rule_format, of l h t]
  show "ok l' \<and> entries l' \<subseteq>\<^sub>m (entries l)(h \<mapsto> t)" by simp
qed

lemma serve_cached_spec:
  assumes "lru_ok L ok entries" and "ok l" and "serve_cached L pid hs l = (rest, l', acts)"
  shows "ok l' \<and> entries l' = entries l \<and> rest = filter (\<lambda>h. entries l h = None) hs
    \<and> acts = map (\<lambda>h. Send_to pid (Tx_msg (the (entries l h)))) (filter (\<lambda>h. entries l h \<noteq> None) hs)"
  using assms(2,3)
proof (induction hs arbitrary: l rest l' acts)
  case (Cons x hs)
  obtain r l1 where g: "lru_get_mut L l x = (r, l1)" by fastforce
  obtain rest2 l2 acts2 where s: "serve_cached L pid hs l1 = (rest2, l2, acts2)" by (cases "serve_cached L pid hs l1")
  from lru_okD(2) [OF assms(1) Cons.prems(1) g] have l1: "r = entries l x" "ok l1" "entries l1 = entries l" by auto
  show ?case
    using Cons.IH [OF l1(2) s] Cons.prems(2) l1(1) by (cases r) (auto simp: g s l1(3))
qed simp

text \<open>
  The invariant of the thread: what the cache has under a hash is a transaction with that hash,
  and a peer has sent it.
\<close>

definition cache_sound :: "('p, 'k) crates \<Rightarrow> (hash \<Rightarrow> transaction option) \<Rightarrow> transaction set \<Rightarrow> bool" where
  "cache_sound C entries R \<longleftrightarrow> (\<forall>h t. entries h = Some t \<longrightarrow> txid C t = h \<and> t \<in> R)"

lemma cache_sound_mono:
  "cache_sound C entries R \<Longrightarrow> entries' \<subseteq>\<^sub>m entries \<Longrightarrow> R \<subseteq> R' \<Longrightarrow> cache_sound C entries' R'"
  by (fastforce simp: cache_sound_def map_le_def dom_def)

lemma cache_sound_received:
  "cache_sound C entries R \<Longrightarrow> entries' \<subseteq>\<^sub>m entries(txid C t \<mapsto> t)
    \<Longrightarrow> cache_sound C entries' (R \<union> received [(due, Incoming pid (Tx_msg t), d)])"
  by (rule cache_sound_mono [where R = "insert t R"]) (auto simp: cache_sound_def received_def)

lemma sendtx_message_cache:
  fixes msg :: "'i peer_message"
  assumes "lru_ok L ok entries" and "ok l" and "sendtx_message C L due msg d l = Ok (l', acts)"
  shows "ok l' \<and> (entries l' = entries l \<or>
    (\<exists>pid t. msg = Incoming pid (Tx_msg t) \<and> entries l' \<subseteq>\<^sub>m (entries l)(txid C t \<mapsto> t)))"
proof -
  have get: "ok l1 \<and> entries l1 = entries l" if "sendtx_get_data C L pid invs d l = Ok (l1, a)" for pid :: 'i and invs l1 a
    using that serve_cached_spec [OF assms(1,2)] assms(2)
    by (fastforce simp: sendtx_get_data_def Let_def split: if_splits prod.splits)
  have tx: "ok l1 \<and> entries l1 \<subseteq>\<^sub>m (entries l)(txid C t \<mapsto> t)" if "sendtx_tx C L t l = (l1, a)" for t l1 and a :: "'i net_action list"
    using that lru_okD(3) [OF assms(1,2)] by (fastforce simp: sendtx_tx_def split: prod.splits)
  show ?thesis
    using assms(2,3) get tx
    by (auto simp: sendtx_message_def split: peer_message.splits network_message.splits if_splits)
qed

lemma sendtx_run_sound:
  assumes "lru_ok L ok entries"
  shows "ok l \<Longrightarrow> cache_sound C (entries l) R \<Longrightarrow> sendtx_run C L es l = Ok (l', acts)
    \<Longrightarrow> ok l' \<and> cache_sound C (entries l') (R \<union> received es)"
proof (induction es arbitrary: l R acts)
  case (Cons e es)
  obtain due msg d where e: "e = (due, msg, d)" by (cases e)
  from Cons.prems(3) obtain l1 a1 a2 where st: "sendtx_message C L due msg d l = Ok (l1, a1)"
    and rest: "sendtx_run C L es l1 = Ok (l', a2)" by (auto simp: e)
  from sendtx_message_cache [OF assms Cons.prems(1) st] Cons.prems(2)
  have "ok l1 \<and> cache_sound C (entries l1) (R \<union> received [e])"
    by (auto simp: e intro: cache_sound_received cache_sound_mono)
  from Cons.IH [OF conjunct1 [OF this] conjunct2 [OF this] rest] show ?case
    by (rule conj_forward) (auto elim!: cache_sound_mono simp: received_def)
qed (auto elim: cache_sound_mono)

section \<open>Own transactions are served\<close>

text \<open>What the documentation of the transaction encoding promises.\<close>

definition tx_codec_ok :: "('p, 'k) crates \<Rightarrow> bool" where
  "tx_codec_ok C \<longleftrightarrow> (\<forall>t. deserialize_tx C (serialize_tx C t) = Some t)"

lemma omap_append:
  "omap f (xs @ ys) = obind (omap f xs) (\<lambda>us. obind (omap f ys) (\<lambda>vs. Ok (us @ vs)))"
  by (induction xs) (simp_all add: obind_assoc)

lemma omap_filter_Ok:
  "omap f xs = Ok ys \<Longrightarrow> \<exists>zs. omap f (filter P xs) = Ok zs \<and> set zs \<subseteq> set ys"
  by (induction xs arbitrary: ys) fastforce+

lemma filter_filter_conj: "filter P (filter Q xs) = filter Q (filter P xs)"
  by (induction xs) auto

lemma read_unconfirmed_account:
  "store_account W m a d = Some d' \<Longrightarrow> read_unconfirmed C d' = read_unconfirmed C d"
  by (auto simp: read_unconfirmed_def store_account_def split: prod.splits)

text \<open>A transaction that was just stored is among the unconfirmed ones.\<close>

lemma store_txout_unconfirmed:
  assumes "crates_ok C" and "tx_codec_ok C" and "read_unconfirmed C d = Ok us"
    and "case fund of Some (pk, i, n) \<Rightarrow> length i = DIGEST_LEN | None \<Rightarrow> True"
  shows "\<exists>vs. read_unconfirmed C (store_txout C t fund d) = Ok (vs @ [(t, fund)]) \<and> set vs \<subseteq> set us"
proof -
  define row where "row = \<lparr>txo_txid = sha256d_to_hex C (txid C t), txo_tx = serialize_tx C t,
       txo_confirmed = None, txo_publisher = map_option (\<lambda>(p, _, _). pk_to_bytes C p) fund,
       txo_id = map_option (\<lambda>(_, i, _). sha256_to_hex C i) fund,
       txo_term = map_option (\<lambda>(_, _, n). n) fund\<rparr>"
  let ?open = "\<lambda>r. txo_confirmed r = None" and ?other = "\<lambda>q. txo_txid q \<noteq> txo_txid row"
  have tbl: "txout_tbl (store_txout C t fund d) = filter ?other (txout_tbl d) @ [row]"
    by (simp add: store_txout_def Let_def upsert_def row_def)
  have row: "unconfirmed_of_row C row = Ok (t, fund)" "?open row"
    using assms(1,2,4) by (auto simp: row_def unconfirmed_of_row_def tx_codec_ok_def crates_ok_def split: option.splits)
  obtain zs where "omap (unconfirmed_of_row C) (filter ?other (filter ?open (txout_tbl d))) = Ok zs"
    "set zs \<subseteq> set us"
    using omap_filter_Ok [OF assms(3) [unfolded read_unconfirmed_def]] by blast
  then have "omap (unconfirmed_of_row C) (filter ?open (filter ?other (txout_tbl d))) = Ok zs"
    "set zs \<subseteq> set us"
    by (simp_all only: filter_filter_conj)
  with row show ?thesis
    by (simp add: read_unconfirmed_def tbl omap_append del: filter_filter)
qed

lemma funded_among_unconfirmed:
  assumes "crates_ok C" and "tx_codec_ok C" and "read_unconfirmed C (sdb s) = Ok us" and "length ident = DIGEST_LEN"
    and "store_fund C W rnd fuel T ident term amount fee pass s = Some (Ok (t, pk, f), s')"
  shows "\<exists>vs. read_unconfirmed C (sdb s') = Ok vs \<and> t \<in> fst ` set vs"
proof -
  obtain m d where "store_account W m (1, 0) (sdb s) = Some d"
    and db: "sdb s' = store_txout C t (Some (pk, ident, term)) d"
    by (rule store_fund_OkE [OF assms(5)])
  then have "read_unconfirmed C d = Ok us" using assms(3) by (simp add: read_unconfirmed_account)
  then obtain vs where "read_unconfirmed C (sdb s') = Ok (vs @ [(t, Some (pk, ident, term))])"
    using store_txout_unconfirmed [OF assms(1,2), of d us "Some (pk, ident, term)" t] assms(4) by (auto simp: db)
  then show ?thesis by force
qed

text \<open>A request for a hash is answered from the cache or, for an own transaction, from the database.\<close>

lemma get_data_serves:
  assumes "lru_ok L ok entries" and "ok l" and "cache_sound C (entries l) R"
    and "txid C t \<in> set (wanted_transactions invs)" and "read_unconfirmed C d = Ok vs" and "t \<in> fst ` set vs"
  shows "\<exists>l' acts t'. sendtx_message C L due (Incoming pid (GetData invs)) d l = Ok (l', acts)
    \<and> Send_to pid (Tx_msg t') \<in> set acts \<and> txid C t' = txid C t \<and> (t' = t \<or> t' \<in> R)"
proof -
  obtain rest l1 a1 where sc: "serve_cached L pid (wanted_transactions invs) l = (rest, l1, a1)"
    by (cases "serve_cached L pid (wanted_transactions invs) l")
  note spec = serve_cached_spec [OF assms(1,2) sc]
  have "\<exists>acts t'. sendtx_get_data C L pid invs d l = Ok (l1, acts)
      \<and> Send_to pid (Tx_msg t') \<in> set acts \<and> txid C t' = txid C t \<and> (t' = t \<or> t' \<in> R)"
  proof (cases "entries l (txid C t)")
    case None
    with spec assms(4) have "txid C t \<in> set rest" by simp
    with assms(4-6) show ?thesis
      by (force simp: sendtx_get_data_def sc own_unconfirmed_def Let_def intro: exI [where x = t])
  next
    case (Some t')
    then have "Send_to pid (Tx_msg t') \<in> set a1" using spec assms(4) by force
    moreover have "txid C t' = txid C t" "t' \<in> R" using assms(3) Some by (simp_all add: cache_sound_def)
    ultimately show ?thesis
      using assms(4,5) by (auto simp: sendtx_get_data_def sc own_unconfirmed_def Let_def intro!: exI [where x = t'])
  qed
  then show ?thesis
    using assms(5) by (fastforce simp: sendtx_message_def sendtx_announce_def own_unconfirmed_def)
qed

text \<open>
  C29. Own transactions reach the network. Let the store fund an ad with a transaction, and let the
  thread have run from its start over any messages. The transaction is among the unconfirmed ones
  of the database, and from then on, with every database in which it still is, the thread announces
  it when it is handed over, and a peer that asks for its hash is sent a transaction with that hash:
  the node's own, or the one another peer has sent before under the hash, which need not have the
  same witnesses. If no peer has sent one, it is the node's own. (The cache keeps the contract of
  its crate.)
\<close>

theorem funding_served:
  fixes es :: "(bool \<times> 'i peer_message \<times> db) list" and pid :: 'i
  assumes "crates_ok C" and "tx_codec_ok C" and "lru_ok L ok entries"
    and "read_unconfirmed C (sdb s) = Ok us" and "length ident = DIGEST_LEN"
    and "store_fund C W rnd fuel T ident term amount fee pass s = Some (Ok (t, pk, f), s')"
    and "sendtx_new C L d0 = Ok l0" and "sendtx_run C L es l0 = Ok (l, acts0)"
    and "\<lparr>inv_kind = Inv_Transaction, inv_hash = txid C t\<rparr> \<in> set invs"
  shows "(\<exists>vs. read_unconfirmed C (sdb s') = Ok vs \<and> t \<in> fst ` set vs)
    \<and> (\<forall>d vs. read_unconfirmed C d = Ok vs \<and> t \<in> fst ` set vs \<longrightarrow>
         (\<exists>acts. sendtx_message C L due (Outgoing (Tx_msg t)) d l = Ok (l, announcement C t # acts))
       \<and> (\<exists>l' acts t'. sendtx_message C L due (Incoming pid (GetData invs)) d l = Ok (l', acts)
            \<and> Send_to pid (Tx_msg t') \<in> set acts \<and> txid C t' = txid C t \<and> (t' = t \<or> t' \<in> received es)))"
proof (intro conjI allI impI)
  show "\<exists>vs. read_unconfirmed C (sdb s') = Ok vs \<and> t \<in> fst ` set vs"
    by (rule funded_among_unconfirmed [OF assms(1,2,4,5,6)])
next
  fix d vs assume vs: "read_unconfirmed C d = Ok vs \<and> t \<in> fst ` set vs"
  then show "\<exists>acts. sendtx_message C L due (Outgoing (Tx_msg t)) d l = Ok (l, announcement C t # acts)"
    by (simp add: sendtx_message_def sendtx_announce_def own_unconfirmed_def)
  have start: "ok l0" "cache_sound C (entries l0) {}"
    using assms(7) lru_okD(1) [OF assms(3), of CACHE_SIZE]
    by (auto simp: sendtx_new_def CACHE_SIZE_def cache_sound_def)
  from sendtx_run_sound [OF assms(3) start assms(8)]
  have l: "ok l" "cache_sound C (entries l) (received es)" by simp_all
  have "txid C t \<in> set (wanted_transactions invs)" using assms(9) by (force simp: wanted_transactions_def)
  from get_data_serves [OF assms(3) l this conjunct1 [OF vs] conjunct2 [OF vs]]
  show "\<exists>l' acts t'. sendtx_message C L due (Incoming pid (GetData invs)) d l = Ok (l', acts)
      \<and> Send_to pid (Tx_msg t') \<in> set acts \<and> txid C t' = txid C t \<and> (t' = t \<or> t' \<in> received es)" .
qed

end
