(* ===== verification/Publication.thy ===== *)
theory Publication
  imports Send_Tx
begin

text \<open>
  The way of an ad through the program, across the database, the wallet and the store: it is
  prepared, funded, and when a block with the funding transaction is connected it becomes
  content that is served to peers.
\<close>

section \<open>What is left alone on the way\<close>

lemma publication_tbl_store_account: "store_account W m a d = Some d' \<Longrightarrow> publication_tbl d' = publication_tbl d"
  by (auto simp: store_account_def split: prod.splits)

lemma publication_tbl_store_txout [simp]: "publication_tbl (store_txout C t f d) = publication_tbl d"
  by (simp add: store_txout_def Let_def)

lemma store_ok_block:
  assumes "store_ok C s" and "content_tbl d = content_tbl (sdb s)"
  shows "store_ok C (s\<lparr>swallet := w, sdb := store_processed C h d\<rparr>)"
  using assms by (simp add: store_ok_def sketch_for_def db_ok_def content_keys_def store_processed_def)

section \<open>What a funding transaction commits to\<close>

text \<open>
  What the documentation of \<^verbatim>\<open>bitcoin_wallet\<close> promises of a key added with a script: the script is
  made by the function handed over, for the base key tweaked with the given bytes and the given
  term, and the address of the key pays to the hash of that script. The base key is the public key
  before the tweak. (The account of the commitments is of the type \<^verbatim>\<open>P2WSH\<close>.)
\<close>

definition script_key_ok :: "('p, 'k) crates \<Rightarrow> ('p, 'k, 'c, 'm, 'u) wallet_crates \<Rightarrow> bool" where
  "script_key_ok C W \<longleftrightarrow>
     (\<forall>m scripter tweak csv kix m' contract pk.
        add_script_key W m (1, 0) scripter (Some tweak) csv = Some (kix, m')
        \<and> key_script W m' (1, 0) kix = Some contract \<and> base_public_key W m' (1, 0) kix = Some pk
        \<longrightarrow> (\<exists>k. tweak_exp_add C pk tweak = Some k \<and> contract = p2wsh_script C (scripter k csv)))"

text \<open>What it promises of a proof: it is of the given block and has the transaction at the given place.\<close>

definition proof_new_ok :: "('p, 'k) crates \<Rightarrow> bool" where
  "proof_new_ok C \<longleftrightarrow>
     (\<forall>b n. n < length (txdata b) \<longrightarrow>
        proof_transaction C (proof_new C b n) = txdata b ! n
        \<and> proof_block_hash C (proof_new C b n) = header_hash C (header b))"

text \<open>A transaction without its witnesses, which is what its hash is of.\<close>

definition strip_witness :: "transaction \<Rightarrow> transaction" where
  "strip_witness t = t\<lparr>tx_input := map (\<lambda>i. i\<lparr>tx_witness := []\<rparr>) (tx_input t)\<rparr>"

lemma strip_witness_eqD:
  assumes "strip_witness t = strip_witness u"
  shows "tx_output t = tx_output u" and "tx_version t = tx_version u"
  using arg_cong [OF assms, of tx_output] arg_cong [OF assms, of tx_version] by (simp_all add: strip_witness_def)

text \<open>
  A funding transaction for a term the wallet does not cut pays the amount less the fee to the
  commitment \<open>add_content\<close> looks for.
\<close>

lemma fund_commits:
  assumes "signing_ok W" and "script_key_ok C W" and "term \<le> MAX_TERM"
    and "store_fund C W rnd fuel T ident term amount fee pass s = Some (Ok (t, pk, f), s')"
  shows "tx_version t = 2"
    and "\<exists>k. tweak_exp_add C pk ident = Some k
      \<and> \<lparr>out_value = amount - f, script_pubkey = funding_address C k term\<rparr> \<in> set (tx_output t)"
proof -
  obtain r w where "wallet_fund W rnd fuel ident term pass fee amount T
      (\<lambda>pk term. funding_script C pk (the term)) (swallet s) = Some (r, w)"
    using assms(4) by (auto simp: store_fund_def)
  with assms(4) have w: "wallet_fund W rnd fuel ident term pass fee amount T
      (\<lambda>pk term. funding_script C pk (the term)) (swallet s) = Some (Ok (t, pk, f), w)"
    by (cases r) (auto simp: store_fund_def Let_def split: option.splits)
  obtain m kix m' contract where
    a: "add_script_key W m (1, 0) (\<lambda>pk term. funding_script C pk (the term)) (Some ident) (Some (min MAX_TERM term))
      = Some (kix, m')" "key_script W m' (1, 0) kix = Some contract" "base_public_key W m' (1, 0) kix = Some pk"
    and o: "\<lparr>out_value = amount - f, script_pubkey = contract\<rparr> \<in> set (tx_output t)" and v: "tx_version t = 2"
    by (rule fund_Ok [OF assms(1) w])
  show "tx_version t = 2" by (rule v)
  have cut: "min MAX_TERM term = term" using assms(3) by (simp add: min_def)
  obtain k where "tweak_exp_add C pk ident = Some k" "contract = p2wsh_script C (funding_script C k term)"
    using assms(2) a unfolding script_key_ok_def cut by fastforce
  with o show "\<exists>k. tweak_exp_add C pk ident = Some k
      \<and> \<lparr>out_value = amount - f, script_pubkey = funding_address C k term\<rparr> \<in> set (tx_output t)"
    by (auto simp: funding_address_def)
qed

lemma find_SomeI: "x \<in> set xs \<Longrightarrow> P x \<Longrightarrow> \<exists>y. find P xs = Some y"
  using find_None_iff [of P xs] by (cases "find P xs") auto

text \<open>Content made of a block that has the funding transaction makes its claim good while the block is on the trunk.\<close>

lemma confirmed_funded:
  assumes "signing_ok W" and "script_key_ok C W" and "proof_new_ok C" and "term \<le> MAX_TERM"
    and "store_fund C W rnd fuel T (ad_digest C a) term amount fee pass s = Some (Ok (t, pk, f), s')"
    and "tix < length (txdata b)" and "strip_witness (txdata b ! tix) = strip_witness t"
    and "proof_merkle_root C (proof_new C b tix) = merkle_root (header b)"
    and "get_header T' (header_hash C (header b)) = Some (header b)"
    and "get_height T' (header_hash C (header b)) = Some n" and "trunk_len T' \<le> n + ucast term"
  shows "\<exists>out. funded C T' \<lparr>ad = a, funding = proof_new C b tix, funder = pk, content_term = term\<rparr> n (header b) out"
proof -
  have p: "proof_transaction C (proof_new C b tix) = txdata b ! tix"
    "proof_block_hash C (proof_new C b tix) = header_hash C (header b)"
    using assms(3,6) by (simp_all add: proof_new_ok_def)
  note pays = fund_commits [OF assms(1,2,4,5)]
  obtain k where k: "tweak_exp_add C pk (ad_digest C a) = Some k"
    "\<lparr>out_value = amount - f, script_pubkey = funding_address C k term\<rparr> \<in> set (tx_output (txdata b ! tix))"
    using pays(2) strip_witness_eqD(1) [OF assms(7)] by auto
  obtain out where "find (\<lambda>x. script_pubkey x = funding_address C k term) (tx_output (txdata b ! tix)) = Some out"
    using find_SomeI [OF k(2), of "\<lambda>x. script_pubkey x = funding_address C k term"] by auto
  with k(1) pays(1) strip_witness_eqD(2) [OF assms(7)] assms(8-11) show ?thesis
    by (intro exI [of _ out]) (simp add: funded_def p)
qed

section \<open>Confirmation\<close>

text \<open>A publication just funded, and nothing else of ours, is found in a block that has it.\<close>

lemma newly_confirmed_single:
  assumes "read_unconfirmed C d = Ok [(t, Some (pk, i, term))]" and "read_publication C i d = Some a"
    and "find (\<lambda>n. txid C (txdata b ! n) = txid C t) [0..<length (txdata b)] = Some tix"
  shows "newly_confirmed C b d = Ok [(tix, pk, i, Some a, term)]"
  using assms by (simp add: newly_confirmed_def map_filter_def)

lemma funded_unconfirmed:
  assumes "crates_ok C" and "tx_codec_ok C" and "valid_str str" and "read_unconfirmed C (sdb s) = Ok []"
    and "store_prepare C cat abstr str s = Ok (i, s1)"
    and "store_fund C W rnd fuel T i term amount fee pass s1 = Some (Ok (t, pk, f), s2)"
  shows "i = ad_digest C (ad_new C cat abstr str)"
    and "read_unconfirmed C (sdb s2) = Ok [(t, Some (pk, i, term))]"
    and "read_publication C i (sdb s2) = Some (ad_new C cat abstr str)"
proof -
  let ?a = "ad_new C cat abstr str"
  obtain d1 where p: "prepare_publication C ?a (sdb s) = Ok (ad_digest C ?a, d1)"
    "read_publication C (ad_digest C ?a) d1 = Some ?a"
    using prepared_read_back [OF assms(1,3)] by blast
  have un1: "read_unconfirmed C d1 = Ok []"
    using p(1) assms(4) by (auto simp: prepare_publication_def read_unconfirmed_def Let_def)
  have i: "i = ad_digest C ?a" and s1: "s1 = s\<lparr>sdb := d1\<rparr>"
    using p(1) assms(5) by (auto simp: store_prepare_def)
  obtain m d2 where acc: "store_account W m (1, 0) d1 = Some d2"
    and s2: "sdb s2 = store_txout C t (Some (pk, i, term)) d2"
    by (rule store_fund_OkE [OF assms(6)]) (auto simp: s1)
  have len: "length i = DIGEST_LEN" using length_ad_digest [OF assms(1), of ?a] by (simp add: i)
  obtain vs where "read_unconfirmed C (sdb s2) = Ok (vs @ [(t, Some (pk, i, term))])" "set vs \<subseteq> {}"
    using store_txout_unconfirmed [OF assms(1,2), of d2 "[]" "Some (pk, i, term)" t] len un1
    by (auto simp: read_unconfirmed_account [OF acc] s2)
  then show "read_unconfirmed C (sdb s2) = Ok [(t, Some (pk, i, term))]" by simp
  show "i = ad_digest C ?a" by (rule i)
  show "read_publication C i (sdb s2) = Some ?a"
    using p(2) by (simp add: i s2 read_publication_def publication_tbl_store_account [OF acc])
qed

text \<open>Content with the text of an ad that was written here is read back as it was admitted.\<close>

lemma admitted_read:
  assumes "crates_ok C" and "store_ok C s" and "valid_str str" and "ad c = ad_new C cat abstr str"
    and "funded C T c n hdr out" and "ad_fits C (ad c)"
    and "\<lparr>digest = ad_digest C (ad c)\<rparr> \<notin> set (content_keys C (sdb s))"
  shows "\<exists>s'. add_content C T c s = Ok (True, s') \<and> store_ok C s'
    \<and> get_content C (ad_digest C (ad c)) s' = Ok (Some c)"
proof -
  have str: "text_as_string (texts C) (ad_content (ad c)) = Ok (Inr str)"
    using text_as_string_new [OF crates_okD(1) [OF assms(1)] assms(3)] by (simp add: assms(4) ad_new_def)
  obtain s' where s': "add_content C T c s = Ok (True, s')" "store_ok C s'"
    "content_tbl (sdb s') = content_tbl (sdb s) @ [content_row_of C n (header_hash C hdr) c (out_value out) str]"
    using admit_new [OF assms(1,2,5,6) str assms(7)] by auto
  have "content_tbl (sdb s') = upsert row_id
      (content_row_of C n (header_hash C hdr) c (out_value out) str) (content_tbl (sdb s))"
    unfolding s'(3) using assms(2)
    by (intro upsert_new [symmetric] content_row_of_new [OF assms(1) _ assms(7)]) (simp add: store_ok_def)
  then have "get_content C (ad_digest C (ad c)) s' = Ok (Some c)"
    using read_content_upsert [OF assms(1), where d = "sdb s'" and c = c and height = n
        and block_id = "header_hash C hdr" and amount = "out_value out" and s = str and tbl = "content_tbl (sdb s)"]
    by (cases c) (use assms(4) in \<open>simp add: get_content_def read_content_def ad_new_def\<close>)
  with s' show ?thesis by blast
qed

text \<open>
  C1. The life of an ad. Let an ad the store does not have be prepared, and funded for a term of at
  most \<open>MAX_TERM\<close> while nothing else of ours is unconfirmed, and let the next block that arrives
  have the funding transaction, up to its witnesses, be on the trunk and not be deeper than the
  term. Then connecting the block succeeds, and the ad is content of the store under the identifier
  its preparation returned, with the proof of the block, the funder and the term, and the caches
  follow. That the transaction pays to the commitment that is looked for is a consequence of how
  the wallet builds it, not an assumption. (The crates keep their contracts, the proof is of the
  merkle root of the block, the wallet can store its coins, and the ad is shorter than 4 GB.)
\<close>

theorem publication_lifecycle:
  assumes "crates_ok C" and "tx_codec_ok C" and "signing_ok W" and "script_key_ok C W" and "proof_new_ok C"
    and "store_ok C s" and "valid_str str" and "read_unconfirmed C (sdb s) = Ok []"
    and "\<lparr>digest = ad_digest C (ad_new C cat abstr str)\<rparr> \<notin> set (content_keys C (sdb s))"
    and "ad_fits C (ad_new C cat abstr str)"
    and "store_prepare C cat abstr str s = Ok (i, s1)" and "term \<le> MAX_TERM"
    and "store_fund C W rnd fuel T i term amount fee pass s1 = Some (Ok (t, pk, f), s2)"
    and "find (\<lambda>n. txid C (txdata b ! n) = txid C t) [0..<length (txdata b)] = Some tix"
    and "strip_witness (txdata b ! tix) = strip_witness t"
    and "proof_merkle_root C (proof_new C b tix) = merkle_root (header b)"
    and "get_header T' (header_hash C (header b)) = Some (header b)"
    and "get_height T' (header_hash C (header b)) = Some n" and "trunk_len T' \<le> n + ucast term"
    and "wallet_process W b (swallet s2) = (changed, w)"
    and "(if changed then store_coins C W (coins w) (sdb s2) else Ok (sdb s2)) = Ok d"
  shows "\<exists>s3. block_connected C W T' b height s2 = Ok s3 \<and> store_ok C s3
    \<and> i = ad_digest C (ad_new C cat abstr str)
    \<and> get_content C i s3 = Ok (Some \<lparr>ad = ad_new C cat abstr str, funding = proof_new C b tix,
         funder = pk, content_term = term\<rparr>)"
proof -
  define c where "c = \<lparr>ad = ad_new C cat abstr str, funding = proof_new C b tix, funder = pk, content_term = term\<rparr>"
  note fu = funded_unconfirmed [OF assms(1,2,7,8,11,13)]
  have tix: "tix < length (txdata b)" using assms(14) by (auto simp: find_Some_iff)
  obtain out where out: "funded C T' c n (header b) out"
    using confirmed_funded [OF assms(3-5,12) assms(13) [unfolded fu(1)] tix assms(15-19)] by (auto simp: c_def)
  have conf: "newly_confirmed C b (sdb s2) = Ok [(tix, pk, i, Some (ad_new C cat abstr str), term)]"
    by (rule newly_confirmed_single [OF fu(2,3) assms(14)])
  note sc = store_prepare_content [OF assms(11)] store_fund_content [OF assms(13)]
  have ok2: "store_ok C s2" using same_contentD(1) [OF sc(1)] same_contentD(1) [OF sc(2)] assms(6) by blast
  have same: "content_keys C (sdb s2) = content_keys C (sdb s)"
    using sc by (simp add: same_content_def content_keys_def)
  have tbl: "content_tbl d = content_tbl (sdb s2)"
    using assms(21) by (auto simp: content_tbl_store_coins split: if_splits)
  define s3 where "s3 = s2\<lparr>swallet := w, sdb := store_processed C (header_hash C (header b)) d\<rparr>"
  have ok3: "store_ok C s3" unfolding s3_def by (rule store_ok_block [OF ok2 tbl])
  have fresh: "\<lparr>digest = ad_digest C (ad c)\<rparr> \<notin> set (content_keys C (sdb s3))"
    using assms(9) by (simp add: c_def s3_def content_keys_def store_processed_def tbl same [unfolded content_keys_def])
  have "ad c = ad_new C cat abstr str" "ad_fits C (ad c)" using assms(10) by (simp_all add: c_def)
  from admitted_read [OF assms(1) ok3 assms(7) this(1) out this(2) fresh] obtain s4 where
    s4: "add_content C T' c s3 = Ok (True, s4)" "store_ok C s4" "get_content C (ad_digest C (ad c)) s4 = Ok (Some c)"
    by blast
  have "block_connected C W T' b height s2 = Ok s4"
    using conf s4(1) assms(20,21) by (simp add: block_connected_def s3_def c_def Let_def)
  then show ?thesis using s4(2,3) fu(1) by (auto simp: c_def)
qed

end
