(* ===== verification/Api.thy ===== *)
theory Api
  imports Publication
begin

text \<open>
  The JSON-RPC interface, \<^verbatim>\<open>src/api.rs\<close>: the check of the key, the arguments of every method and
  its call into the store. The values of \<^verbatim>\<open>serde_json\<close> are a datatype with its constructors. A
  Rust string is a list of Unicode scalars here and its UTF-8 text where the model of the
  store and of the crates has a \<open>string\<close>.
\<close>

section \<open>JSON\<close>

datatype json_number = PosInt u64 | NegInt int | Float rat

datatype json =
    Null
  | Bool bool
  | Number json_number
  | String rstring
  | Array "json list"
  | Object "(string \<times> json) list"

datatype params = Params_None | Params_Array "json list" | Params_Map "(string \<times> json) list"

fun as_u64 :: "json_number \<Rightarrow> u64 option" where
  "as_u64 (PosInt n) = Some n"
| "as_u64 _ = None"

definition utf8_string :: "rstring \<Rightarrow> string" where
  "utf8_string s = map (\<lambda>w. char_of (unat w)) (str_as_bytes s)"

definition ascii_str :: "string \<Rightarrow> rstring" where
  "ascii_str s = map of_char s"

datatype api_error = Invalid_params string | Internal_error | Method_not_found

text \<open>
  Text forms of the crates: reading an address gives its script, writing one goes back from
  the script; \<open>foreign_text\<close> is the text of a foreign error.
\<close>

record api_crate =
  address_from_str :: "string \<Rightarrow> bytes option"
  address_text :: "bytes \<Rightarrow> string"
  foreign_text :: "error \<Rightarrow> string"

text \<open>\<^verbatim>\<open>Display\<close> of \<^verbatim>\<open>src/error.rs\<close>.\<close>

fun error_text :: "api_crate \<Rightarrow> error \<Rightarrow> string" where
  "error_text A (Unsupported s) = ''Unsupported: '' @ s"
| "error_text A e = foreign_text A e"

text \<open>
  \<^verbatim>\<open>description\<close> and \<^verbatim>\<open>source\<close>: every error but the first has an underlying one, whose description it has.
\<close>

fun error_description :: "(error \<Rightarrow> string) \<Rightarrow> error \<Rightarrow> string" where
  "error_description foreign (Unsupported s) = s"
| "error_description foreign e = foreign e"

fun error_source :: "error \<Rightarrow> error option" where
  "error_source (Unsupported _) = None"
| "error_source e = Some e"

text \<open>The conversions of foreign errors: four kinds of malformed input become the same error.\<close>

datatype foreign_error =
    From_wallet string | From_io io_error | From_sql sql_error | From_addr_parse | From_cbor | From_hashes | From_hex
  | From_script string

fun error_from :: "foreign_error \<Rightarrow> error" where
  "error_from (From_wallet e) = Wallet e"
| "error_from (From_io e) = IO e"
| "error_from (From_sql e) = DB e"
| "error_from From_addr_parse = IO InvalidInput"
| "error_from From_cbor = IO InvalidInput"
| "error_from From_hashes = IO InvalidInput"
| "error_from From_hex = IO InvalidInput"
| "error_from (From_script e) = Script e"

section \<open>Arguments\<close>

fun all_strings :: "json list \<Rightarrow> rstring list option" where
  "all_strings [] = Some []"
| "all_strings (String s # vs) = map_option (\<lambda>ss. s # ss) (all_strings vs)"
| "all_strings (_ # vs) = None"

definition parse_arguments :: "params \<Rightarrow> rstring \<Rightarrow> api_error + rstring list" where
  "parse_arguments p api_key =
     (case p of
        Params_Array vs \<Rightarrow>
          (case all_strings vs of
             None \<Rightarrow> Inl (Invalid_params ''expecting strings'')
           | Some [] \<Rightarrow> Inl (Invalid_params ''missing api key'')
           | Some (k # args) \<Rightarrow>
               if k \<noteq> api_key then Inl (Invalid_params ''invalid api key'') else Inr args)
      | _ \<Rightarrow> Inl (Invalid_params ''expecting an array of strings''))"

definition parse_wallet_arguments :: "params \<Rightarrow> rstring \<Rightarrow> api_error + rstring \<times> json list" where
  "parse_wallet_arguments p api_key =
     (case p of
        Params_Array vs \<Rightarrow>
          (case vs of
             k # pass # args \<Rightarrow>
               (case k of
                  String s \<Rightarrow>
                    if s \<noteq> api_key then Inl (Invalid_params ''invalid api key'')
                    else (case pass of
                            String q \<Rightarrow> Inr (q, args)
                          | _ \<Rightarrow> Inl (Invalid_params ''invalid passpharse''))
                | _ \<Rightarrow> Inl (Invalid_params ''invalid api key''))
           | _ \<Rightarrow> Inl (Invalid_params ''missing api key and wallet passphrase''))
      | _ \<Rightarrow> Inl (Invalid_params ''expecting an array of strings''))"

text \<open>A number argument that has to be an unsigned integer.\<close>

fun number_argument :: "string \<Rightarrow> json \<Rightarrow> api_error + u64" where
  "number_argument name (Number n) =
     (case as_u64 n of Some v \<Rightarrow> Inr v | None \<Rightarrow> Inl (Invalid_params (''malformed '' @ name)))"
| "number_argument name _ = Inl (Invalid_params (''malformed '' @ name))"

record withdraw_request =
  wr_target :: bytes
  wr_fee :: u64
  wr_amount :: "u64 option"

definition withdraw_arguments :: "api_crate \<Rightarrow> json list \<Rightarrow> api_error + withdraw_request" where
  "withdraw_arguments A args =
     (case args of
        a # fee # rest \<Rightarrow>
          (case (case a of String s \<Rightarrow> address_from_str A (utf8_string s) | _ \<Rightarrow> None) of
             None \<Rightarrow> Inl (Invalid_params ''malformed address'')
           | Some target \<Rightarrow>
               (case number_argument ''fee'' fee of
                  Inl e \<Rightarrow> Inl e
                | Inr sats \<Rightarrow>
                    Inr \<lparr>wr_target = target, wr_fee = min sats 100,
                         wr_amount = (case rest of Number n # _ \<Rightarrow> as_u64 n | _ \<Rightarrow> None)\<rparr>))
      | _ \<Rightarrow> Inl (Invalid_params ''missing target address and fee per byte''))"

record fund_request =
  fr_id :: hash
  fr_amount :: u64
  fr_term :: u16
  fr_fee :: u64

definition fund_arguments :: "('p, 'k) crates \<Rightarrow> json list \<Rightarrow> api_error + fund_request" where
  "fund_arguments C args =
     (case args of
        i # amount # term # fee # _ \<Rightarrow>
          (case (case i of String s \<Rightarrow> sha256_from_hex C (utf8_string s) | _ \<Rightarrow> None) of
             None \<Rightarrow> Inl (Invalid_params ''malformed publication id'')
           | Some ident \<Rightarrow>
               (case number_argument ''amount'' amount of
                  Inl e \<Rightarrow> Inl e
                | Inr a \<Rightarrow>
                    (case number_argument ''term'' term of
                       Inl e \<Rightarrow> Inl e
                     | Inr t \<Rightarrow>
                         (case number_argument ''fee'' fee of
                            Inl e \<Rightarrow> Inl e
                          | Inr sats \<Rightarrow>
                              Inr \<lparr>fr_id = ident, fr_amount = a, fr_term = ucast t, fr_fee = min sats 100\<rparr>))))
      | _ \<Rightarrow> Inl (Invalid_params ''missing publication, amount, term and fee per byte''))"

section \<open>Methods\<close>

type_synonym 's reply = "(api_error + json) outcome \<times> 's"

definition api_text :: "string \<Rightarrow> json" where
  "api_text s = String (ascii_str s)"

definition readable_json :: "readable \<Rightarrow> json" where
  "readable_json r = Object
     [(''id'', api_text (rd_id r)), (''cat'', String (rd_cat r)), (''abs'', String (rd_abs r)),
      (''text'', String (rd_text r)), (''start'', Number (PosInt (rd_start r))),
      (''end'', Number (PosInt (rd_end r))), (''publisher'', api_text (rd_publisher r)),
      (''height'', Number (PosInt (ucast (rd_height r)))), (''term'', Number (PosInt (ucast (rd_term r)))),
      (''length'', Number (PosInt (ucast (rd_length r)))), (''weight'', Number (PosInt (ucast (rd_weight r))))]"

text \<open>A result of the store: an error of the store is an internal error.\<close>

fun store_result :: "('a \<Rightarrow> json) \<Rightarrow> 'a outcome \<Rightarrow> (api_error + json) outcome" where
  "store_result f (Ok v) = Ok (Inr (f v))"
| "store_result f (Err e) = Ok (Inl Internal_error)"
| "store_result f (Panic p) = Panic p"

text \<open>The methods that take strings, by name.\<close>

definition api_plain ::
  "api_crate \<Rightarrow> ('p, 'k) crates \<Rightarrow> ('p, 'k, 'c, 'm, 'u) wallet_crates \<Rightarrow> trunk \<Rightarrow> string \<Rightarrow> rstring list
   \<Rightarrow> ('c, 'm) store \<Rightarrow> ('c, 'm) store reply" where
  "api_plain A C W T name args s =
     (if name = ''categories'' then
        (Ok (Inr (Array (map String (store_list_categories s)))), s)
      else if name = ''list'' then
        (Ok (Inr (Array (map (\<lambda>(i, cat, abstr). Array [api_text i, String cat, String abstr])
                           (store_list_abstracts args s)))), s)
      else if name = ''read'' then
        (store_result (\<lambda>rs. Array (map readable_json rs)) (read_contents C T (map utf8_string args) s), s)
      else if name = ''balance'' then
        (Ok (Inr (Array (map (\<lambda>n. Number (PosInt n)) (store_balance W T s)))), s)
      else if name = ''deposit'' then
        (case deposit_address W s of
           Ok (a, s') \<Rightarrow> (Ok (Inr (api_text (address_text A a))), s')
         | Err e \<Rightarrow> (Err e, s)
         | Panic p \<Rightarrow> (Panic p, s))
      else if name = ''prepare'' then
        (case args of
           cat # abstr # str # _ \<Rightarrow>
             (case store_prepare C cat abstr str s of
                Ok (i, s') \<Rightarrow> (Ok (Inr (api_text (sha256_to_hex C i))), s')
              | Err e \<Rightarrow> (Err e, s)
              | Panic p \<Rightarrow> (Panic p, s))
         | _ \<Rightarrow> (Ok (Inl (Invalid_params ''expect: category, abstract, content'')), s))
      else if name = ''list_prepared'' then
        (store_result (\<lambda>hs. Array (map (\<lambda>h. api_text (sha256_to_hex C h)) hs)) (list_prepared C s), s)
      else if name = ''read_prepared'' then
        (case args of
           [] \<Rightarrow> (Ok (Inl (Invalid_params ''expect: prepared publication id'')), s)
         | a # _ \<Rightarrow>
             (case sha256_from_hex C (utf8_string a) of
                None \<Rightarrow> (Ok (Inl (Invalid_params ''expect: prepared publication id'')), s)
              | Some i \<Rightarrow>
                  (case read_prepared C i s of
                     None \<Rightarrow> (Ok (Inl (Invalid_params ''unkonwn publication'')), s)
                   | Some x \<Rightarrow>
                       (case text_as_string (texts C) (ad_content x) of
                          Ok (Inr str) \<Rightarrow> (Ok (Inr (Array [String (ad_cat x), String (ad_abs x), String str])), s)
                        | Ok (Inl _) \<Rightarrow> (Panic Unwrap_failed, s)
                        | Err e \<Rightarrow> (Err e, s)
                        | Panic p \<Rightarrow> (Panic p, s)))))
      else (Ok (Inl Method_not_found), s))"

text \<open>The outcome of a payment: its transaction id, or the text of the error.\<close>

fun payment_result :: "api_crate \<Rightarrow> ('p, 'k) crates \<Rightarrow> transaction outcome \<Rightarrow> (api_error + json) outcome" where
  "payment_result A C (Ok t) = Ok (Inr (api_text (sha256d_to_hex C (txid C t))))"
| "payment_result A C (Err e) = Ok (Inl (Invalid_params (error_text A e)))"
| "payment_result A C (Panic p) = Panic p"

definition api_withdraw ::
  "api_crate \<Rightarrow> ('p, 'k) crates \<Rightarrow> ('p, 'k, 'c, 'm, 'u) wallet_crates \<Rightarrow> trunk \<Rightarrow> (nat \<Rightarrow> u32) \<Rightarrow> nat \<Rightarrow> rstring \<Rightarrow> json list
   \<Rightarrow> ('c, 'm) store \<Rightarrow> ('c, 'm) store reply option" where
  "api_withdraw A C W T rnd fuel pass args s =
     (case withdraw_arguments A args of
        Inl e \<Rightarrow> Some (Ok (Inl e), s)
      | Inr w \<Rightarrow>
          map_option (\<lambda>(r, s'). (payment_result A C (obind r (\<lambda>(t, _). Ok t)), s'))
            (store_withdraw C W rnd fuel T (utf8_string pass) (wr_target w) (wr_fee w) (wr_amount w) s))"

definition api_fund ::
  "api_crate \<Rightarrow> ('p, 'k) crates \<Rightarrow> ('p, 'k, 'c, 'm, 'u) wallet_crates \<Rightarrow> trunk \<Rightarrow> (nat \<Rightarrow> u32) \<Rightarrow> nat \<Rightarrow> rstring \<Rightarrow> json list
   \<Rightarrow> ('c, 'm) store \<Rightarrow> ('c, 'm) store reply option" where
  "api_fund A C W T rnd fuel pass args s =
     (case fund_arguments C args of
        Inl e \<Rightarrow> Some (Ok (Inl e), s)
      | Inr w \<Rightarrow>
          map_option (\<lambda>(r, s'). (payment_result A C (obind r (\<lambda>(t, _, _). Ok t)), s'))
            (store_fund C W rnd fuel T (fr_id w) (fr_term w) (fr_amount w) (fr_fee w) (utf8_string pass) s))"

definition api_methods :: "string list" where
  "api_methods = [''categories'', ''list'', ''read'', ''balance'', ''deposit'', ''prepare'', ''list_prepared'',
     ''read_prepared'', ''withdraw'', ''fund'']"

text \<open>A request: every method checks the key first; \<open>None\<close> is a payment that does not end.\<close>

definition api_call ::
  "api_crate \<Rightarrow> ('p, 'k) crates \<Rightarrow> ('p, 'k, 'c, 'm, 'u) wallet_crates \<Rightarrow> trunk \<Rightarrow> (nat \<Rightarrow> u32) \<Rightarrow> nat \<Rightarrow> rstring \<Rightarrow> string
   \<Rightarrow> params \<Rightarrow> ('c, 'm) store \<Rightarrow> ('c, 'm) store reply option" where
  "api_call A C W T rnd fuel api_key name p s =
     (if name \<notin> set api_methods then Some (Ok (Inl Method_not_found), s)
      else if name = ''withdraw'' \<or> name = ''fund'' then
        (case parse_wallet_arguments p api_key of
           Inl e \<Rightarrow> Some (Ok (Inl e), s)
         | Inr (pass, args) \<Rightarrow>
             if name = ''withdraw'' then api_withdraw A C W T rnd fuel pass args s
             else api_fund A C W T rnd fuel pass args s)
      else (case parse_arguments p api_key of
              Inl e \<Rightarrow> Some (Ok (Inl e), s)
            | Inr args \<Rightarrow> Some (api_plain A C W T name args s)))"

section \<open>Access\<close>

lemma all_strings_Cons: "all_strings (v # vs) = Some ss \<Longrightarrow> \<exists>t ts. v = String t \<and> ss = t # ts \<and> all_strings vs = Some ts"
  by (cases v) auto

lemma parse_arguments_key:
  assumes "parse_arguments p api_key = Inr args"
  shows "\<exists>vs. p = Params_Array (String api_key # vs) \<and> all_strings vs = Some args"
proof -
  obtain vs where p: "p = Params_Array vs" and "all_strings vs = Some (api_key # args)"
    using assms by (auto simp: parse_arguments_def split: params.splits option.splits list.splits if_splits)
  then show ?thesis by (cases vs) (auto dest: all_strings_Cons)
qed

lemma parse_wallet_arguments_key:
  assumes "parse_wallet_arguments p api_key = Inr (pass, args)"
  shows "p = Params_Array (String api_key # String pass # args)"
  using assms by (auto simp: parse_wallet_arguments_def split: params.splits list.splits json.splits if_splits)

text \<open>
  C13. Without the key nothing happens: a request whose first argument is not the key is answered with
  an error, whatever the method and the other arguments are, and the store is unchanged.
\<close>

theorem api_requires_key:
  assumes "\<nexists>vs. p = Params_Array (String api_key # vs)"
  shows "\<exists>e. api_call A C W T rnd fuel api_key name p s = Some (Ok (Inl e), s)"
  using assms parse_arguments_key [of p api_key] parse_wallet_arguments_key [of p api_key]
  by (cases "parse_arguments p api_key"; cases "parse_wallet_arguments p api_key")
    (force simp: api_call_def)+

section \<open>Requests are steps of the store\<close>

lemma api_plain_step:
  assumes "api_plain A C W T name args s = (r, s')"
  shows "s' = s \<or> store_step C W s s'"
  using assms
  by (auto simp: api_plain_def intro: step_deposit step_prepare split: if_splits outcome.splits list.splits
      option.splits sum.splits)

lemma api_payment_step:
  "api_withdraw A C W T rnd fuel pass args s = Some (r, s') \<Longrightarrow> s' = s \<or> store_step C W s s'"
  "api_fund A C W T rnd fuel pass args s = Some (r, s') \<Longrightarrow> s' = s \<or> store_step C W s s'"
  by (auto simp: api_withdraw_def api_fund_def intro: step_withdraw step_fund split: sum.splits)

text \<open>
  The interface refines the state machine of the store: a request leaves the store as it is
  or takes one of its steps, so that every invariant of the steps holds whatever clients ask.
\<close>

lemma api_call_step:
  assumes "api_call A C W T rnd fuel api_key name p s = Some (r, s')"
  shows "s' = s \<or> store_step C W s s'"
  using assms api_plain_step api_payment_step
  by (fastforce simp: api_call_def split: if_splits sum.splits prod.splits)

text \<open>
  An amount that is not an unsigned number is not refused but ignored: a withdrawal that names
  its amount as text, or as a negative or fractional number, is the withdrawal of everything.
\<close>

lemma malformed_amount_withdraws_all:
  assumes "\<forall>n. v \<noteq> Number (PosInt n)"
  shows "api_call A C W T rnd fuel api_key ''withdraw'' (Params_Array [String api_key, pass, target, fee, v]) s
       = api_call A C W T rnd fuel api_key ''withdraw'' (Params_Array [String api_key, pass, target, fee]) s"
proof -
  have "withdraw_arguments A [target, fee, v] = withdraw_arguments A [target, fee]"
  proof (cases v)
    case (Number n)
    then have "as_u64 n = None" using assms by (cases n) auto
    then show ?thesis by (simp add: withdraw_arguments_def Number split: option.split sum.split)
  qed (simp_all add: withdraw_arguments_def split: option.split sum.split)
  then show ?thesis
    by (cases pass) (simp_all add: api_call_def parse_wallet_arguments_def api_withdraw_def)
qed

section \<open>Preparing and reading an ad\<close>

lemma ascii_round: "\<forall>c \<in> set s. of_char c < (128 :: nat) \<Longrightarrow> utf8_string (ascii_str s) = s"
proof (induction s)
  case (Cons c s)
  then have "str_as_bytes (ascii_str (c # s)) = of_nat (of_char c) # str_as_bytes (ascii_str s)"
    by (simp add: str_as_bytes_def ascii_str_def utf8_char_def)
  moreover have "unat (of_nat (of_char c :: nat) :: u8) = of_char c"
    using Cons.prems by (simp add: unat_of_nat)
  ultimately show ?case using Cons by (simp add: utf8_string_def)
qed (simp add: utf8_string_def ascii_str_def str_as_bytes_def)

text \<open>
  C30. What a client prepares it can read: the answer to \<^verbatim>\<open>prepare\<close> is an identifier with which
  \<^verbatim>\<open>read_prepared\<close> returns category, abstract and text as they were given. (Hexadecimal text is
  ASCII.)
\<close>

theorem api_prepare_read:
  assumes "crates_ok C" and "valid_str str" and "\<forall>h. \<forall>c \<in> set (sha256_to_hex C h). of_char c < (128 :: nat)"
  shows "\<exists>i s'. api_call A C W T rnd fuel api_key ''prepare''
        (Params_Array [String api_key, String cat, String abstr, String str]) s = Some (Ok (Inr (String i)), s')
    \<and> api_call A C W T rnd fuel api_key ''read_prepared'' (Params_Array [String api_key, String i]) s'
        = Some (Ok (Inr (Array [String cat, String abstr, String str])), s')"
proof -
  let ?a = "ad_new C cat abstr str"
  obtain d where d: "prepare_publication C ?a (sdb s) = Ok (ad_digest C ?a, d)"
    "read_publication C (ad_digest C ?a) d = Some ?a"
    using prepared_read_back [OF assms(1,2)] by blast
  have "text_as_string (texts C) (ad_content ?a) = Ok (Inr str)"
    using text_as_string_new [OF crates_okD(1) [OF assms(1)] assms(2)] by (simp add: ad_new_def)
  moreover have "sha256_from_hex C (utf8_string (ascii_str (sha256_to_hex C (ad_digest C ?a)))) = Some (ad_digest C ?a)"
    using assms(3) crates_okD(3) [OF assms(1)] length_ad_digest [OF assms(1)] by (simp add: ascii_round)
  ultimately show ?thesis
    using d by (simp add: api_call_def api_methods_def parse_arguments_def api_plain_def store_prepare_def
        api_text_def read_prepared_def) (simp add: ad_new_def)
qed

end
