(* ===== verification/Net_Examples.thy ===== *)
theory Net_Examples
  imports Store_Examples Resume Startup Address_Events Discovery Api
begin

text \<open>
  A small world in which the theorems on the network threads, the start of a node and the interface
  apply: a chain of three headers, an address book, and a codec for transactions.
\<close>

section \<open>A chain\<close>

definition chain_crates :: "(unit, unit) crates" where
  "chain_crates = demo_crates\<lparr>header_hash := \<lambda>h. replicate 31 5 @ [ucast (hd_nonce h)]\<rparr>"

lemma chain_crates_ok: "crates_ok chain_crates"
  using demo_crates_ok by (simp add: crates_ok_def chain_crates_def)

definition id_hash :: "u8 \<Rightarrow> hash" where
  "id_hash n = replicate 31 5 @ [n]"

definition chain_header :: "u32 \<Rightarrow> hash \<Rightarrow> u32 \<Rightarrow> block_header" where
  "chain_header n prev t = \<lparr>hd_version = 1, prev_blockhash = prev, merkle_root = replicate 32 2, hd_time = t,
     hd_bits = 0, hd_nonce = n\<rparr>"

text \<open>Genesis, two blocks on it, and a block that replaces the last one.\<close>

definition h0 :: cached_header where
  "h0 = \<lparr>stored_header = chain_header 1 hash_default 10, stored_height = 0\<rparr>"

definition h1 :: cached_header where
  "h1 = \<lparr>stored_header = chain_header 2 (id_hash 1) 100, stored_height = 1\<rparr>"

definition h2 :: cached_header where
  "h2 = \<lparr>stored_header = chain_header 3 (id_hash 2) 200, stored_height = 2\<rparr>"

definition h2' :: cached_header where
  "h2' = \<lparr>stored_header = chain_header 4 (id_hash 2) 210, stored_height = 2\<rparr>"

text \<open>A header cache: the trunk from the tip, and all headers known.\<close>

type_synonym demo_cache = "cached_header list \<times> cached_header list"

definition demo_view :: "demo_cache \<Rightarrow> chaindb" where
  "demo_view d =
     \<lparr>pos_on_trunk = (\<lambda>p. map_option stored_height (find (\<lambda>h. chash chain_crates h = p) (fst d))),
      cdb_get_header = (\<lambda>p. find (\<lambda>h. chash chain_crates h = p) (snd d)),
      cdb_get_header_for_height = (\<lambda>n. find (\<lambda>h. stored_height h = n) (fst d)),
      header_tip = (case fst d of [] \<Rightarrow> None | h # _ \<Rightarrow> Some h)\<rparr>"

text \<open>A header joins the trunk at the tip, or in the place of the tip if it has the same parent.\<close>

definition demo_add_header ::
  "demo_cache \<Rightarrow> block_header \<Rightarrow> (chain_error + (cached_header \<times> hash list option \<times> hash list option) option) \<times> demo_cache" where
  "demo_add_header d h =
     (case fst d of
        [] \<Rightarrow> (Inr None, d)
      | t # ts \<Rightarrow>
          if prev_blockhash h = chash chain_crates t
          then let c = \<lparr>stored_header = h, stored_height = stored_height t + 1\<rparr>
               in (Inr (Some (c, None, Some [chash chain_crates c])), (c # t # ts, c # snd d))
          else let c = \<lparr>stored_header = h, stored_height = stored_height t\<rparr>
               in (Inr (Some (c, Some [chash chain_crates t], Some [chash chain_crates c])), (c # ts, c # snd d)))"

definition demo_chain :: "demo_cache chain_crate" where
  "demo_chain = \<lparr>view = demo_view, chain_add_header = demo_add_header,
     header_locators = (\<lambda>d. map (chash chain_crates) (fst d))\<rparr>"

lemma chain_hash [simp]:
  "header_hash chain_crates (chain_header n p t) = id_hash (ucast n)"
  by (simp add: chain_crates_def chain_header_def id_hash_def)

lemma chain_hex [simp]: "sha256d_to_hex chain_crates = demo_hex"
  by (simp add: chain_crates_def demo_crates_def)

lemma id_hash_eq [simp]: "id_hash a = id_hash b \<longleftrightarrow> a = b" "length (id_hash a) = DIGEST_LEN"
  by (simp_all add: id_hash_def DIGEST_LEN_def)

lemma id_hash_not_default [simp]: "id_hash a \<noteq> hash_default" "hash_default \<noteq> id_hash a"
proof -
  have "hd (id_hash a) = 5" "hd hash_default = 0" by (simp_all add: id_hash_def hash_default_def)
  then show "id_hash a \<noteq> hash_default" "hash_default \<noteq> id_hash a" by auto
qed

lemma chain_header_sel [simp]:
  "prev_blockhash (chain_header n p t) = p" "hd_time (chain_header n p t) = t"
  by (simp_all add: chain_header_def)

lemmas chain_simps = h0_def h1_def h2_def h2'_def demo_view_def demo_chain_def demo_add_header_def

section \<open>Block download\<close>

definition idle :: "nat block_download" where
  "idle = \<lparr>blocks_wanted = [], blocks_asked = [], download_peer = None, birth = 50\<rparr>"

abbreviation all_services :: "nat \<Rightarrow> u64 option" where
  "all_services \<equiv> \<lambda>_. Some 1"

abbreviation not_busy :: "nat \<Rightarrow> bitcoin_reply \<Rightarrow> bool" where
  "not_busy \<equiv> \<lambda>_ _. False"

definition header_acts :: "nat net_action list" where
  "header_acts =
     [Received_reply 0 1 Expect_Headers, Header_connected (stored_header h1) 1, Header_connected (stored_header h2) 2,
      Expect_reply 0 1 Expect_Headers, Send_to 0 (GetHeaders [id_hash 3, id_hash 2, id_hash 1] (id_hash 3)),
      Set_height 2,
      Send_to 0 (GetData [\<lparr>inv_kind = Inv_Block, inv_hash = id_hash 2\<rparr>, \<lparr>inv_kind = Inv_Block, inv_hash = id_hash 3\<rparr>]),
      Expect_reply 0 2 Expect_Block]"

definition busy_state :: "nat block_download" where
  "busy_state = \<lparr>blocks_wanted = [], blocks_asked = [(id_hash 2, 1), (id_hash 3, 2)], download_peer = Some 0, birth = 50\<rparr>"

lemma demo_headers:
  "block_download_message chain_crates demo_chain all_services not_busy
     (Incoming 0 (Headers [stored_header h1, stored_header h2])) (idle, ([h0], [h0]))
   = Ok (busy_state, ([h2, h1, h0], [h2, h1, h0]), header_acts)"
  by (simp add: incoming_message_def is_serving_blocks_def SERVICE_BLOCKS_def download_headers_def
      headers_loop.simps tell_downstream_def chain_simps ask_next_def ask_blocks_def get_headers_def idle_def
      busy_state_def header_acts_def Let_def)

definition block1 :: block where
  "block1 = \<lparr>header = stored_header h1, txdata = []\<rparr>"

lemma demo_block:
  "block_download_message chain_crates demo_chain all_services (\<lambda>_ _. True) (Incoming 0 (Block_msg block1)) (busy_state, d)
   = Ok (busy_state\<lparr>blocks_asked := [(id_hash 3, 2)]\<rparr>, d, [Received_reply 0 1 Expect_Block, Block_connected block1 1])"
  by (simp add: incoming_message_def download_block_def ask_next_def ask_blocks_def busy_state_def block1_def h1_def)

lemma demo_run:
  "download_run chain_crates demo_chain (idle, ([h0], [h0]))
     (header_acts @ [Received_reply 0 1 Expect_Block, Block_connected block1 1])
     (busy_state\<lparr>blocks_asked := [(id_hash 3, 2)]\<rparr>, ([h2, h1, h0], [h2, h1, h0]))"
proof (rule run_message [OF _ demo_block])
  show "download_run chain_crates demo_chain (idle, ([h0], [h0])) header_acts (busy_state, ([h2, h1, h0], [h2, h1, h0]))"
    using run_message [OF run_start demo_headers] by (simp add: retractable_def idle_def)
qed (simp add: retractable_def)

theorem download_refines_queue_witness:
  "pending chain_crates (header_acts @ [Received_reply 0 1 Expect_Block, Block_connected block1 1]) []
     = Some [(id_hash 3, 2)]"
  using download_refines_queue [OF demo_run] by (simp add: idle_def busy_state_def)

theorem blocks_delivered_in_order_witness:
  "filter retraction (header_acts @ [Received_reply 0 1 Expect_Block, Block_connected block1 1]) = []
   \<and> delivered chain_crates (header_acts @ [Received_reply 0 1 Expect_Block, Block_connected block1 1]) @ [(id_hash 3, 2)]
     = announced chain_crates (header_acts @ [Received_reply 0 1 Expect_Block, Block_connected block1 1])"
proof -
  have r: "filter retraction (header_acts @ [Received_reply 0 1 Expect_Block, Block_connected block1 1]) = []"
    by (simp add: header_acts_def)
  with blocks_delivered_in_order [OF demo_run this] show ?thesis by (simp add: idle_def busy_state_def)
qed

text \<open>The last block is replaced after it was asked for.\<close>

definition block2 :: block where
  "block2 = \<lparr>header = stored_header h2, txdata = []\<rparr>"

lemma demo_reorg:
  "\<exists>s' acts. download_headers chain_crates demo_chain not_busy [stored_header h2'] 0
      (busy_state\<lparr>blocks_asked := [(id_hash 3, 2)]\<rparr>, ([h2, h1, h0], [h2, h1, h0]))
    = Ok (s', ([h2', h1, h0], [h2', h2, h1, h0]), acts) \<and> Block_disconnected (header block2) \<in> set acts"
  by (simp add: download_headers_def headers_loop.simps tell_downstream_def chain_simps get_headers_def busy_state_def
      block2_def Let_def)

theorem stale_block_delivered_witness:
  "\<exists>s' d' acts. download_headers chain_crates demo_chain not_busy [stored_header h2'] 0
      (busy_state\<lparr>blocks_asked := [(id_hash 3, 2)]\<rparr>, ([h2, h1, h0], [h2, h1, h0])) = Ok (s', d', acts)
    \<and> Block_disconnected (header block2) \<in> set acts
    \<and> download_block chain_crates block2 0 s' =
        (s'\<lparr>blocks_asked := []\<rparr>, [Received_reply 0 1 Expect_Block, Block_connected block2 2])"
proof -
  obtain s' d' acts where r: "download_headers chain_crates demo_chain not_busy [stored_header h2'] 0
      (busy_state\<lparr>blocks_asked := [(id_hash 3, 2)]\<rparr>, ([h2, h1, h0], [h2, h1, h0])) = Ok (s', d', acts)"
    "Block_disconnected (header block2) \<in> set acts"
    using demo_reorg by blast
  have "download_block chain_crates block2 0 s' =
        (s'\<lparr>blocks_asked := []\<rparr>, [Received_reply 0 1 Expect_Block, Block_connected block2 2])"
    by (rule stale_block_delivered [OF r, where rest = "[]"]) (simp_all add: block2_def h2_def busy_state_def)
  with r show ?thesis by blast
qed

section \<open>Start after a reorganisation\<close>

lemma demo_trunk_headers:
  "trunk_headers chain_crates (demo_view ([h2, h1, h0], [h2, h1, h0])) [h2, h1, h0]"
  "trunk_headers chain_crates (demo_view ([h2', h1, h0], [h2', h2, h1, h0])) [h2', h1, h0]"
  by (auto simp: trunk_headers_def chain_simps)

theorem startup_blocks_wanted_witness:
  "block_download_new chain_crates (demo_view ([h2, h1, h0], [h2, h1, h0])) 4 (Some (id_hash 2)) 50 =
     Some (Ok \<lparr>blocks_wanted = [(id_hash 3, 2)], blocks_asked = [], download_peer = None :: nat option, birth = 50\<rparr>)"
  using startup_blocks_wanted [OF demo_trunk_headers(1), of 50 "Some (id_hash 2)" 4]
  by (simp add: h2_def h1_def blocks_above_def older_def)

definition demo_down :: "((out_point \<times> coin) list, unit) store" where
  "demo_down = demo_open (db_empty\<lparr>processed_tbl := Some (demo_hex (id_hash 3))\<rparr>)"

definition demo_unwound :: "((out_point \<times> coin) list, unit) store" where
  "demo_unwound = demo_open (db_empty\<lparr>processed_tbl := Some (demo_hex (id_hash 2))\<rparr>)"

lemma demo_unwind:
  "driver chain_crates demo_wallet_crates T (Block_disconnected (stored_header h2) :: nat net_action) demo_down = Ok demo_unwound"
  by (simp add: unwind_tip_def delete_confirmed_def delete_ids_def drop_keys_def store_processed_def demo_down_def
      demo_unwound_def demo_open_def db_empty_def content_keys_def Let_def h2_def wallet_unwind_tip_def
      demo_wallet_crates_def demo_wallet_def)

lemma demo_down_processed: "read_processed chain_crates (sdb demo_down) = Ok (Some (id_hash 3))"
  using crates_okD(5) [OF chain_crates_ok, of "id_hash 3"]
  by (simp add: read_processed_def demo_down_def demo_open_def)

theorem restart_after_reorg_witness:
  "bitcoin_start chain_crates demo_wallet_crates demo_trunk (demo_view ([h2', h1, h0], [h2', h2, h1, h0])) 4 50 demo_down
     = Some (Ok (set_tx_sender demo_unwound,
         \<lparr>blocks_wanted = [(id_hash 2, 1), (id_hash 4, 2)], blocks_asked = [], download_peer = None :: nat option, birth = 50\<rparr>))"
proof -
  have "disconnected_while_down (demo_view ([h2', h1, h0], [h2', h2, h1, h0])) (Suc (Suc 2)) (Some (id_hash 3))
      = Some (Ok [stored_header h2])"
    by (simp only: disconnected_while_down_def unwind_loop.simps) (simp add: chain_simps)
  then have "disconnected_while_down (demo_view ([h2', h1, h0], [h2', h2, h1, h0])) 4 (Some (id_hash 3))
      = Some (Ok [stored_header h2])"
    by simp
  moreover have "ofold (\<lambda>h. driver chain_crates demo_wallet_crates demo_trunk (Block_disconnected h :: nat net_action))
      [stored_header h2] demo_down = Ok demo_unwound"
    using demo_unwind by simp
  ultimately show ?thesis
    using restart_after_reorg [OF demo_trunk_headers(2) _ demo_down_processed, of 50 4 "[stored_header h2]"
        demo_wallet_crates demo_trunk demo_unwound]
    by (simp add: h2'_def h1_def h0_def blocks_above_def older_def)
qed

theorem unwind_skips_blocks_witness:
  "driver chain_crates demo_wallet_crates demo_trunk (Block_disconnected (stored_header h2) :: nat net_action) demo_down
     = Ok demo_unwound
   \<and> (\<exists>bd :: nat block_download. bitcoin_start chain_crates demo_wallet_crates demo_trunk
          (demo_view ([h2', h1, h0], [h2', h2, h1, h0])) 4 50 demo_unwound = Some (Ok (set_tx_sender demo_unwound, bd))
        \<and> blocks_wanted bd = [(id_hash 4, 2)] \<and> (id_hash 2, 1) \<notin> set (blocks_wanted bd))"
proof -
  have tr: "trunk_headers chain_crates (demo_view ([h2', h1, h0], [h2', h2, h1, h0])) ([h2'] @ h1 # [h0])"
    using demo_trunk_headers(2) by simp
  from unwind_skips_blocks [OF chain_crates_ok demo_unwind tr, of 50 4 demo_wallet_crates demo_trunk]
  show ?thesis using demo_unwind by (auto simp: h1_def h2_def h2'_def older_def)
qed

text \<open>The node of the first example stops after one block and goes on with the other.\<close>

definition demo_calls :: "(trunk \<times> nat net_action) list" where
  "demo_calls = map (Pair demo_trunk) (header_acts @ [Received_reply 0 1 Expect_Block, Block_connected block1 1])"

lemma demo_calls_snd: "map snd demo_calls = header_acts @ [Received_reply 0 1 Expect_Block, Block_connected block1 1]"
  by (simp add: demo_calls_def header_acts_def)

lemma demo_add_header: "add_header chain_crates n h (demo_open db_empty) = Ok (demo_open db_empty)"
  by (simp add: add_header_def delete_expired_def delete_ids_def drop_keys_def demo_open_def db_empty_def)

definition demo_after :: "((out_point \<times> coin) list, unit) store" where
  "demo_after = demo_open (db_empty\<lparr>processed_tbl := Some (demo_hex (id_hash 2))\<rparr>)"

lemma demo_block_connected:
  "block_connected chain_crates demo_wallet_crates T block1 n (demo_open db_empty) = Ok demo_after"
  by (simp add: block_connected_def newly_confirmed_def read_unconfirmed_def wallet_process_def demo_open_def
      demo_after_def db_empty_def demo_wallet_crates_def demo_wallet_def store_processed_def block1_def h1_def
      content_keys_def List.map_filter_def)

theorem restart_resumes_witness:
  "bitcoin_start chain_crates demo_wallet_crates demo_trunk (demo_view ([h2, h1, h0], [h2, h1, h0])) 4 50 demo_after
     = Some (Ok (set_tx_sender demo_after,
         \<lparr>blocks_wanted = [(id_hash 3, 2)], blocks_asked = [], download_peer = None :: nat option, birth = 50\<rparr>))"
proof -
  have len: "\<forall>h. length (header_hash chain_crates h) = DIGEST_LEN"
    by (simp add: chain_crates_def DIGEST_LEN_def)
  have run: "ofold (\<lambda>(T, a). driver chain_crates demo_wallet_crates T a) demo_calls (demo_open db_empty) = Ok demo_after"
    by (simp add: demo_calls_def header_acts_def demo_add_header demo_block_connected)
  have "view demo_chain ([h2, h1, h0], [h2, h1, h0]) = demo_view ([h2, h1, h0], [h2, h1, h0])"
    by (simp add: demo_chain_def)
  then show ?thesis
    using restart_resumes [OF chain_crates_ok len demo_run [folded demo_calls_snd] _ _ run, of h2 "[h1, h0]" 50
        hash_default 4 demo_wallet_crates demo_trunk] demo_trunk_headers(1)
    by (simp add: demo_calls_snd header_acts_def idle_def busy_state_def blocks_above_def older_def h0_def h1_def h2_def block1_def)
qed

section \<open>Addresses\<close>

definition peer_a :: socket_addr where
  "peer_a = V4 10 0 0 1 21766"

lemma v4_socket: "socket_address (net_address_new (V4 a b c d p)) = Ok (V4 a b c d p)"
  using net_address_roundtrip by (rule conjunct1)

lemma peer_a_socket: "socket_address (net_address_new peer_a) = Ok peer_a"
  unfolding peer_a_def by (rule v4_socket)

definition book :: "u64 \<Rightarrow> u64 \<Rightarrow> u64 \<Rightarrow> db" where
  "book c l b = snd (store_address demo_hash 0 0 1000000 ''defiads'' peer_a c l b db_empty)"

definition book_row :: "u64 \<Rightarrow> u64 \<Rightarrow> u64 \<Rightarrow> address_row" where
  "book_row c l b = \<lparr>adr_network = ''defiads'', adr_slot = address_slot demo_hash (0, 0) ''defiads'' peer_a,
     adr_ip = peer_a, adr_connected = c, adr_last_seen = l, adr_banned = b\<rparr>"

lemma book_eq: "book c l b = db_empty\<lparr>seed_tbl := Some (0, 0), address_tbl := [book_row c l b]\<rparr>"
  by (simp add: book_def store_address_def read_seed_def db_empty_def put_address_def upsert_def book_row_def Let_def)

lemma book_ok: "addresses_ok demo_hash (book c l b)"
  unfolding book_def by (rule store_address_ok [OF addresses_ok_empty]) (simp add: peer_a_def)

lemma address_book_bounded_example:
  "addresses_ok demo_hash (book 7 8 0) \<and> length (filter (\<lambda>r. adr_network r = ''defiads'') (address_tbl (book 7 8 0))) \<le> 10000"
  by (rule address_book_bounded [OF addresses_ok_empty, where xs = "[(''defiads'', peer_a, 7, 8, 0)]"])
    (simp_all add: book_def peer_a_def)

lemma store_address_keeps_example:
  "\<exists>r' \<in> set (address_tbl (snd (store_address demo_hash 1 1 1000000 ''defiads'' peer_a 3 9 0 (book 7 8 0)))).
     adr_connected r' = 7 \<and> adr_last_seen r' = 9"
proof -
  have "book_row 7 8 0 \<in> set (address_tbl (book 7 8 0))" by (simp add: book_eq)
  moreover have "book_row 7 8 0 \<notin> set (address_tbl (snd (store_address demo_hash 1 1 1000000 ''defiads'' peer_a 3 9 0 (book 7 8 0))))"
    by (simp add: store_address_def read_seed_def book_eq put_address_def upsert_def book_row_def address_key_def Let_def)
  ultimately show ?thesis
    using store_address_keeps [OF book_ok, of "book_row 7 8 0" 7 8 0 _ 1 1 1000000 "''defiads''" peer_a 3 9 0]
    by (fastforce simp: book_row_def)
qed

text \<open>
  A banned peer stays away, though a peer tells of it again and another address is stored for the
  other network.
\<close>

definition after_ban :: "(u64 \<times> string \<times> socket_addr \<times> u64 \<times> u64 \<times> u64) list" where
  "after_ban = [(1000001, ''defiads'', peer_a, 0, 1000001, 0), (1000002, ''bitcoin'', V4 10 0 0 2 8333, 5, 5, 0)]"

theorem ban_keeps_away_witness:
  "\<exists>p' d'. pool_disconnected demo_hash 0 0 1000000 ''defiads'' (0 :: nat) True ([0 \<mapsto> peer_a], book 7 8 0) = (p', d')
    \<and> get_an_address 1050000 3 ''defiads'' {}
        (fold (\<lambda>(t, n, x, c, l, b) d. snd (store_address demo_hash 0 0 t n x c l b d)) after_ban d') \<noteq> Some peer_a"
proof -
  obtain p' d' where r: "pool_disconnected demo_hash 0 0 1000000 ''defiads'' (0 :: nat) True ([0 \<mapsto> peer_a], book 7 8 0) = (p', d')"
    by (rule prod.exhaust)
  have "get_an_address 1050000 3 ''defiads'' {}
      (fold (\<lambda>(t, n, x, c, l, b) d. snd (store_address demo_hash 0 0 t n x c l b d)) after_ban d') \<noteq> Some peer_a"
    by (rule conjunct1 [OF ban_keeps_away [OF book_ok _ _ _ _ _ r _ refl, where seed = "(0, 0)"]])
      (simp_all add: book_eq book_row_def BAN_TIME_def after_ban_def peer_a_def)
  with r show ?thesis by blast
qed


definition met :: "nat discovery" where
  "met = discovery_new\<lparr>addresses := [0 \<mapsto> peer_a]\<rparr>"

lemma ban_not_effective_example:
  "\<exists>s' d'. discovery_disconnected demo_hash 0 0 1000000 0 True (met, book 7 8 0) = (s', d') \<and> length (address_tbl d') = 2
    \<and> get_an_address 1000000 3 ''defiads'' {} d' = Some peer_a"
proof -
  obtain s' d' where r: "discovery_disconnected demo_hash 0 0 1000000 0 True (met, book 7 8 0) = (s', d')"
    by (rule prod.exhaust)
  have "get_an_address 1000000 3 ''defiads'' {} d' = get_an_address 1000000 3 ''defiads'' {} (book 7 8 0)"
    using ban_not_effective [OF r] by blast
  also have "\<dots> = Some peer_a"
    by (simp add: get_an_address_def eligible_addresses_def book_eq book_row_def BAN_TIME_def Let_def)
  finally show ?thesis
    using r by (auto simp: discovery_disconnected_def met_def store_address_def read_seed_def book_eq
        put_address_def upsert_def book_row_def address_key_def Let_def)
qed

text \<open>A single key is always found.\<close>

lemma one_entry_found:
  assumes "iblt_new H K n NH k0 k1 = Ok t0" and "n \<noteq> 0" and "mset [e] = mset (found @ rest)"
    and "\<forall>b < unat n. length (entries_at K t0 b rest) \<noteq> 1"
  shows "rest = [] \<and> found = [e]"
proof -
  have ok: "iblt_ok t0" "length (buckets t0) = unat n" "iblt_ksequence t0 \<noteq> []"
    using iblt_new_ok [OF assms(1,2)] by (simp_all add: NH_def)
  then obtain b where b: "b \<in> set (key_indices K t0 (fst e))" "b < unat n"
    using key_indices_nonempty [of t0 K "fst e"] set_key_indices_bound [OF ok(1), of K "fst e"]
    by (cases "key_indices K t0 (fst e)") auto
  have "length (found @ rest) = 1" using assms(3) by (metis length_Cons list.size(3) mset_eq_length One_nat_def)
  moreover have "rest = []"
  proof (rule ccontr)
    assume "rest \<noteq> []"
    then have "rest = [e]" using \<open>length (found @ rest) = 1\<close> assms(3) by (cases rest; cases found) auto
    with assms(4) b show False by auto
  qed
  ultimately show ?thesis using assms(3) by (cases found) auto
qed


text \<open>A node with an empty book receives the table of a node that knows one address, and stores it.\<close>

theorem addresses_learned_witness:
  "\<exists>u t s' d'. compute_address_iblt demo_hash 1000000 100 db_empty = Ok u
    \<and> compute_address_iblt demo_hash 1000000 100 (book 999999 999999 0) = Ok t
    \<and> on_address_iblt demo_hash 3 0 0 1000000 0 t (met\<lparr>iblt_sent := [0 \<mapsto> u]\<rparr>, db_empty) =
        Ok (Some (s', d', [Received 0 1 Expect_AddressIBLT :: (nat, unit, unit) action]))
    \<and> (\<exists>r \<in> set (address_tbl d'). adr_network r = ''defiads'' \<and> adr_ip r = peer_a \<and> 1000000 \<le> adr_last_seen r)"
proof -
  let ?K = "net_address_ops demo_hash" and ?e = "(net_address_new peer_a, 1 :: i32)"
  obtain t0 where t0: "iblt_new demo_hash ?K 100 NH K0 K1 = Ok t0"
    by (auto simp: iblt_new_def NH_def K_MAX_def)
  have r: "recent_addresses 1000000 db_empty = []"
    "recent_addresses 1000000 (book 999999 999999 0) = [net_address_new peer_a]"
    by (simp_all add: recent_addresses_def db_empty_def book_eq book_row_def Let_def)
  have wf: "net_address_wf (net_address_new peer_a)" by (rule net_address_new_wf) (simp add: peer_a_def)
  obtain t where t: "compute_address_iblt demo_hash 1000000 100 (book 999999 999999 0) = Ok t"
    using net_address.insert_all_represents [OF iblt_new_ok(1,2) [OF t0], of "[net_address_new peer_a]"] wf
    by (auto simp: compute_address_iblt_def r t0)
  have u: "compute_address_iblt demo_hash 1000000 100 db_empty = Ok t0"
    by (simp add: compute_address_iblt_def r t0 iblt_insert_all_def)
  have diff: "diff_entries (recent_addresses 1000000 (book 999999 999999 0)) (recent_addresses 1000000 db_empty) = [?e]"
    by (simp add: r diff_entries_def)
  have nfp: "no_false_pure ?K t0
      (diff_entries (recent_addresses 1000000 (book 999999 999999 0)) (recent_addresses 1000000 db_empty))"
    by (simp add: diff no_false_pure_one)
  let ?s = "met\<lparr>iblt_sent := [0 \<mapsto> t0]\<rparr>" and ?slot = "address_slot demo_hash (0, 0) ''defiads''"
  have sent: "iblt_sent ?s 0 = Some t0" by simp
  have slot: "?slot = address_slot demo_hash (fst (read_seed 0 0 db_empty)) ''defiads''"
    by (simp add: read_seed_def db_empty_def)
  obtain found rest A d' where
    run: "on_address_iblt demo_hash 3 0 0 1000000 0 t (?s, db_empty) =
        Ok (Some (?s\<lparr>iblt_sent := (iblt_sent ?s)(0 := None)\<rparr>, d', [Received 0 1 Expect_AddressIBLT :: (nat, unit, unit) action]))"
    and m: "mset [?e] = mset (found @ rest)" "\<forall>b < unat (100 :: u32). length (entries_at ?K t0 b rest) \<noteq> 1"
    and A: "A = {a. \<exists>(x, c) \<in> set found. c = 1 \<and> socket_address x = Ok a}"
    and stored: "\<forall>a \<in> A. (\<forall>x \<in> A. ?slot x = ?slot a \<longrightarrow> x = a)
         \<and> (\<forall>r \<in> set (address_tbl db_empty). address_key r = (''defiads'', ?slot a) \<and> adr_ip r \<noteq> a
              \<longrightarrow> 0 < adr_banned r \<or> adr_connected r < 1000000 - OLD_CONNECTION)
         \<longrightarrow> (\<exists>r \<in> set (address_tbl d'). adr_network r = ''defiads'' \<and> adr_ip r = a \<and> 1000000 \<le> adr_last_seen r)"
    using addresses_learned [OF addresses_ok_empty book_ok _ u sent t t0 nfp _ slot, of 3 1000000, where ?'p = unit and ?'k = unit]
    unfolding diff by (auto simp: r)
  have "found = [?e]" using one_entry_found [OF t0 _ m] by simp
  then have "A = {peer_a}" by (simp add: A peer_a_socket)
  with stored have "\<exists>r \<in> set (address_tbl d'). adr_network r = ''defiads'' \<and> adr_ip r = peer_a \<and> 1000000 \<le> adr_last_seen r"
    by (simp add: db_empty_def)
  with u t run show ?thesis by blast
qed

end
