(* ===== verification/Node_Examples.thy ===== *)
theory Node_Examples
  imports Net_Examples
begin

text \<open>
  The same world from the user's side: the first start and a rescan, the publication of an ad from
  its preparation to its delivery, and requests to the interface.
\<close>

section \<open>A codec for transactions\<close>

definition put_nat :: "nat \<Rightarrow> bytes" where
  "put_nat n = replicate n 0 @ [1]"

definition get_nat :: "bytes \<Rightarrow> nat \<times> bytes" where
  "get_nat bs = (length (takeWhile (\<lambda>b. b = 0) bs), tl (dropWhile (\<lambda>b. b = 0) bs))"

lemma get_put_nat [simp]: "get_nat (put_nat n @ r) = (n, r)"
  by (induction n) (auto simp: put_nat_def get_nat_def)

definition put_list :: "('a \<Rightarrow> bytes) \<Rightarrow> 'a list \<Rightarrow> bytes" where
  "put_list p xs = put_nat (length xs) @ concat (map p xs)"

fun get_many :: "(bytes \<Rightarrow> 'a \<times> bytes) \<Rightarrow> nat \<Rightarrow> bytes \<Rightarrow> 'a list \<times> bytes" where
  "get_many g 0 bs = ([], bs)"
| "get_many g (Suc n) bs = (case g bs of (x, r) \<Rightarrow> case get_many g n r of (xs, r') \<Rightarrow> (x # xs, r'))"

definition get_list :: "(bytes \<Rightarrow> 'a \<times> bytes) \<Rightarrow> bytes \<Rightarrow> 'a list \<times> bytes" where
  "get_list g bs = (case get_nat bs of (n, r) \<Rightarrow> get_many g n r)"

lemma get_put_list:
  assumes "\<And>x r. g (p x @ r) = (x, r)"
  shows "get_list g (put_list p xs @ r) = (xs, r)"
proof -
  have "get_many g (length xs) (concat (map p xs) @ r) = (xs, r)"
    by (induction xs) (simp_all add: assms)
  then show ?thesis by (simp add: get_list_def put_list_def)
qed

definition put_word :: "'a::len word \<Rightarrow> bytes" where
  "put_word w = put_nat (unat w)"

definition get_word :: "bytes \<Rightarrow> 'a::len word \<times> bytes" where
  "get_word bs = (case get_nat bs of (n, r) \<Rightarrow> (of_nat n, r))"

lemma get_put_word [simp]: "get_word (put_word w @ r) = (w, r)"
  by (simp add: get_word_def put_word_def)

definition put_in :: "tx_in \<Rightarrow> bytes" where
  "put_in i = put_list put_word (op_txid (previous_output i)) @ put_word (op_vout (previous_output i))
     @ put_list put_word (script_sig i) @ put_word (sequence i) @ put_list (put_list put_word) (tx_witness i)"

definition get_in :: "bytes \<Rightarrow> tx_in \<times> bytes" where
  "get_in bs =
     (case get_list get_word bs of (h, bs) \<Rightarrow> case get_word bs of (v, bs) \<Rightarrow>
      case get_list get_word bs of (sc, bs) \<Rightarrow> case get_word bs of (sq, bs) \<Rightarrow>
      case get_list (get_list get_word) bs of (wit, bs) \<Rightarrow>
        (\<lparr>previous_output = \<lparr>op_txid = h, op_vout = v\<rparr>, script_sig = sc, sequence = sq, tx_witness = wit\<rparr>, bs))"

lemma get_put_in: "get_in (put_in i @ r) = (i, r)"
  by (simp add: get_in_def put_in_def get_put_list)

definition put_out :: "tx_out \<Rightarrow> bytes" where
  "put_out x = put_word (out_value x) @ put_list put_word (script_pubkey x)"

definition get_out :: "bytes \<Rightarrow> tx_out \<times> bytes" where
  "get_out bs = (case get_word bs of (v, bs) \<Rightarrow> case get_list get_word bs of (sc, bs) \<Rightarrow>
     (\<lparr>out_value = v, script_pubkey = sc\<rparr>, bs))"

lemma get_put_out: "get_out (put_out x @ r) = (x, r)"
  by (simp add: get_out_def put_out_def get_put_list)

definition put_tx :: "transaction \<Rightarrow> bytes" where
  "put_tx t = put_word (tx_version t) @ put_word (lock_time t) @ put_list put_in (tx_input t)
     @ put_list put_out (tx_output t)"

definition get_tx :: "bytes \<Rightarrow> transaction" where
  "get_tx bs =
     (case get_word bs of (v, bs) \<Rightarrow> case get_word bs of (l, bs) \<Rightarrow>
      case get_list get_in bs of (is, bs) \<Rightarrow> case get_list get_out bs of (os, bs) \<Rightarrow>
        \<lparr>tx_version = v, lock_time = l, tx_input = is, tx_output = os\<rparr>)"

lemma get_put_tx [simp]: "get_tx (put_tx t) = t"
  using get_put_list [of get_out put_out "tx_output t" "[]"] get_put_out
  by (simp add: get_tx_def put_tx_def get_put_list get_put_in)

section \<open>A ledger and a wallet with keys\<close>

text \<open>
  Proofs that hold the hash and the merkle root of the block and the transaction, and public keys
  that are byte strings to which a tweak is appended.
\<close>

definition put_proof :: "hash \<times> hash \<times> transaction \<Rightarrow> bytes" where
  "put_proof p = (case p of (b, r, t) \<Rightarrow> put_list put_word b @ put_list put_word r @ put_tx t)"

definition get_proof :: "bytes \<Rightarrow> hash \<times> hash \<times> transaction" where
  "get_proof bs = (case get_list get_word bs of (b, bs) \<Rightarrow> case get_list get_word bs of (r, bs) \<Rightarrow> (b, r, get_tx bs))"

lemma get_put_proof [simp]: "get_proof (put_proof p) = p"
  by (simp add: get_proof_def put_proof_def get_put_list split: prod.split)

fun put_op :: "script_op \<Rightarrow> bytes" where
  "put_op (Push_int n) = [2, of_int n, of_int (n div 256)]"
| "put_op Op_csv = [0xb2]"
| "put_op Op_drop = [0x75]"
| "put_op (Push_slice b) = of_nat (length b) # b"
| "put_op Op_checksig = [0xac]"

definition life_crates :: "(hash \<times> hash \<times> transaction, bytes) crates" where
  "life_crates =
     \<lparr>hashing = demo_hash, texts = demo_text_crates,
      sha256 = (\<lambda>d. take 32 (d @ replicate 32 0)),
      sha256_to_hex = demo_hex,
      sha256_from_hex = (\<lambda>s. if length s = 32 then Some (demo_unhex s) else None),
      sha256d_to_hex = demo_hex,
      sha256d_from_hex = (\<lambda>s. if length s = 32 then Some (demo_unhex s) else None),
      cbor_ad = (\<lambda>a. 1 # encoded (ad_content a)), uncbor_ad = (\<lambda>_. None),
      cbor_proof = put_proof, uncbor_proof = (\<lambda>b. Some (get_proof b)),
      proof_new = (\<lambda>b n. (replicate 32 1, merkle_root (header b), txdata b ! n)),
      proof_block_hash = fst, proof_merkle_root = (\<lambda>p. fst (snd p)), proof_transaction = (\<lambda>p. snd (snd p)),
      header_hash = (\<lambda>_. replicate 32 1),
      txid = (\<lambda>t. of_nat (length (tx_input t)) # replicate 31 3),
      serialize_tx = put_tx, deserialize_tx = (\<lambda>b. Some (get_tx b)),
      pk_to_bytes = (\<lambda>k. k), pk_from_slice = Some, pk_to_string = demo_hex,
      tweak_exp_add = (\<lambda>k d. Some (k @ d)),
      build_script = (\<lambda>ops. concat (map put_op ops)), p2wsh_script = (\<lambda>s. 0 # 32 # s)\<rparr>"

lemma life_crates_ok: "crates_ok life_crates" "tx_codec_ok life_crates" "proof_new_ok life_crates"
  using demo_crates_ok by (auto simp: crates_ok_def life_crates_def demo_crates_def tx_codec_ok_def proof_new_ok_def)

text \<open>The commitment account keeps the base key and the script of every key added to it.\<close>

definition life_wallet_crates ::
  "(hash \<times> hash \<times> transaction, bytes, (out_point \<times> coin) list, (bytes \<times> bytes) list, unit) wallet_crates" where
  "life_wallet_crates =
     \<lparr>coins_new = [], confirmed_balance = (\<lambda>_. 10000), unconfirmed_balance = (\<lambda>_. 0),
      coins_available_balance = (\<lambda>_ _ _. 10000), coins_unwind_tip = (\<lambda>c _. c),
      coins_process = (\<lambda>c m _. (False, c, m)), coins_process_unconfirmed = (\<lambda>c m _. (c, m)),
      choose_inputs = (\<lambda>c _ _ _. map (\<lambda>(p, x). (p, x, 0)) c), confirmed_coins = (\<lambda>c. c),
      unconfirmed_coins = (\<lambda>_. []), coin_proofs = (\<lambda>_. []),
      add_confirmed = (\<lambda>c p x _. c @ [(p, x)]), unlocker_new = (\<lambda>_ _. Inr ()), has_account = (\<lambda>_ _. True),
      next_key = (\<lambda>m _. Some ([8], m)),
      add_script_key = (\<lambda>m _ scripter tweak csv. if length m < 2 ^ 32
         then Some (of_nat (length m), m @ [([2], p2wsh_script life_crates (scripter ([2] @ the tweak) csv))]) else None),
      key_script = (\<lambda>m _ kix. if unat kix < length m then Some (snd (m ! unat kix)) else None),
      base_public_key = (\<lambda>m _ kix. if unat kix < length m then Some (fst (m ! unat kix)) else None),
      look_ahead = (\<lambda>m _ _. Some m),
      sign = (\<lambda>_ _ _ tx. Inr (length (tx_input tx), tx)), get_weight = (\<lambda>_. 400),
      account_numbers = (\<lambda>_. []), account_columns = (\<lambda>_ _. Some (0, '''', [])),
      hex_encode = demo_hex, hex_decode = (\<lambda>s. Some (demo_unhex s))\<rparr>"

lemma life_wallet_ok: "signing_ok life_wallet_crates" "script_key_ok life_crates life_wallet_crates"
  by (simp add: signing_ok_def life_wallet_crates_def)
    (auto simp: script_key_ok_def life_wallet_crates_def life_crates_def unat_of_nat split: if_splits)

definition life_wallet :: "((out_point \<times> coin) list, (bytes \<times> bytes) list) wallet" where
  "life_wallet = \<lparr>coins = [demo_coin], master = []\<rparr>"

definition life_store :: "((out_point \<times> coin) list, (bytes \<times> bytes) list) store" where
  "life_store =
     \<lparr>sdb = db_empty, storage_limit = 4, iblts = [],
      smin_sketch = sketch_of (content_key_ops demo_hash) (generate_ksequence demo_hash MIN_SKETCH_SIZE K0 K1) {},
      sksequence = generate_ksequence demo_hash MIN_SKETCH_SIZE K0 K1,
      n_keys = 0, swallet = life_wallet, txout = True, sent = []\<rparr>"

lemma life_store_ok: "store_ok life_crates life_store"
  by (simp add: store_ok_def db_ok_def tables_for_def sketch_for_def content_keys_def life_crates_def life_store_def
      db_empty_def)

lemma life_store_unconfirmed: "read_unconfirmed life_crates (sdb life_store) = Ok []"
  by (simp add: read_unconfirmed_def life_store_def db_empty_def)

abbreviation life_fund ::
  "hash \<Rightarrow> ((out_point \<times> coin) list, (bytes \<times> bytes) list) store
   \<Rightarrow> ((transaction \<times> bytes \<times> u64) outcome \<times> ((out_point \<times> coin) list, (bytes \<times> bytes) list) store) option" where
  "life_fund i s \<equiv> store_fund life_crates life_wallet_crates (\<lambda>_. 0) (Suc (Suc 0)) demo_trunk i 5 2000 1 '''' s"

lemma life_fund_ok:
  assumes "swallet s = life_wallet"
  shows "\<exists>t f s'. life_fund i s = Some (Ok (t, [2], f), s') \<and> length (tx_input t) = 1"
  using assms
  by (simp add: store_fund_def wallet_fund_def commit_to_ad_def store_account_def life_wallet_def life_wallet_crates_def
      spend_def spend_tx_def spend_input_def coin_value_sum_def demo_coin_def spend_outputs_def spend_fee_def
      clamp_fee_def DUST_def MAX_FEE_PER_VBYTE_def MIN_FEE_PER_VBYTE_def Let_def)

section \<open>A cache\<close>

text \<open>A cache of at most \<open>n\<close> entries, the most recently used one first.\<close>

type_synonym list_cache = "nat \<times> (hash \<times> transaction) list"

definition list_lru :: "list_cache lru_crate" where
  "list_lru =
     \<lparr>lru_new = (\<lambda>n. (n, [])),
      lru_get_mut = (\<lambda>(n, xs) h. case map_of xs h of
         None \<Rightarrow> (None, n, xs) | Some t \<Rightarrow> (Some t, n, (h, t) # filter (\<lambda>x. fst x \<noteq> h) xs)),
      lru_insert = (\<lambda>(n, xs) h t. (map_of xs h, n, take n ((h, t) # filter (\<lambda>x. fst x \<noteq> h) xs))),
      lru_contains = (\<lambda>(n, xs) h. map_of xs h \<noteq> None)\<rparr>"

definition list_lru_inv :: "list_cache \<Rightarrow> bool" where
  "list_lru_inv l = (0 < fst l \<and> distinct (map fst (snd l)) \<and> length (snd l) \<le> fst l)"

lemma map_of_filter_other: "map_of (filter (\<lambda>x. fst x \<noteq> h) xs) k = (if k = h then None else map_of xs k)"
  by (induction xs) auto

lemma map_of_take_le:
  assumes "distinct (map fst xs)"
  shows "map_of (take n xs) \<subseteq>\<^sub>m map_of xs"
proof -
  have "map_of (take n xs) x = map_of xs x" if "x \<in> dom (map_of (take n xs))" for x
    using that by (metis append_take_drop_id map_add_dom_app_simps(1) map_of_append)
  then show ?thesis by (simp add: map_le_def)
qed

lemma length_filter_key: "map_of xs h = Some t \<Longrightarrow> length (filter (\<lambda>x. fst x \<noteq> h) xs) < length xs"
  by (rule length_filter_less [of "(h, t)"]) (auto dest: map_of_SomeD)

lemma list_lru_get:
  assumes "list_lru_inv l" and "lru_get_mut list_lru l h = (r, l')"
  shows "r = map_of (snd l) h \<and> list_lru_inv l' \<and> map_of (snd l') = map_of (snd l)"
proof (cases "map_of (snd l) h")
  case (Some t)
  with assms length_filter_key [OF Some] show ?thesis
    by (auto simp: list_lru_def list_lru_inv_def distinct_map_filter map_of_filter_other fun_eq_iff split: prod.splits)
qed (use assms in \<open>auto simp: list_lru_def split: prod.splits\<close>)

lemma list_lru_insert:
  assumes "list_lru_inv l" and "lru_insert list_lru l h t = (r, l')"
  shows "r = map_of (snd l) h \<and> list_lru_inv l' \<and> map_of (snd l') h = Some t
    \<and> map_of (snd l') \<subseteq>\<^sub>m (map_of (snd l))(h \<mapsto> t)"
proof -
  let ?ys = "filter (\<lambda>x. fst x \<noteq> h) (snd l)"
  obtain m where m: "fst l = Suc m" using assms(1) by (cases "fst l") (auto simp: list_lru_inv_def)
  have l': "r = map_of (snd l) h" "l' = (fst l, (h, t) # take m ?ys)"
    using assms(2) m by (auto simp: list_lru_def split: prod.splits)
  have dist: "distinct (map fst ?ys)" using assms(1) by (simp add: list_lru_inv_def distinct_map_filter)
  then have inv: "list_lru_inv l'"
    using set_take_subset [of m ?ys] distinct_take [of "map fst ?ys" m]
    by (auto simp: list_lru_inv_def l'(2) m take_map)
  have "(map_of (take m ?ys))(h \<mapsto> t) \<subseteq>\<^sub>m (map_of ?ys)(h \<mapsto> t)"
    using map_of_take_le [OF dist, of m] by (simp add: map_le_def)
  moreover have "(map_of ?ys)(h \<mapsto> t) = (map_of (snd l))(h \<mapsto> t)"
    by (auto simp: map_of_filter_other fun_eq_iff)
  ultimately show ?thesis using inv by (simp add: l')
qed

lemma list_lru_ok: "lru_ok list_lru list_lru_inv (\<lambda>l. map_of (snd l))"
  unfolding lru_ok_def
proof (intro conjI allI impI)
  fix l h t
  show "0 < n \<Longrightarrow> list_lru_inv (lru_new list_lru n)" "map_of (snd (lru_new list_lru n)) = Map.empty" for n
    by (simp_all add: list_lru_def list_lru_inv_def)
  assume l: "list_lru_inv l"
  show "case lru_get_mut list_lru l h of (r, l') \<Rightarrow>
      r = map_of (snd l) h \<and> list_lru_inv l' \<and> map_of (snd l') = map_of (snd l)"
    using list_lru_get [OF l, of h] by (auto split: prod.splits)
  show "case lru_insert list_lru l h t of (r, l') \<Rightarrow> r = map_of (snd l) h \<and> list_lru_inv l'
      \<and> map_of (snd l') h = Some t \<and> map_of (snd l') \<subseteq>\<^sub>m (map_of (snd l))(h \<mapsto> t)"
    using list_lru_insert [OF l, of h t] by (cases "lru_insert list_lru l h t") simp
  show "lru_contains list_lru l h = (map_of (snd l) h \<noteq> None)"
    by (simp add: list_lru_def split: prod.splits)
qed

section \<open>Publication\<close>

text \<open>
  The thread has cached a transaction of a peer when it is asked for that one and for the node's
  own funding transaction.
\<close>

theorem funding_served_witness:
  "\<exists>t f s' l acts l' acts' t'. life_fund (replicate 32 0) life_store = Some (Ok (t, [2], f), s')
    \<and> sendtx_run life_crates list_lru [(False, Incoming (1 :: nat) (Tx_msg demo_tx), db_empty)]
        (lru_new list_lru CACHE_SIZE) = Ok (l, acts)
    \<and> lru_contains list_lru l (txid life_crates demo_tx)
    \<and> sendtx_message life_crates list_lru False (Incoming (0 :: nat) (GetData
         [\<lparr>inv_kind = Inv_Transaction, inv_hash = txid life_crates demo_tx\<rparr>,
          \<lparr>inv_kind = Inv_Transaction, inv_hash = txid life_crates t\<rparr>])) (sdb s') l = Ok (l', acts')
    \<and> Send_to 0 (Tx_msg t') \<in> set acts' \<and> txid life_crates t' = txid life_crates t"
proof -
  let ?es = "[(False, Incoming (1 :: nat) (Tx_msg demo_tx), db_empty)]"
  let ?want = "\<lambda>t. [\<lparr>inv_kind = Inv_Transaction, inv_hash = txid life_crates demo_tx\<rparr>,
          \<lparr>inv_kind = Inv_Transaction, inv_hash = txid life_crates t\<rparr>]"
  obtain t f s' where r: "life_fund (replicate 32 0) life_store = Some (Ok (t, [2], f), s')"
    using life_fund_ok [of life_store "replicate 32 0"] by (auto simp: life_store_def)
  obtain l acts where run: "sendtx_run life_crates list_lru ?es (lru_new list_lru CACHE_SIZE) = Ok (l, acts)"
    and cached: "lru_contains list_lru l (txid life_crates demo_tx)"
    by (auto simp: sendtx_message_def sendtx_tx_def list_lru_def CACHE_SIZE_def)
  have new: "sendtx_new life_crates list_lru db_empty = Ok (lru_new list_lru CACHE_SIZE)"
    by (simp add: sendtx_new_def own_unconfirmed_def read_unconfirmed_def db_empty_def)
  have len: "length (replicate 32 (0 :: u8)) = DIGEST_LEN" by (simp add: DIGEST_LEN_def)
  have asked: "\<lparr>inv_kind = Inv_Transaction, inv_hash = txid life_crates t\<rparr> \<in> set (?want t)" by simp
  note served = funding_served [OF life_crates_ok(1,2) list_lru_ok life_store_unconfirmed len r new run asked,
      of False 0]
  obtain l' acts' t' where "sendtx_message life_crates list_lru False (Incoming (0 :: nat) (GetData (?want t))) (sdb s') l
      = Ok (l', acts')" "Send_to 0 (Tx_msg t') \<in> set acts'" "txid life_crates t' = txid life_crates t"
    using conjunct2 [OF served, THEN spec, of "sdb s'"] conjunct1 [OF served] by blast
  with r run cached show ?thesis by blast
qed

text \<open>The ad of one letter is prepared, funded, confirmed in a block, and served with the proof of that block.\<close>

lemma life_ad: "ad_new life_crates [] [] [65] = ad (demo_content 65)"
  by (simp add: demo_content_def ad_new_def life_crates_def demo_crates_def)

lemma life_fits: "ad_fits life_crates (ad (demo_content 65))"
  using demo_fits [of 65] by (simp add: ad_fits_def ad_serialize_def life_crates_def demo_crates_def)

lemma life_proof: "proof_new life_crates b n = (replicate 32 1, merkle_root (header b), txdata b ! n)"
  by (simp add: life_crates_def)

theorem publication_lifecycle_witness:
  "\<exists>i s1 t f s2 s3. store_prepare life_crates [] [] [65] life_store = Ok (i, s1)
    \<and> life_fund i s1 = Some (Ok (t, [2], f), s2)
    \<and> block_connected life_crates life_wallet_crates demo_trunk \<lparr>header = demo_header, txdata = [t]\<rparr> 0 s2 = Ok s3
    \<and> get_content life_crates i s3 = Ok (Some \<lparr>ad = ad (demo_content 65),
         funding = (replicate 32 1, merkle_root demo_header, t), funder = [2], content_term = 5\<rparr>)"
proof -
  have str: "valid_str [65]" by (simp add: valid_str_def scalar_def)
  let ?i = "ad_digest life_crates (ad_new life_crates [] [] [65])"
  obtain d where p: "store_prepare life_crates [] [] [65] life_store = Ok (?i, life_store\<lparr>sdb := d\<rparr>)"
    using prepared_read_back [OF life_crates_ok(1) str, of "[]" "[]" "sdb life_store"]
    by (auto simp: store_prepare_def)
  obtain t f s2 where r: "life_fund ?i (life_store\<lparr>sdb := d\<rparr>) = Some (Ok (t, [2], f), s2)"
    using life_fund_ok [of "life_store\<lparr>sdb := d\<rparr>" ?i] by (auto simp: life_store_def)
  let ?b = "\<lparr>header = demo_header, txdata = [t]\<rparr>"
  have "\<exists>s3. block_connected life_crates life_wallet_crates demo_trunk ?b 0 s2 = Ok s3 \<and> store_ok life_crates s3
    \<and> ?i = ?i \<and> get_content life_crates ?i s3 = Ok (Some \<lparr>ad = ad_new life_crates [] [] [65],
        funding = proof_new life_crates ?b 0, funder = [2], content_term = 5\<rparr>)"
  proof (rule publication_lifecycle [OF life_crates_ok(1,2) life_wallet_ok life_crates_ok(3) life_store_ok str
        life_store_unconfirmed _ _ p _ r, where tix = 0 and changed = False and w = "swallet s2" and n = 0])
    show "ad_fits life_crates (ad_new life_crates [] [] [65])" by (simp add: life_ad life_fits)
    show "get_header demo_trunk (header_hash life_crates (header ?b)) = Some (header ?b)"
      "get_height demo_trunk (header_hash life_crates (header ?b)) = Some 0"
      "trunk_len demo_trunk \<le> 0 + ucast (5 :: u16)"
      by (simp_all add: demo_trunk_def test_trunk_def demo_crates_def life_crates_def)
  qed (simp_all add: content_keys_def life_store_def db_empty_def MAX_TERM_def life_crates_def wallet_process_def
      life_wallet_crates_def)
  with p r show ?thesis unfolding life_ad life_proof by fastforce
qed

text \<open>The same with keys and proofs that carry nothing.\<close>


definition pub_crates :: "(unit, unit) crates" where
  "pub_crates = demo_crates\<lparr>serialize_tx := put_tx, deserialize_tx := \<lambda>bs. Some (get_tx bs)\<rparr>"

lemma pub_crates_ok: "crates_ok pub_crates" "tx_codec_ok pub_crates"
  using demo_crates_ok by (simp_all add: crates_ok_def pub_crates_def tx_codec_ok_def)

lemma pub_store_ok: "store_ok pub_crates (demo_open db_empty)"
  using demo_open_ok [OF db_empty_ok]
  by (simp add: store_ok_def db_ok_def tables_for_def sketch_for_def content_keys_def pub_crates_def demo_open_def
      db_empty_def demo_hashing)

definition fund_demo ::
  "hash \<Rightarrow> ((out_point \<times> coin) list, unit) store
   \<Rightarrow> ((transaction \<times> unit \<times> u64) outcome \<times> ((out_point \<times> coin) list, unit) store) option" where
  "fund_demo i s = store_fund pub_crates demo_wallet_crates (\<lambda>_. 0) (Suc (Suc 0)) demo_trunk i 5 2000 1 '''' s"

lemma fund_demo_ok:
  assumes "swallet s = demo_wallet"
  shows "\<exists>t f s'. fund_demo i s = Some (Ok (t, (), f), s')"
  using assms
  by (simp add: fund_demo_def store_fund_def wallet_fund_def commit_to_ad_def store_account_def demo_wallet_simps)

lemma demo_open_wallet: "swallet (demo_open d) = demo_wallet"
  by (simp add: demo_open_def)

lemma pub_prepare:
  "\<exists>d. store_prepare pub_crates [] [] [65] (demo_open db_empty)
     = Ok (ad_digest pub_crates (ad_new pub_crates [] [] [65]), (demo_open db_empty)\<lparr>sdb := d\<rparr>)"
proof -
  have "valid_str [65]" by (simp add: valid_str_def scalar_def)
  then obtain d where "prepare_publication pub_crates (ad_new pub_crates [] [] [65]) db_empty
      = Ok (ad_digest pub_crates (ad_new pub_crates [] [] [65]), d)"
    using prepared_read_back [OF pub_crates_ok(1)] by blast
  then show ?thesis by (auto simp: store_prepare_def demo_open_def)
qed

section \<open>Requests\<close>

definition demo_api :: api_crate where
  "demo_api = \<lparr>address_from_str = (\<lambda>_. Some [6]), address_text = (\<lambda>_. ''''), foreign_text = (\<lambda>_. '''')\<rparr>"

abbreviation demo_call ::
  "(unit, unit) crates \<Rightarrow> string \<Rightarrow> params \<Rightarrow> ((out_point \<times> coin) list, unit) store
   \<Rightarrow> ((out_point \<times> coin) list, unit) store reply option" where
  "demo_call C \<equiv> api_call demo_api C demo_wallet_crates demo_trunk (\<lambda>_. 0) (Suc (Suc 0)) [107]"

theorem api_requires_key_witness:
  "\<exists>e. demo_call demo_crates ''withdraw'' (Params_Array [String [], String [], String [], Number (PosInt 1)]) demo_cached
     = Some (Ok (Inl e), demo_cached)"
  by (rule api_requires_key) simp

lemma api_call_step_example:
  "\<exists>r s'. demo_call pub_crates ''prepare'' (Params_Array [String [107], String [], String [], String [65]]) (demo_open db_empty)
     = Some (r, s') \<and> (s' = demo_open db_empty \<or> store_step pub_crates demo_wallet_crates (demo_open db_empty) s')"
proof -
  obtain r s' where "demo_call pub_crates ''prepare'' (Params_Array [String [107], String [], String [], String [65]])
      (demo_open db_empty) = Some (r, s')"
    using pub_prepare by (auto simp: api_call_def api_methods_def parse_arguments_def api_plain_def)
  with api_call_step [OF this] show ?thesis by blast
qed

text \<open>Hexadecimal text that is ASCII: two letters a byte.\<close>

definition ascii_hex :: "bytes \<Rightarrow> string" where
  "ascii_hex b = concat (map (\<lambda>w. [char_of (unat w div 16 + 97), char_of (unat w mod 16 + 97)]) b)"

fun ascii_unhex :: "string \<Rightarrow> bytes" where
  "ascii_unhex (c # d # s) = of_nat ((of_char c - 97) * 16 + (of_char d - 97)) # ascii_unhex s"
| "ascii_unhex _ = []"

lemma ascii_hex_Cons:
  "ascii_hex (w # b) = char_of (unat w div 16 + 97) # char_of (unat w mod 16 + 97) # ascii_hex b"
  by (simp add: ascii_hex_def)

lemma ascii_digit: "unat (w :: u8) div 16 + 97 < 128" "unat w mod 16 + 97 < 128"
  using unsigned_less [of w, where ?'a = nat] by auto

lemma ascii_unhex_hex: "ascii_unhex (ascii_hex b) = b"
proof (induction b)
  case (Cons w b)
  with ascii_digit [of w] show ?case by (simp add: ascii_hex_Cons)
qed (simp add: ascii_hex_def)

lemma ascii_hex_ascii: "\<forall>c \<in> set (ascii_hex b). of_char c < (128 :: nat)"
proof (induction b)
  case (Cons w b)
  with ascii_digit [of w] show ?case by (simp add: ascii_hex_Cons)
qed (simp add: ascii_hex_def)

definition hex_crates :: "(unit, unit) crates" where
  "hex_crates = demo_crates\<lparr>sha256_to_hex := ascii_hex,
     sha256_from_hex := \<lambda>s. if length (ascii_unhex s) = 32 then Some (ascii_unhex s) else None\<rparr>"

lemma hex_crates_ok: "crates_ok hex_crates"
  using demo_crates_ok by (auto simp: crates_ok_def hex_crates_def ascii_unhex_hex DIGEST_LEN_def)

theorem api_prepare_read_witness:
  "\<exists>i s'. demo_call hex_crates ''prepare'' (Params_Array [String [107], String [1], String [2], String [65]])
        (demo_open db_empty) = Some (Ok (Inr (String i)), s')
    \<and> demo_call hex_crates ''read_prepared'' (Params_Array [String [107], String i]) s'
        = Some (Ok (Inr (Array [String [1], String [2], String [65]])), s')"
  by (rule api_prepare_read [OF hex_crates_ok])
    (simp_all add: valid_str_def scalar_def hex_crates_def ascii_hex_ascii)

lemma malformed_amount_withdraws_all_example:
  "demo_call demo_crates ''withdraw'' (Params_Array [String [107], String [], String [], Number (PosInt 1), String [53]]) demo_cached
   = demo_call demo_crates ''withdraw'' (Params_Array [String [107], String [], String [], Number (PosInt 1)]) demo_cached"
  by (rule malformed_amount_withdraws_all) simp

section \<open>Start\<close>

definition start_wallet_crates :: "(unit, unit, (out_point \<times> coin) list, unit, unit) wallet_crates" where
  "start_wallet_crates = demo_wallet_crates\<lparr>account_numbers := \<lambda>_. [(0, 0), (0, 1), (1, 0)]\<rparr>"

definition start_config :: config where
  "start_config = \<lparr>apikey = [107], encryptedwalletkey = demo_hex [1, 2], keyroot = ''root'', lookahead = 10,
     cfg_birth = 50\<rparr>"

definition demo_start :: "unit start_crates" where
  "demo_start = \<lparr>read_config = (\<lambda>_. Some start_config), write_config = (\<lambda>_. ''''),
     master_from_encrypted = (\<lambda>_ _ _. Some ()), master_network = (\<lambda>_. Testnet), master_encrypted = (\<lambda>_. [1, 2]),
     master_root = (\<lambda>_. ''root''), master_birth = (\<lambda>_. 50), add_stored_account = (\<lambda>_ _ _ _ _. Some ())\<rparr>"

definition new_wallet :: "((out_point \<times> coin) list, unit) wallet" where
  "new_wallet = \<lparr>coins = [], master = ()\<rparr>"

lemma demo_create:
  "\<exists>d'. create_wallet demo_start demo_crates start_wallet_crates [107] new_wallet db_empty = Ok (start_config, '''', d')"
  by (simp add: create_wallet_def wallet_accessors demo_start_def start_config_def start_wallet_crates_def demo_wallet_crates_def
      new_wallet_def store_coins_def read_unconfirmed_def db_empty_def store_master_def store_account_def
      KEY_LOOK_AHEAD_def Let_def)

lemma created_wallet_opens_example:
  "\<exists>d'. create_wallet demo_start demo_crates start_wallet_crates [107] new_wallet db_empty = Ok (start_config, '''', d')
    \<and> open_wallet demo_start demo_crates start_wallet_crates Testnet '''' d' = Ok (start_config, new_wallet)"
proof -
  obtain d' where c: "create_wallet demo_start demo_crates start_wallet_crates [107] new_wallet db_empty = Ok (start_config, '''', d')"
    using demo_create by blast
  have "open_wallet demo_start demo_crates start_wallet_crates Testnet '''' d' = Ok (start_config, new_wallet)"
    by (rule created_wallet_opens [OF _ _ _ _ _ _ _ c])
      (use demo_coins_ok(2) in \<open>auto simp: hex_ok_def start_wallet_crates_def demo_wallet_crates_def demo_start_def
        master_restorable_def new_wallet_def db_empty_def\<close>)
  with c show ?thesis by blast
qed

theorem rescan_starts_over_witness:
  "\<exists>s. main_store chain_crates demo_wallet_crates start_config 1 True [h2, h1, h0]
       (db_empty\<lparr>processed_tbl := Some (demo_hex (id_hash 3))\<rparr>) demo_wallet = Ok s
    \<and> coins (swallet s) = []
    \<and> bitcoin_start chain_crates demo_wallet_crates demo_trunk (demo_view ([h2, h1, h0], [h2, h1, h0])) 4 50 s
        = Some (Ok (set_tx_sender s, \<lparr>blocks_wanted = [(id_hash 2, 1), (id_hash 3, 2)], blocks_asked = [],
            download_peer = None :: nat option, birth = 50\<rparr>))"
proof -
  let ?d = "db_empty\<lparr>processed_tbl := Some (demo_hex (id_hash 3))\<rparr>"
  have "db_ok chain_crates (rescan chain_crates (id_hash 1) ?d)"
    by (simp add: db_ok_def rescan_def db_empty_def)
  then obtain s where s: "main_store chain_crates demo_wallet_crates start_config 1 True [h2, h1, h0] ?d demo_wallet = Ok s"
    using compute_content_sketch_eq [OF chain_crates_ok]
    by (auto simp: main_store_def main_rescan_def start_config_def h0_def h1_def h2_def store_new_def)
  have "find (older (cfg_birth start_config)) [h2, h1, h0] = Some h0"
    by (simp add: older_def start_config_def h0_def h1_def h2_def)
  moreover have "coins_new demo_wallet_crates = []" by (simp add: demo_wallet_crates_def)
  ultimately show ?thesis
    using s rescan_starts_over [OF chain_crates_ok demo_trunk_headers(1) _ _ _ s, of h0 4 demo_trunk, where ?'i = nat]
    by (intro exI [of _ s]) (simp add: start_config_def h0_def h1_def h2_def older_def)
qed

section \<open>Wire\<close>

lemma version_roundtrip_example:
  "\<exists>X :: ((unit, unit) envelope option, (unit, unit) envelope) wire_crate. \<exists>b m v.
     envelope_encode X (envelope_wrap (version_for \<lparr>cfg_nonce = 9, cfg_user_agent = [], cfg_max_protocol_version = 1,
        cfg_server = False\<rparr> 1000000 peer_a 3)) None = Ok b
    \<and> obind (fst (envelope_decode X b)) (\<lambda>e. obind (unwrap e) envelope_unwrap) = Ok m
    \<and> is_version m = Some v \<and> vc_version v = 1 \<and> vc_nonce v = 9"
proof -
  let ?X = "\<lparr>buffer_len = (\<lambda>_. 0), buffer_rollback = (\<lambda>b. b), buffer_commit = (\<lambda>_. None), cbor_write = (\<lambda>_ e. Some (Some e)),
     cbor_read = (\<lambda>b. case b of None \<Rightarrow> (Eof, b) | Some e \<Rightarrow> (Value e, None))\<rparr>
     :: ((unit, unit) envelope option, (unit, unit) envelope) wire_crate"
  have law: "\<forall>e. \<exists>b c. cbor_write ?X None e = Some b \<and> cbor_read ?X b = (Value e, c)" by auto
  from version_roundtrip [OF law, of "\<lparr>cfg_nonce = 9, cfg_user_agent = [], cfg_max_protocol_version = 1,
      cfg_server = False\<rparr>" 1000000 peer_a 3]
  show ?thesis by (intro exI [of _ ?X]) auto
qed

end
