(* ===== verification/Peer_Threads.thy ===== *)
theory Peer_Threads
  imports Updater Discovery Address_Events
begin

text \<open>
  The loops of the two threads that talk to other nodes, \<^verbatim>\<open>Updater::run\<close> of \<^verbatim>\<open>src/updater.rs\<close> and
  \<^verbatim>\<open>Discovery::run\<close> of \<^verbatim>\<open>src/discovery.rs\<close>: which handler a message reaches, and what happens when
  no message arrives for a second. The clock is a number of nanoseconds.
\<close>

text \<open>What the receive loop sees: a message, or a second without one, with the peer \<^verbatim>\<open>murmel\<close> would choose at random.\<close>

datatype ('i, 'p, 'k) loop_event = Message "('i, 'p, 'k) biadnet_event" | Idle "'i option"

fun loop_event_wf :: "('i, 'p, 'k) loop_event \<Rightarrow> bool" where
  "loop_event_wf (Message m) = biadnet_event_wf m"
| "loop_event_wf (Idle chosen) = True"

definition POLL_FREQUENCY :: nat where
  "POLL_FREQUENCY = 60"

definition as_secs :: "nat \<Rightarrow> nat" where
  "as_secs t = t div 10 ^ 9"

text \<open>
  Whether a poll is due: \<^verbatim>\<open>duration_since\<close> fails, and its result is unwrapped, if the clock was set back
  behind the last poll.
\<close>

definition poll_due :: "nat \<Rightarrow> nat \<Rightarrow> bool outcome" where
  "poll_due now last_polled =
     (if now < last_polled then Panic Unwrap_failed else Ok (as_secs (now - last_polled) > POLL_FREQUENCY))"

section \<open>The updater\<close>

text \<open>The thread at its start.\<close>

definition updater_new :: "nat \<Rightarrow> 'i polls \<times> nat" where
  "updater_new now = (\<lambda>_. None, now)"

fun updater_message ::
  "('p, 'k) crates \<Rightarrow> nat \<Rightarrow> trunk \<Rightarrow> bool \<Rightarrow> ('i, 'p, 'k) biadnet_event \<Rightarrow> 'i polls \<times> ('c, 'm) store
   \<Rightarrow> ('i polls \<times> ('c, 'm) store \<times> ('i, 'p, 'k) action list) outcome option" where
  "updater_message C fuel T busy (Peer_connected pid _) (asked, s) =
     (case poll_content C T s pid asked of (asked', acts) \<Rightarrow> Some (Ok (asked', s, acts)))"
| "updater_message C fuel T busy (Peer_disconnected pid _) (asked, s) =
     Some (Ok (on_disconnected pid asked, s, []))"
| "updater_message C fuel T busy (Peer_incoming pid (PollContent poll)) (asked, s) =
     Some (obind (on_poll_content C T pid poll (s, asked)) (\<lambda>(s', asked', acts). Ok (asked', s', acts)))"
| "updater_message C fuel T busy (Peer_incoming pid (ContentIBLT tip t)) (asked, s) =
     returned (obind (on_content_iblt C fuel T pid tip t s)
       (\<lambda>r. Ok (map_option (\<lambda>(s', acts). (asked, s', acts)) r)))"
| "updater_message C fuel T busy (Peer_incoming pid (Content c)) (asked, s) =
     Some (obind (on_content C T pid busy c s) (\<lambda>(s', acts). Ok (asked, s', acts)))"
| "updater_message C fuel T busy (Peer_incoming pid (Get ids)) (asked, s) =
     Some (obind (on_get C pid ids s) (\<lambda>acts. Ok (asked, s, acts)))"
| "updater_message C fuel T busy _ (asked, s) = Some (Ok (asked, s, []))"

text \<open>
  A round of the loop. The state is the table of asked polls and the time of the last one; an event
  comes with the fuel for a listing, the answer of the timeout book-keeping, and the clock.
\<close>

definition updater_thread ::
  "('p, 'k) crates \<Rightarrow> trunk
   \<Rightarrow> (nat \<times> bool \<times> nat \<times> ('i, 'p, 'k) loop_event, 'i polls \<times> nat, ('c, 'm) store, ('i, 'p, 'k) action) handler" where
  "updater_thread C T e st =
     (case (e, st) of ((fuel, busy, now, ev), ((asked, last_polled), s)) \<Rightarrow>
        (case ev of
           Message m \<Rightarrow>
             map_option (\<lambda>r. obind r (\<lambda>(asked', s', acts).
                 Ok ((asked', case m of Peer_connected _ _ \<Rightarrow> now | _ \<Rightarrow> last_polled), s', acts)))
               (updater_message C fuel T busy m (asked, s))
         | Idle chosen \<Rightarrow>
             Some (obind (poll_due now last_polled) (\<lambda>due.
               let check = Check_timeouts [Expect_PollContent, Expect_ContentIBLT, Expect_Content, Expect_Get] in
               if due then (case on_tick C T s chosen asked of (asked', acts) \<Rightarrow> Ok ((asked', now), s, check # acts))
               else Ok ((asked, last_polled), s, [check])))))"

section \<open>Discovery\<close>

text \<open>The handlers work on the database of the store; \<open>now\<close> is the clock in seconds.\<close>

fun discovery_message ::
  "hash_crates \<Rightarrow> nat \<Rightarrow> u64 \<Rightarrow> u64 \<Rightarrow> u64 \<Rightarrow> ('i, 'p, 'k) biadnet_event \<Rightarrow> 'i discovery \<times> db
   \<Rightarrow> ('i discovery \<times> db \<times> ('i, 'p, 'k) action list) outcome option" where
  "discovery_message H fuel r0 r1 now (Peer_connected pid addr) st =
     Some (discovery_connected H r0 r1 now pid addr st)"
| "discovery_message H fuel r0 r1 now (Peer_disconnected pid banned) st =
     (case discovery_disconnected H r0 r1 now pid banned st of (s', d') \<Rightarrow> Some (Ok (s', d', [])))"
| "discovery_message H fuel r0 r1 now (Peer_incoming pid (PollAddress poll)) st =
     Some (on_poll_address H now pid poll st)"
| "discovery_message H fuel r0 r1 now (Peer_incoming pid (AddressIBLT t)) st =
     returned (on_address_iblt H fuel r0 r1 now pid t st)"
| "discovery_message H fuel r0 r1 now _ (s, d) = Some (Ok (s, d, []))"

definition discovery_thread ::
  "('p, 'k) crates
   \<Rightarrow> (nat \<times> u64 \<times> u64 \<times> nat \<times> ('i, 'p, 'k) loop_event, 'i discovery \<times> nat, ('c, 'm) store, ('i, 'p, 'k) action) handler" where
  "discovery_thread C e st =
     (case (e, st) of ((fuel, r0, r1, now, ev), ((p, last_polled), s)) \<Rightarrow>
        (let H = hashing C; secs = of_nat (as_secs now) in
         (case ev of
            Message m \<Rightarrow>
              map_option (\<lambda>r. obind r (\<lambda>(p', d', acts).
                  Ok ((p', case m of Peer_connected _ _ \<Rightarrow> now | _ \<Rightarrow> last_polled), s\<lparr>sdb := d'\<rparr>, acts)))
                (discovery_message H fuel r0 r1 secs m (p, sdb s))
          | Idle chosen \<Rightarrow>
              Some (obind (poll_due now last_polled) (\<lambda>due.
                let check = Check_timeouts [Expect_PollAddress, Expect_AddressIBLT] in
                if due then obind (discovery_tick H secs chosen (p, sdb s))
                             (\<lambda>(p', d', acts). Ok ((p', now), s\<lparr>sdb := d'\<rparr>, check # acts))
                else Ok ((p, last_polled), s, [check]))))))"

section \<open>The lock of the store\<close>

text \<open>How the handlers of the updater take the lock of the store; a question is answered with what is in the store.\<close>

fun message_access :: "'i polls \<Rightarrow> ('i, 'p, 'k) biadnet_event \<Rightarrow> access option" where
  "message_access asked (Peer_connected _ _) = Some Reads"
| "message_access asked (Peer_incoming pid (PollContent _)) = Some (if asked pid = None then Reads else Writes)"
| "message_access asked (Peer_incoming _ (ContentIBLT _ _)) = Some Writes"
| "message_access asked (Peer_incoming _ (Content _)) = Some Writes"
| "message_access asked (Peer_incoming _ (Get _)) = Some Reads"
| "message_access asked _ = None"

definition updater_access ::
  "nat \<times> bool \<times> nat \<times> ('i, 'p, 'k) loop_event \<Rightarrow> ('i polls \<times> nat) \<times> ('c, 'm) store \<Rightarrow> access option" where
  "updater_access e st =
     (case (e, st) of ((fuel, busy, now, ev), ((asked, last_polled), s)) \<Rightarrow>
        (case ev of
           Message m \<Rightarrow> message_access asked m
         | Idle _ \<Rightarrow> if poll_due now last_polled = Ok True then Some Reads else None))"

text \<open>The transactions of the updater are those of received content.\<close>

fun loop_progress ::
  "('p, 'k) crates \<Rightarrow> trunk \<Rightarrow> bool \<Rightarrow> ('i, 'p, 'k) loop_event \<Rightarrow> ('c, 'm) store \<Rightarrow> ('c, 'm) store list" where
  "loop_progress C T busy (Message (Peer_incoming pid (Content c))) s = content_progress C T busy c s"
| "loop_progress C T busy _ s = []"

definition updater_left ::
  "('p, 'k) crates \<Rightarrow> trunk \<Rightarrow> nat \<times> bool \<times> nat \<times> ('i, 'p, 'k) loop_event \<Rightarrow> ('i polls \<times> nat) \<times> ('c, 'm) store
   \<Rightarrow> ('c, 'm) store" where
  "updater_left C T e st =
     (case (e, st) of ((fuel, busy, now, ev), (p, s)) \<Rightarrow> last (s # loop_progress C T busy ev s))"

section \<open>The updater moves the store\<close>

lemma on_poll_content_moves:
  assumes "on_poll_content C T pid poll (s, asked) = Ok (s', asked', acts)"
  shows "(node_move C W)\<^sup>*\<^sup>* s s'"
proof -
  have "s' = s \<or> (\<exists>n t. get_iblt C n s = Ok (t, s'))"
    using assms by (auto simp: on_poll_content_def Let_def split: option.splits if_splits prod.splits)
  then show ?thesis by (auto intro: moves_step step_serve)
qed

lemma on_content_iblt_moves:
  assumes "on_content_iblt C fuel T pid tip t s = Ok (Some (s', acts))"
  shows "(node_move C W)\<^sup>*\<^sup>* s s'"
proof -
  have "s' = s \<or> (\<exists>n t. get_iblt C n s = Ok (t, s'))"
    using assms by (auto simp: on_content_iblt_def Let_def split: option.splits if_splits)
  then show ?thesis by (auto intro: moves_step step_serve)
qed

lemma content_progress_last:
  assumes "on_content C T pid busy c s = Ok (s', acts)"
  shows "last (s # content_progress C T busy c s) = s'"
  using assms
  by (cases "add_content C T c s")
    (auto simp: on_content_def content_progress_def truncate_progress_def split: if_splits)

lemma moves_last:
  assumes "\<And>t. t \<in> set ts \<Longrightarrow> R\<^sup>*\<^sup>* s t" shows "R\<^sup>*\<^sup>* s (last (s # ts))"
  using assms by (cases ts) auto

lemma on_content_moves:
  assumes "on_content C T pid busy c s = Ok (s', acts)"
  shows "(node_move C W)\<^sup>*\<^sup>* s s'"
  unfolding content_progress_last [OF assms, symmetric] by (rule moves_last) (rule content_progress_moves)

lemma loop_progress_moves: "t \<in> set (loop_progress C T busy ev s) \<Longrightarrow> (node_move C W)\<^sup>*\<^sup>* s t"
  by (cases "(C, T, busy, ev, s)" rule: loop_progress.cases) (auto intro: content_progress_moves)

lemma updater_message_moves:
  assumes "updater_message C fuel T busy m (asked, s) = Some (Ok (asked', s', acts))"
  shows "(node_move C W)\<^sup>*\<^sup>* s s'"
  using assms
  by (cases "(C, fuel, T, busy, m, (asked, s))" rule: updater_message.cases)
    (auto intro: on_poll_content_moves on_content_iblt_moves on_content_moves split: prod.splits)

lemma updater_message_unwritten:
  assumes "updater_message C fuel T busy m (asked, s) = Some (Ok (asked', s', acts))"
    and "message_access asked m \<noteq> Some Writes"
  shows "s' = s"
  using assms
  by (cases "(C, fuel, T, busy, m, (asked, s))" rule: updater_message.cases)
    (auto simp: on_poll_content_def split: prod.splits if_splits)

interpretation updater: locked_thread "\<lambda>e. loop_event_wf (snd (snd (snd e)))" "\<lambda>_. True" "shared_ok C" "node_move C W"
  "updater_thread C T" updater_access "updater_left C T" for C W T
proof (unfold_locales, goal_cases)
  case (1 e s d s' d' out)
  then show ?case
    by (auto simp: updater_thread_def Let_def intro: updater_message_moves split: loop_event.splits if_splits prod.splits)
next
  case (2 e p s p' s' out)
  then show ?case
    by (auto simp: updater_thread_def updater_access_def Let_def split: loop_event.splits if_splits prod.splits
        dest: updater_message_unwritten)
next
  case (3 e p s)
  obtain fuel busy now ev where e: "e = (fuel, busy, now, ev)" by (cases e)
  with 3 show ?case
    by (cases "(C, T, busy, ev, s)" rule: loop_progress.cases)
      (auto simp: updater_left_def updater_access_def split: prod.splits)
next
  case (4 s e p)
  show ?case by (auto simp: updater_left_def split: prod.splits intro: loop_progress_moves last_in_set)
qed

section \<open>Discovery moves the store\<close>

definition discovery_wf :: "'i discovery \<Rightarrow> bool" where
  "discovery_wf p \<longleftrightarrow> (\<forall>pid a. addresses p pid = Some a \<longrightarrow> socket_wf a)
     \<and> (\<forall>pid u. iblt_sent p pid = Some u \<longrightarrow> iblt_typed net_address_wf u)"

lemma discovery_wf_new: "discovery_wf discovery_new"
  by (simp add: discovery_wf_def discovery_new_def)

lemma compute_address_iblt_typed:
  assumes "compute_address_iblt H now n d = Ok t" and "addresses_ok H d"
  shows "iblt_typed net_address_wf t"
  using assms recent_addresses_wf [OF assms(2)]
  by (auto simp: compute_address_iblt_def intro: net_address.insert_all_typed net_address.new_typed)

lemma store_entries_moves:
  assumes "\<forall>e \<in> set es. entry_typed net_address_wf e"
  shows "(address_move C)\<^sup>*\<^sup>* s (s\<lparr>sdb := store_entries (hashing C) r0 r1 now es (sdb s)\<rparr>)"
  using assms
proof (induction "hashing C" r0 r1 now es "sdb s" arbitrary: s rule: store_entries.induct)
  case (2 r0 r1 now n es)
  let ?d = "learn (hashing C) r0 r1 now n (sdb s)"
  have "(address_move C)\<^sup>*\<^sup>* s (s\<lparr>sdb := ?d\<rparr>)"
    using 2(2) by (auto simp: learn_def moves_address socket_address_wf split: outcome.splits)
  also have "(address_move C)\<^sup>*\<^sup>* (s\<lparr>sdb := ?d\<rparr>)
      ((s\<lparr>sdb := ?d\<rparr>)\<lparr>sdb := store_entries (hashing C) r0 r1 now es (sdb (s\<lparr>sdb := ?d\<rparr>))\<rparr>)"
    by (rule 2(1)) (use 2(2) in \<open>simp_all add: learn_def\<close>)
  finally show ?case by (simp add: learn_def)
qed auto

lemma on_address_iblt_moves:
  assumes "on_address_iblt (hashing C) fuel r0 r1 now pid t (p, sdb s) = Ok (Some (p', d', acts))"
    and "iblt_typed net_address_wf t" and "discovery_wf p"
  shows "discovery_wf p' \<and> (address_move C)\<^sup>*\<^sup>* s (s\<lparr>sdb := d'\<rparr>)"
proof -
  let ?K = "net_address_ops (hashing C)"
  obtain diff es where diff: "(case iblt_sent p pid of Some u \<Rightarrow> substract ?K t u | None \<Rightarrow> Ok t) = Ok diff"
    and es: "iblt_entries fuel ?K (iblt_iterator_new ?K diff) = Ok (Some es)"
    and p': "p' = p\<lparr>iblt_sent := (iblt_sent p)(pid := None)\<rparr>"
    and d': "d' = store_entries (hashing C) r0 r1 now es (sdb s)"
    using assms(1) by (auto simp: on_address_iblt_def Let_def)
  have "iblt_typed net_address_wf diff"
    using diff assms(2,3) net_address.substract_typed by (auto simp: discovery_wf_def split: option.splits)
  then have "\<forall>e \<in> set es. entry_typed net_address_wf e" by (rule net_address.listing_typed [OF es])
  with assms(3) show ?thesis by (auto simp: p' d' discovery_wf_def intro: store_entries_moves)
qed

lemma poll_address_keeps:
  "poll_address H now pid (p, d) = Ok (p', d', acts) \<Longrightarrow> discovery_wf p' = discovery_wf p \<and> d' = d"
  "discovery_tick H now chosen (p, d) = Ok (p', d', acts) \<Longrightarrow> discovery_wf p' = discovery_wf p \<and> d' = d"
  by (auto simp: poll_address_def discovery_tick_def discovery_wf_def Let_def split: option.splits)

lemma discovery_connected_keeps:
  assumes "discovery_connected H r0 r1 now pid addr (p, d) = Ok (p', d', acts)" and "discovery_wf p"
    and "\<And>a. addr = Some a \<Longrightarrow> socket_wf a"
  shows "discovery_wf p' \<and> d' = d"
proof -
  let ?p = "case addr of None \<Rightarrow> p | Some a \<Rightarrow> p\<lparr>addresses := (addresses p)(pid \<mapsto> a)\<rparr>"
  have p: "poll_address H now pid (?p, d) = Ok (p', d', acts)"
    using assms(1) by (auto simp: discovery_connected_def split: option.splits prod.splits)
  have "discovery_wf ?p" using assms(2,3) by (auto simp: discovery_wf_def split: option.splits)
  with poll_address_keeps(1) [OF p] show ?thesis by simp
qed

lemma on_poll_address_keeps:
  assumes "on_poll_address H now pid poll (p, d) = Ok (p', d', acts)" and "discovery_wf p" and "addresses_ok H d"
  shows "discovery_wf p' \<and> d' = d"
proof (cases "poll_asked p pid")
  case None
  then have "poll_address H now pid (p, d) = Ok (p', d', acts)" using assms(1) by (simp add: on_poll_address_def)
  from poll_address_keeps(1) [OF this] assms(2) show ?thesis by simp
next
  case (Some q)
  then have "d' = d \<and> (p' = p\<lparr>poll_asked := (poll_asked p)(pid := None)\<rparr>
    \<or> (\<exists>n t. compute_address_iblt H now n d = Ok t
        \<and> p' = p\<lparr>poll_asked := (poll_asked p)(pid := None), iblt_sent := (iblt_sent p)(pid \<mapsto> t)\<rparr>))"
    using assms(1) by (auto simp: on_poll_address_def Let_def split: if_splits)
  then show ?thesis using assms(2,3) compute_address_iblt_typed by (fastforce simp: discovery_wf_def)
qed

lemma discovery_disconnected_moves:
  assumes "discovery_disconnected (hashing C) r0 r1 now pid banned (p, sdb s) = (p', d')" and "discovery_wf p"
  shows "discovery_wf p' \<and> (address_move C)\<^sup>*\<^sup>* s (s\<lparr>sdb := d'\<rparr>)"
  using assms
  by (auto simp: discovery_disconnected_def discovery_wf_def moves_address split: option.splits if_splits)

lemma discovery_message_moves:
  assumes "discovery_message (hashing C) fuel r0 r1 now m (p, sdb s) = Some (Ok (p', d', acts))"
    and "biadnet_event_wf m" and "discovery_wf p" and "addresses_ok (hashing C) (sdb s)"
  shows "discovery_wf p' \<and> (address_move C)\<^sup>*\<^sup>* s (s\<lparr>sdb := d'\<rparr>)"
proof (cases "(hashing C, fuel, r0, r1, now, m, (p, sdb s))" rule: discovery_message.cases)
  case (1 H fuel r0 r1 now pid addr st)
  then have "discovery_wf p' \<and> d' = sdb s"
    using assms(1-3) by (cases addr) (auto dest!: discovery_connected_keeps)
  then show ?thesis by auto
next
  case (3 H fuel r0 r1 now pid poll st)
  then have "discovery_wf p' \<and> d' = sdb s"
    using assms on_poll_address_keeps by fastforce
  then show ?thesis by auto
qed (use assms in \<open>auto dest: on_address_iblt_moves discovery_disconnected_moves
      split: prod.splits\<close>)

interpretation discovery: thread "\<lambda>e. loop_event_wf (snd (snd (snd (snd e))))" "\<lambda>p. discovery_wf (fst p)"
  "shared_ok C" "address_move C" "discovery_thread C" for C
proof (unfold_locales, goal_cases)
  case (1 e p s p' s' out)
  obtain fuel r0 r1 now ev where e: "e = (fuel, r0, r1, now, ev)" by (cases e)
  show ?case
  proof (cases ev)
    case (Message m)
    then obtain d' where m: "discovery_message (hashing C) fuel r0 r1 (of_nat (as_secs now)) m (fst p, sdb s)
        = Some (Ok (fst p', d', out))" "s' = s\<lparr>sdb := d'\<rparr>"
      using 1(4) by (auto simp: discovery_thread_def e Let_def split: prod.splits)
    then show ?thesis using discovery_message_moves [OF m(1)] m(2) 1(1-3) by (simp add: e Message shared_ok_def)
  next
    case (Idle chosen)
    with 1 show ?thesis
      by (auto simp: discovery_thread_def e Let_def split: prod.splits if_splits dest!: poll_address_keeps(2))
  qed
qed

end
