(* ===== verification/Node_Threads.thy ===== *)
theory Node_Threads
  imports Peer_Threads Chain_Sync Send_Tx Api
begin

text \<open>
  The other threads of a node that \<^verbatim>\<open>src/defiads/main.rs\<close> starts: the block download, which calls the driver of
  \<^verbatim>\<open>src/p2p_bitcoin.rs\<close>, the transaction sender, and the interface; how each of them takes the lock of the
  store, and what it leaves behind when it panics.
\<close>

section \<open>The threads of the Bitcoin network\<close>

text \<open>
  The block download calls the driver itself. Its own state is the queue, the chain of
  headers, which no other thread changes, and what is still to be done for the last message: it takes the lock of the store
  for every call of the driver anew, so that handlers of other threads may come between. An event is a
  message or a second without one, with the services of the peers and the answers of the timeout
  book-keeping, or the next of the actions. While there are actions left no message is received.
\<close>

datatype 'j download_event =
    Receive "('j \<Rightarrow> u64 option) \<times> ('j \<Rightarrow> bitcoin_reply \<Rightarrow> bool) \<times> 'j peer_message option"
  | Act

fun download_thread ::
  "('p, 'k) crates \<Rightarrow> ('p, 'k, 'c, 'm, 'u) wallet_crates \<Rightarrow> 'd chain_crate
   \<Rightarrow> ('j download_event, ('j block_download \<times> 'j net_action list) \<times> 'd, ('c, 'm) store, 'j net_action) handler" where
  "download_thread C W B (Receive (services, busy, None)) (((bd, []), d), s) =
     Some (Ok (((bd, []), d), s, [Check_replies [Expect_Headers, Expect_Block]]))"
| "download_thread C W B (Receive (services, busy, Some msg)) (((bd, []), d), s) =
     Some (obind (block_download_message C B services busy msg (bd, d)) (\<lambda>(bd', d', acts). Ok (((bd', acts), d'), s, [])))"
| "download_thread C W B (Receive _) (st, s) = Some (Ok (st, s, []))"
| "download_thread C W B Act (((bd, a # acts), d), s) =
     Some (obind (driver C W (chaindb_trunk (view B d)) a s) (\<lambda>s'.
       Ok (((bd, acts), d), s', if queue_action a then [] else [a])))"
| "download_thread C W B Act (st, s) = Some (Ok (st, s, []))"

fun download_access ::
  "'j download_event \<Rightarrow> (('j block_download \<times> 'j net_action list) \<times> 'd) \<times> ('c, 'm) store \<Rightarrow> access option" where
  "download_access Act (((bd, a # acts), d), s) = (if queue_action a then Some Writes else None)"
| "download_access _ _ = None"

text \<open>The transactions of an action: only connecting a block is more than one.\<close>

fun driver_progress ::
  "('p, 'k) crates \<Rightarrow> ('p, 'k, 'c, 'm, 'u) wallet_crates \<Rightarrow> trunk \<Rightarrow> 'j net_action \<Rightarrow> ('c, 'm) store \<Rightarrow> ('c, 'm) store list" where
  "driver_progress C W T (Block_connected b n) s = block_progress C W T b s"
| "driver_progress C W T _ s = []"

fun download_left ::
  "('p, 'k) crates \<Rightarrow> ('p, 'k, 'c, 'm, 'u) wallet_crates \<Rightarrow> 'd chain_crate \<Rightarrow> 'j download_event
   \<Rightarrow> (('j block_download \<times> 'j net_action list) \<times> 'd) \<times> ('c, 'm) store \<Rightarrow> ('c, 'm) store" where
  "download_left C W B Act (((bd, a # acts), d), s) =
     last (s # driver_progress C W (chaindb_trunk (view B d)) a s)"
| "download_left C W B _ (st, s) = s"

text \<open>The transaction sender, with the time of its last announcement.\<close>

definition sendtx_thread ::
  "('p, 'k) crates \<Rightarrow> 'l lru_crate
   \<Rightarrow> (nat \<times> 'j peer_message, 'l \<times> nat, ('c, 'm) store, 'j net_action) handler" where
  "sendtx_thread C L e st =
     (case (e, st) of ((now, msg), ((l, last_announcement), s)) \<Rightarrow>
        Some (obind (poll_due now last_announcement) (\<lambda>due.
          obind (sendtx_message C L due msg (sdb s) l) (\<lambda>(l', acts).
            Ok ((l', if due then now else last_announcement), s, acts)))))"

section \<open>The interface\<close>

text \<open>
  A request, with what the random generator returns and the fuel for a payment. The state of the
  thread is the key it was started with.
\<close>

definition api_thread ::
  "api_crate \<Rightarrow> ('p, 'k) crates \<Rightarrow> ('p, 'k, 'c, 'm, 'u) wallet_crates \<Rightarrow> trunk
   \<Rightarrow> ((nat \<Rightarrow> u32) \<times> nat \<times> string \<times> params, rstring, ('c, 'm) store, api_error + json) handler" where
  "api_thread A C W T e st =
     (case (e, st) of ((rnd, fuel, name, p), (api_key, s)) \<Rightarrow>
        map_option (\<lambda>(r, s'). obind r (\<lambda>answer. Ok (api_key, s', [answer])))
          (api_call A C W T rnd fuel api_key name p s))"

text \<open>How a request takes the lock of the store: not before its arguments are read.\<close>

definition plain_access :: "('p, 'k) crates \<Rightarrow> string \<Rightarrow> rstring list \<Rightarrow> access option" where
  "plain_access C name args =
     (if name = ''deposit'' then Some Writes
      else if name = ''prepare'' then (if length args < 3 then None else Some Writes)
      else if name = ''read_prepared'' then
        (case args of
           [] \<Rightarrow> None
         | a # _ \<Rightarrow> if sha256_from_hex C (utf8_string a) = None then None else Some Reads)
      else Some Reads)"

definition api_access ::
  "api_crate \<Rightarrow> ('p, 'k) crates \<Rightarrow> (nat \<Rightarrow> u32) \<times> nat \<times> string \<times> params \<Rightarrow> rstring \<times> ('c, 'm) store \<Rightarrow> access option" where
  "api_access A C e st =
     (case (e, st) of ((rnd, fuel, name, p), (api_key, s)) \<Rightarrow>
        if name \<notin> set api_methods then None
        else if name = ''withdraw'' \<or> name = ''fund'' then
          (case parse_wallet_arguments p api_key of
             Inl _ \<Rightarrow> None
           | Inr (pass, args) \<Rightarrow>
               if name = ''withdraw'' then (case withdraw_arguments A args of Inl _ \<Rightarrow> None | Inr _ \<Rightarrow> Some Writes)
               else (case fund_arguments C args of Inl _ \<Rightarrow> None | Inr _ \<Rightarrow> Some Writes))
        else (case parse_arguments p api_key of Inl _ \<Rightarrow> None | Inr args \<Rightarrow> plain_access C name args))"

text \<open>Every method is at most one transaction, at its end: one that panics has committed nothing.\<close>

definition api_left :: "(nat \<Rightarrow> u32) \<times> nat \<times> string \<times> params \<Rightarrow> rstring \<times> ('c, 'm) store \<Rightarrow> ('c, 'm) store" where
  "api_left e st = snd st"

section \<open>The contracts of the threads\<close>

lemma driver_moves:
  assumes "driver C W T a s = Ok s'"
  shows "(node_move C W)\<^sup>*\<^sup>* s s'"
  using assms by (cases a) (auto intro: moves_step step_block step_header step_unwind)

lemma driver_progress_moves: "t \<in> set (driver_progress C W T a s) \<Longrightarrow> (node_move C W)\<^sup>*\<^sup>* s t"
  by (cases a) (auto intro: block_progress_moves)

lemma unqueued:
  "\<not> queue_action a \<Longrightarrow> driver C W T a s = Ok s"
  "\<not> queue_action a \<Longrightarrow> driver_progress C W T a s = []"
  by (cases a; simp)+

interpretation download: locked_thread "\<lambda>_. True" "\<lambda>_. True" "shared_ok C" "node_move C W" "download_thread C W B"
  download_access "download_left C W B" for C W B
proof (unfold_locales, goal_cases)
  case (1 e st s st' s' out)
  then show ?case
    by (cases "(C, W, B, e, (st, s))" rule: download_thread.cases) (auto intro: driver_moves)
next
  case (2 e st s st' s' out)
  then show ?case
    by (cases "(C, W, B, e, (st, s))" rule: download_thread.cases) (auto simp: unqueued split: if_splits)
next
  case (3 e st s)
  then show ?case
    by (cases "(C, W, B, e, (st, s))" rule: download_left.cases)
      (auto simp: unqueued split: if_splits)
next
  case (4 s e st)
  show ?case
    by (cases "(C, W, B, e, (st, s))" rule: download_left.cases)
      (auto intro: driver_progress_moves last_in_set)
qed

interpretation sendtx: reader "\<lambda>_. True" "\<lambda>_. True" "sendtx_thread C L" for C L
  by unfold_locales (auto simp: sendtx_thread_def)

lemma api_plain_unwritten:
  assumes "api_plain A C W T name args s = (r, s')" and "plain_access C name args \<noteq> Some Writes"
  shows "s' = s"
proof -
  have "name \<noteq> ''deposit''" and short: "name = ''prepare'' \<longrightarrow> length args < 3"
    using assms(2) by (auto simp: plain_access_def split: if_splits)
  with assms(1) show ?thesis
    by (cases "name = ''prepare''")
      (auto simp: api_plain_def split: if_splits list.splits option.splits outcome.splits sum.splits)
qed

lemma api_plain_unlocked:
  assumes "plain_access C name args = None"
  shows "\<exists>e. api_plain A C W T name args s = (Ok (Inl e), s)"
proof -
  consider "name = ''prepare''" "length args < 3" | "name = ''read_prepared''" "args = []"
    | a as where "name = ''read_prepared''" "args = a # as" "sha256_from_hex C (utf8_string a) = None"
    using assms by (auto simp: plain_access_def split: if_splits list.splits)
  then show ?thesis by cases (auto simp: api_plain_def split: list.splits)
qed

lemma api_call_unwritten:
  assumes "api_call A C W T rnd fuel api_key name p s = Some (r, s')"
    and "api_access A C (rnd, fuel, name, p) (api_key, s) \<noteq> Some Writes"
  shows "s' = s"
  using assms
  by (auto simp: api_call_def api_access_def api_withdraw_def api_fund_def split: if_splits sum.splits prod.splits
      dest: api_plain_unwritten)

text \<open>A request that does not take the lock is refused.\<close>

lemma api_call_unlocked:
  assumes "api_access A C (rnd, fuel, name, p) (api_key, s) = None"
  shows "\<exists>e. api_call A C W T rnd fuel api_key name p s = Some (Ok (Inl e), s)"
proof (cases "name = ''withdraw'' \<or> name = ''fund''")
  case True
  with assms show ?thesis
    by (auto simp: api_call_def api_access_def api_withdraw_def api_fund_def split: if_splits sum.splits prod.splits)
next
  case False
  with assms show ?thesis
    by (auto simp: api_call_def api_access_def api_plain_unlocked split: if_splits sum.splits)
qed

interpretation api: locked_thread "\<lambda>_. True" "\<lambda>_. True" "shared_ok C" "node_move C W" "api_thread A C W T"
  "api_access A C" api_left for A C W T
proof (unfold_locales, goal_cases)
  case (1 e t s t' s' out)
  then obtain rnd fuel api_key name p r where "api_call A C W T rnd fuel api_key name p s = Some (r, s')"
    by (auto simp: api_thread_def split: prod.splits)
  then have "s' = s \<or> store_step C W s s'" by (rule api_call_step)
  then show ?case by (auto intro: moves_step)
next
  case (2 e t s t' s' out)
  obtain rnd fuel name p where e: "e = (rnd, fuel, name, p)" by (cases e)
  with 2(2) obtain r where "api_call A C W T rnd fuel t name p s = Some (r, s')"
    by (auto simp: api_thread_def)
  then show ?case using 2(1) by (auto simp: e dest: api_call_unwritten)
qed (auto simp: api_left_def)

end
