(* ===== verification/Node.thy ===== *)
theory Node
  imports Node_Threads
begin

text \<open>
  The whole node: the threads that \<^verbatim>\<open>src/defiads/main.rs\<close> starts and what they share. Every listener
  of a network gets every message of its network over a channel of its own and handles it in
  its own time; so a run of the node is a sequence of events, each for one thread, in any order. The
  updater, the block download and the interface take the lock of the store; the others work on
  the database.
\<close>

section \<open>The node\<close>

text \<open>
  A thread that was not started, or that has stopped, has no state. \<open>n_lost\<close>: the lock of the store is poisoned or
  never released; then only the database of the store is still of use, which has a lock of its own.
\<close>

record ('i, 'j, 'c, 'm, 'd, 'l) node =
  n_store :: "('c, 'm) store"
  n_lost :: bool
  n_chain :: 'd
  n_updater :: "('i polls \<times> nat) option"
  n_discovery :: "('i discovery \<times> nat) option"
  n_defiads_pool :: "'i peer_addresses option"
  n_defiads_keep :: "keep_connected option"
  n_download :: "('j block_download \<times> 'j net_action list) option"
  n_sendtx :: "('l \<times> nat) option"
  n_bitcoin_pool :: "'j peer_addresses option"
  n_bitcoin_keep :: "keep_connected option"
  n_api :: "rstring option"

datatype ('i, 'j, 'p, 'k) node_event =
    Updater_event "nat \<times> bool \<times> nat \<times> ('i, 'p, 'k) loop_event"
  | Discovery_event "nat \<times> u64 \<times> u64 \<times> nat \<times> ('i, 'p, 'k) loop_event"
  | Defiads_pool_event "('i, 'p, 'k) biadnet_event timed"
  | Defiads_keep_event keep_event
  | Download_event "'j download_event"
  | Sendtx_event "nat \<times> 'j peer_message"
  | Bitcoin_pool_event "'j peer_message timed"
  | Bitcoin_keep_event keep_event
  | Api_event "(nat \<Rightarrow> u32) \<times> nat \<times> string \<times> params"

datatype ('i, 'j, 'p, 'k) node_output =
    To_defiads "('i, 'p, 'k) action"
  | To_bitcoin "'j net_action"
  | Connect_to string socket_addr
  | Answer "api_error + json"

text \<open>
  The code that is not in the repository; \<open>nc_http_goes_on\<close> says whether the HTTP server goes on after a
  method has panicked.
\<close>

record ('p, 'k, 'c, 'm, 'u, 'd, 'l) node_crates =
  nc_crates :: "('p, 'k) crates"
  nc_wallet :: "('p, 'k, 'c, 'm, 'u) wallet_crates"
  nc_chain :: "'d chain_crate"
  nc_lru :: "'l lru_crate"
  nc_api :: api_crate
  nc_http_goes_on :: bool

fun node_step ::
  "('p, 'k, 'c, 'm, 'u, 'd, 'l) node_crates \<Rightarrow> ('i, 'j, 'p, 'k) node_event \<Rightarrow> ('i, 'j, 'c, 'm, 'd, 'l) node
   \<Rightarrow> ('i, 'j, 'c, 'm, 'd, 'l) node \<times> ('i, 'j, 'p, 'k) node_output list" where
  "node_step N (Updater_event e) n =
     (let T = chaindb_trunk (view (nc_chain N) (n_chain n)) in
      (case deliver_locked updater_access (updater_left (nc_crates N) T) (updater_thread (nc_crates N) T) e
              (n_updater n, n_store n, n_lost n) of
         (t, s, lost, out) \<Rightarrow> (n\<lparr>n_updater := t, n_store := s, n_lost := lost\<rparr>, map To_defiads out)))"
| "node_step N (Discovery_event e) n =
     (case deliver (discovery_thread (nc_crates N)) e (n_discovery n, n_store n) of
        (t, s, out) \<Rightarrow> (n\<lparr>n_discovery := t, n_store := s\<rparr>, map To_defiads out))"
| "node_step N (Defiads_pool_event e) n =
     (case deliver (defiads_pool_thread (nc_crates N)) e (n_defiads_pool n, n_store n) of
        (t, s, out) \<Rightarrow> (n\<lparr>n_defiads_pool := t, n_store := s\<rparr>, out))"
| "node_step N (Defiads_keep_event e) n =
     (case deliver (keep_connected_thread ''defiads'') e (n_defiads_keep n, n_store n) of
        (t, s, out) \<Rightarrow> (n\<lparr>n_defiads_keep := t, n_store := s\<rparr>, map (Connect_to ''defiads'') out))"
| "node_step N (Download_event e) n =
     (case deliver_locked download_access (download_left (nc_crates N) (nc_wallet N) (nc_chain N))
             (download_thread (nc_crates N) (nc_wallet N) (nc_chain N)) e
             (map_option (\<lambda>p. (p, n_chain n)) (n_download n), n_store n, n_lost n) of
        (t, s, lost, out) \<Rightarrow>
          (n\<lparr>n_download := map_option fst t, n_chain := (case t of None \<Rightarrow> n_chain n | Some (_, d) \<Rightarrow> d),
             n_store := s, n_lost := lost\<rparr>, map To_bitcoin out))"
| "node_step N (Sendtx_event e) n =
     (case deliver (sendtx_thread (nc_crates N) (nc_lru N)) e (n_sendtx n, n_store n) of
        (t, s, out) \<Rightarrow> (n\<lparr>n_sendtx := t, n_store := s\<rparr>, map To_bitcoin out))"
| "node_step N (Bitcoin_pool_event e) n =
     (case deliver (bitcoin_pool_thread (nc_crates N)) e (n_bitcoin_pool n, n_store n) of
        (t, s, out) \<Rightarrow> (n\<lparr>n_bitcoin_pool := t, n_store := s\<rparr>, out))"
| "node_step N (Bitcoin_keep_event e) n =
     (case deliver (keep_connected_thread ''bitcoin'') e (n_bitcoin_keep n, n_store n) of
        (t, s, out) \<Rightarrow> (n\<lparr>n_bitcoin_keep := t, n_store := s\<rparr>, map (Connect_to ''bitcoin'') out))"
| "node_step N (Api_event e) n =
     (case deliver_locked (api_access (nc_api N) (nc_crates N)) api_left
             (api_thread (nc_api N) (nc_crates N) (nc_wallet N) (chaindb_trunk (view (nc_chain N) (n_chain n)))) e
             (n_api n, n_store n, n_lost n) of
        (t, s, lost, out) \<Rightarrow>
          (n\<lparr>n_api := if nc_http_goes_on N then n_api n else t, n_store := s, n_lost := lost\<rparr>, map Answer out))"

fun node_run ::
  "('p, 'k, 'c, 'm, 'u, 'd, 'l) node_crates \<Rightarrow> ('i, 'j, 'p, 'k) node_event list \<Rightarrow> ('i, 'j, 'c, 'm, 'd, 'l) node
   \<Rightarrow> ('i, 'j, 'c, 'm, 'd, 'l) node \<times> ('i, 'j, 'p, 'k) node_output list" where
  "node_run N [] n = (n, [])"
| "node_run N (e # es) n =
     (case node_step N e n of (n', out) \<Rightarrow>
        (case node_run N es n' of (n'', outs) \<Rightarrow> (n'', out @ outs)))"

section \<open>Every run of the node\<close>

fun node_event_wf :: "('i, 'j, 'p, 'k) node_event \<Rightarrow> bool" where
  "node_event_wf (Updater_event e) = loop_event_wf (snd (snd (snd e)))"
| "node_event_wf (Discovery_event e) = loop_event_wf (snd (snd (snd (snd e))))"
| "node_event_wf (Defiads_pool_event e) = biadnet_event_wf (event_message e)"
| "node_event_wf (Bitcoin_pool_event e) = bitcoin_event_wf (event_message e)"
| "node_event_wf _ = True"

definition node_ok :: "('p, 'k) crates \<Rightarrow> ('i, 'j, 'c, 'm, 'd, 'l) node \<Rightarrow> bool" where
  "node_ok C n \<longleftrightarrow> shared_ok C (n_store n) \<and> pred_option (\<lambda>p. discovery_wf (fst p)) (n_discovery n)
     \<and> pred_option peers_wf (n_defiads_pool n) \<and> pred_option peers_wf (n_bitcoin_pool n)"

lemmas delivered_address_moves = discovery.delivered(2) defiads_pool.delivered(2) bitcoin_pool.delivered(2)

lemmas delivered_moves =
  updater.locked_delivered(2) download.locked_delivered(2) api.locked_delivered(2) sendtx.delivered(2)
  keep.delivered(2) delivered_address_moves [THEN address_moves]

lemma node_step_moves:
  assumes "node_ok (nc_crates N) n" and "node_event_wf e"
  shows "(node_move (nc_crates N) (nc_wallet N))\<^sup>*\<^sup>* (n_store n) (n_store (fst (node_step N e n)))"
  using assms
  by (cases e) (auto simp: node_ok_def case_prod_unfold Let_def option.pred_True
      intro!: delivered_moves)

lemma node_step_states:
  assumes "node_ok (nc_crates N) n" and "node_event_wf e"
  shows "pred_option (\<lambda>p. discovery_wf (fst p)) (n_discovery (fst (node_step N e n)))
    \<and> pred_option peers_wf (n_defiads_pool (fst (node_step N e n)))
    \<and> pred_option peers_wf (n_bitcoin_pool (fst (node_step N e n)))"
  using assms discovery.delivered(1) defiads_pool.delivered(1) bitcoin_pool.delivered(1)
  by (cases e) (auto simp: node_ok_def case_prod_unfold Let_def)

lemma node_step_ok:
  assumes "crates_ok (nc_crates N)" and "node_ok (nc_crates N) n" and "node_event_wf e"
  shows "node_ok (nc_crates N) (fst (node_step N e n))"
  using node_moves_ok [OF node_step_moves [OF assms(2,3)] assms(1)] node_step_states [OF assms(2,3)] assms(2)
  by (simp add: node_ok_def)

lemma node_run_ok:
  assumes "crates_ok (nc_crates N)" and "node_ok (nc_crates N) n" and "\<forall>e \<in> set es. node_event_wf e"
  shows "node_ok (nc_crates N) (fst (node_run N es n))
    \<and> (node_move (nc_crates N) (nc_wallet N))\<^sup>*\<^sup>* (n_store n) (n_store (fst (node_run N es n)))"
  using assms(2,3)
proof (induction es arbitrary: n)
  case (Cons e es)
  let ?n = "fst (node_step N e n)"
  have "node_ok (nc_crates N) ?n" using node_step_ok [OF assms(1) Cons.prems(1)] Cons.prems(2) by simp
  moreover have "(node_move (nc_crates N) (nc_wallet N))\<^sup>*\<^sup>* (n_store n) (n_store ?n)"
    using node_step_moves [OF Cons.prems(1)] Cons.prems(2) by simp
  ultimately show ?case
    using Cons.IH [of ?n] Cons.prems(2) by (auto simp: case_prod_unfold)
qed simp

text \<open>
  C3. The node refines the machine of its store. Whatever peers of both networks send and clients ask, in
  every interleaving of the threads, and whichever handlers panic or do not return, the shared store goes from state to
  state by steps of the store, by the first transaction of a block whose handler got no further, and by
  storing well-formed addresses only.
\<close>

theorem node_refines_store:
  assumes "crates_ok (nc_crates N)" and "node_ok (nc_crates N) n" and "\<forall>e \<in> set es. node_event_wf e"
    and "node_run N es n = (n', outs)"
  shows "(node_move (nc_crates N) (nc_wallet N))\<^sup>*\<^sup>* (n_store n) (n_store n')"
  using node_run_ok [OF assms(1-3)] assms(4) by simp

section \<open>What the node asks for is well typed\<close>

lemma collect_requests_typed:
  "\<forall>e \<in> set es. entry_typed content_key_wf e \<Longrightarrow> i \<in> set (collect_requests es) \<Longrightarrow> length i = DIGEST_LEN"
  by (induction es rule: collect_requests.induct) (auto simp: content_key_wf_def)

lemma on_content_iblt_typed:
  assumes "on_content_iblt C fuel T pid tip t s = Ok (Some (s', acts))" and "iblt_typed content_key_wf t"
    and "caches_typed s" and "Send_network q (Get ids) \<in> set acts"
  shows "\<forall>i \<in> set ids. length i = DIGEST_LEN"
proof -
  let ?K = "content_key_ops (hashing C)"
  obtain u d es where u: "get_iblt C (iblt_len t) s = Ok (u, s')" and d: "substract ?K t u = Ok d"
    and es: "iblt_entries fuel ?K (iblt_iterator_new ?K d) = Ok (Some es)" and ids: "ids = collect_requests es"
    using assms(1,4) by (auto simp: on_content_iblt_def Let_def split: option.splits if_splits)
  have "iblt_typed content_key_wf d"
    using content_key.substract_typed [OF d assms(2)] get_iblt_typed(2) [OF u assms(3)] by blast
  then show ?thesis using content_key.listing_typed [OF es] collect_requests_typed by (auto simp: ids)
qed

lemma updater_message_typed:
  assumes "updater_message C fuel T busy m (asked, s) = Some (Ok (asked', s', acts))" and "biadnet_event_wf m"
    and "caches_typed s" and "Send_network q (Get ids) \<in> set acts"
  shows "\<forall>i \<in> set ids. length i = DIGEST_LEN"
  using assms
proof (cases "(C, fuel, T, busy, m, (asked, s))" rule: updater_message.cases)
  case (3 C fuel T busy pid poll asked s)
  with assms(1,4) show ?thesis
    by (auto simp: on_poll_content_def poll_content_def own_poll_def Let_def
        split: option.splits if_splits prod.splits)
next
  case (4 C fuel T busy pid tip t asked s)
  with assms show ?thesis by (auto dest: on_content_iblt_typed)
qed (auto simp: poll_content_def own_poll_def on_content_def on_get_def map_filter_def split: option.splits)

text \<open>Discovery speaks of addresses only.\<close>

fun address_message :: "('p, 'k) message \<Rightarrow> bool" where
  "address_message (PollAddress _) = True"
| "address_message (AddressIBLT _) = True"
| "address_message _ = False"

lemma discovery_sends:
  assumes "discovery_message H fuel r0 r1 now m (p, d) = Some (Ok (p', d', acts))" and "Send_network q x \<in> set acts"
  shows "address_message x"
  using assms
  by (cases "(H, fuel, r0, r1, now, m, (p, d))" rule: discovery_message.cases)
    (auto simp: discovery_connected_def poll_address_def on_poll_address_def on_address_iblt_def Let_def
      split: option.splits if_splits prod.splits)

lemma discovery_tick_sends:
  assumes "discovery_tick H now chosen (p, d) = Ok (p', d', acts)" and "Send_network q x \<in> set acts"
  shows "address_message x"
  using assms by (cases chosen) (auto simp: discovery_tick_def Let_def)

lemma discovery_thread_sends:
  assumes "Send_network q x \<in> set (snd (snd (deliver (discovery_thread C) e (st, s))))"
  shows "address_message x"
  using assms
  by (rule deliver_out)
    (auto simp: discovery_thread_def Let_def split: prod.splits loop_event.splits if_splits
      dest: discovery_sends discovery_tick_sends)

lemma on_tick_no_get: "Send_network q (Get ids) \<notin> set (snd (on_tick C T s chosen asked))"
  by (auto simp: on_tick_def own_poll_def split: option.splits)

lemma updater_thread_typed:
  assumes "Send_network q (Get ids)
      \<in> set (snd (snd (snd (deliver_locked access left (updater_thread C T) e (st, s, lost)))))"
    and "loop_event_wf (snd (snd (snd e)))" and "caches_typed s"
  shows "\<forall>i \<in> set ids. length i = DIGEST_LEN"
  using assms(1)
proof (rule deliver_locked_out)
  fix p p' s' acts
  obtain fuel busy now ev where e: "e = (fuel, busy, now, ev)" by (cases e)
  assume r: "updater_thread C T e (p, s) = Some (Ok (p', s', acts))" and x: "Send_network q (Get ids) \<in> set acts"
  show ?thesis
  proof (cases ev)
    case (Message m)
    with r obtain asked' where "updater_message C fuel T busy m (fst p, s) = Some (Ok (asked', s', acts))"
      by (auto simp: updater_thread_def e split: prod.splits)
    then show ?thesis using updater_message_typed x assms(2,3) by (simp add: e Message)
  next
    case (Idle chosen)
    with r x on_tick_no_get [of q ids C T s chosen "fst p"] show ?thesis
      by (auto simp: updater_thread_def e Let_def split: prod.splits if_splits)
  qed
qed

lemma node_step_typed:
  assumes "node_ok (nc_crates N) n" and "node_event_wf e"
    and "To_defiads (Send_network q (Get ids)) \<in> set (snd (node_step N e n))"
  shows "\<forall>i \<in> set ids. length i = DIGEST_LEN"
proof (cases e)
  case (Updater_event x)
  with assms show ?thesis
    by (intro updater_thread_typed [where e = x and st = "n_updater n" and s = "n_store n" and lost = "n_lost n"])
      (auto simp: case_prod_unfold Let_def node_ok_def shared_ok_def)
next
  case (Discovery_event x)
  with assms(3) show ?thesis by (auto simp: case_prod_unfold dest!: discovery_thread_sends)
qed (use assms(3) in \<open>auto simp: case_prod_unfold\<close>)

text \<open>
  Whatever table a peer fills in, the digests the node asks for are digests: the decoder types the
  keys of a received table, the operations of a table keep the type, and so the conversion of a
  listed key into a digest, which is unwrapped in the code, succeeds in every run.
\<close>

lemma requests_well_typed:
  assumes "crates_ok (nc_crates N)" and "node_ok (nc_crates N) n" and "\<forall>e \<in> set es. node_event_wf e"
    and "node_run N es n = (n', outs)" and "To_defiads (Send_network q (Get ids)) \<in> set outs"
  shows "\<forall>i \<in> set ids. length i = DIGEST_LEN"
  using assms(2-)
proof (induction es arbitrary: n n' outs)
  case (Cons e es)
  obtain n1 o1 n2 o2 where r: "node_step N e n = (n1, o1)" "node_run N es n1 = (n2, o2)" by fastforce
  with Cons.prems(3,4) consider "To_defiads (Send_network q (Get ids)) \<in> set o1"
    | "To_defiads (Send_network q (Get ids)) \<in> set o2" by auto
  then show ?case
  proof cases
    case 1
    then show ?thesis using node_step_typed [OF Cons.prems(1), of e q ids] Cons.prems(2) r by simp
  next
    case 2
    have "node_ok (nc_crates N) n1" using node_step_ok [OF assms(1) Cons.prems(1)] Cons.prems(2) r(1)
      by (metis fst_conv list.set_intros(1))
    with 2 Cons.IH [OF _ _ r(2)] Cons.prems(2) show ?thesis by simp
  qed
qed simp

section \<open>When the lock of the store is lost\<close>

lemma updater_message_unlocked:
  assumes "updater_message C fuel T busy m (asked, s) = Some (Ok (asked', s', acts))" and "message_access asked m = None"
  shows "acts = []"
  using assms by (cases "(C, fuel, T, busy, m, (asked, s))" rule: updater_message.cases) auto

lemma updater_lost_sends:
  "Send_network q x \<notin> set (snd (snd (snd (deliver_locked updater_access left (updater_thread C T) e (st, s, True)))))"
proof
  assume "Send_network q x \<in> set (snd (snd (snd (deliver_locked updater_access left (updater_thread C T) e (st, s, True)))))"
  then show False
    by (rule deliver_locked_out)
      (auto simp: updater_thread_def updater_access_def Let_def split: prod.splits loop_event.splits if_splits
        dest: updater_message_unlocked)
qed

lemma api_lost_answers:
  "Inr r \<notin> set (snd (snd (snd (deliver_locked (api_access A C) left (api_thread A C W T) e (st, s, True)))))"
proof
  assume "Inr r \<in> set (snd (snd (snd (deliver_locked (api_access A C) left (api_thread A C W T) e (st, s, True)))))"
  then show False
  proof (rule deliver_locked_out)
    fix api_key key' s' out
    assume r: "api_thread A C W T e (api_key, s) = Some (Ok (key', s', out))" "Inr r \<in> set out"
      and none: "True \<longrightarrow> api_access A C e (api_key, s) = None"
    obtain rnd fuel name p where e: "e = (rnd, fuel, name, p)" by (cases e)
    with none obtain err where "api_call A C W T rnd fuel api_key name p s = Some (Ok (Inl err), s)"
      using api_call_unlocked by blast
    with r show False by (auto simp: e api_thread_def)
  qed
qed

definition contentless :: "('i, 'j, 'p, 'k) node_output list \<Rightarrow> bool" where
  "contentless outs \<longleftrightarrow> list_all (\<lambda>x. case x of
       To_defiads (Send_network q m) \<Rightarrow> address_message m
     | Answer (Inr r) \<Rightarrow> False
     | _ \<Rightarrow> True) outs"

lemma contentlessI:
  assumes "\<And>q m. To_defiads (Send_network q m) \<in> set outs \<Longrightarrow> address_message m"
    and "\<And>r. Answer (Inr r) \<notin> set outs"
  shows "contentless outs"
  unfolding contentless_def list_all_iff
  by (auto split: node_output.splits action.splits sum.splits dest: assms(1)) (use assms(2) in blast)

lemma node_step_lost:
  assumes "n_lost n" and "node_ok (nc_crates N) n" and "node_event_wf e"
  shows "n_lost (fst (node_step N e n))" and "same_but_addresses (n_store (fst (node_step N e n))) (n_store n)"
    and "contentless (snd (node_step N e n))"
proof -
  show "n_lost (fst (node_step N e n))"
    using assms(1) updater.lost_delivered(2) download.lost_delivered(2) api.lost_delivered(2)
    by (cases e) (auto simp: case_prod_unfold Let_def)
  show "same_but_addresses (n_store (fst (node_step N e n))) (n_store n)"
    using assms
    by (cases e)
      (auto simp: case_prod_unfold Let_def node_ok_def option.pred_True updater.lost_delivered(1) download.lost_delivered(1)
        api.lost_delivered(1) keep.unmoved sendtx.unmoved intro!: delivered_address_moves [THEN address_moves_frame])
  show "contentless (snd (node_step N e n))"
  proof (rule contentlessI)
    fix q m
    assume "To_defiads (Send_network q m) \<in> set (snd (node_step N e n))"
    with assms(1) show "address_message m"
      by (cases e) (auto simp: case_prod_unfold Let_def updater_lost_sends dest: discovery_thread_sends)
  next
    fix r
    show "Answer (Inr r) \<notin> set (snd (node_step N e n))"
      using assms(1) by (cases e) (auto simp: case_prod_unfold Let_def api_lost_answers)
  qed
qed

lemma node_run_lost:
  assumes "crates_ok (nc_crates N)" and "n_lost n" and "node_ok (nc_crates N) n" and "\<forall>e \<in> set es. node_event_wf e"
    and "node_run N es n = (n', outs)"
  shows "n_lost n' \<and> same_but_addresses (n_store n') (n_store n) \<and> contentless outs"
  using assms(2-)
proof (induction es arbitrary: n n' outs)
  case (Cons e es)
  obtain n1 o1 n2 o2 where r: "node_step N e n = (n1, o1)" "node_run N es n1 = (n2, o2)" by fastforce
  have wf: "node_event_wf e" "\<forall>e \<in> set es. node_event_wf e" using Cons.prems(3) by simp_all
  note one = node_step_lost [OF Cons.prems(1,2) wf(1), unfolded r fst_conv snd_conv]
  have "node_ok (nc_crates N) n1" using node_step_ok [OF assms(1) Cons.prems(2) wf(1)] by (simp add: r)
  from Cons.IH [OF one(1) this wf(2) r(2)] one r Cons.prems(4) show ?case
    by (auto simp: contentless_def intro: same_but_addresses_trans)
qed (simp add: contentless_def)

lemma node_step_updater_stopped: "n_updater n = None \<Longrightarrow> n_updater (fst (node_step N e n)) = None"
  by (cases e) (auto simp: case_prod_unfold Let_def deliver_locked_def)

lemma node_run_updater_stopped: "n_updater n = None \<Longrightarrow> n_updater (fst (node_run N es n)) = None"
  by (induction es arbitrary: n) (auto simp: case_prod_unfold node_step_updater_stopped)

lemma malformed_poll_loses_lock:
  assumes "n_updater n = Some (asked, last_polled)" and "asked pid = Some q"
    and "store_get_tip (nc_crates N) (chaindb_trunk (view (nc_chain N) (n_chain n))) = Some tip"
    and "pc_tip q = tip" and "pc_tip poll = tip" and "length (pc_sketch poll) \<noteq> length (pc_sketch q)"
  shows "node_step N (Updater_event (fuel, busy, now, Message (Peer_incoming pid (PollContent poll)))) n
     = (n\<lparr>n_updater := None, n_lost := True\<rparr>, [])"
proof -
  have "on_poll_content (nc_crates N) (chaindb_trunk (view (nc_chain N) (n_chain n))) pid poll (n_store n, asked)
      = Panic Assert_failed"
    using assms(2-6) by (simp add: on_poll_content_def estimate_diff_size_def Let_def)
  then show ?thesis
    by (auto simp: assms(1,2) deliver_locked_def updater_thread_def updater_access_def updater_left_def Let_def
        intro!: node.equality)
qed

text \<open>
  C34. One message ends the exchange of content. A peer that was polled answers, naming the same tip,
  with a sketch of another length; comparing the sketches fails an assertion under the lock of the store, which is poisoned.
  From then on, whatever happens, the updater is gone, the store changes in nothing but the addresses, the node
  sends its peers nothing but addresses, and no request of a client is answered with a result.
\<close>

theorem one_poll_ends_exchange:
  assumes "crates_ok (nc_crates N)" and "node_ok (nc_crates N) n" and "n_updater n = Some (asked, last_polled)"
    and "asked pid = Some q"
    and "store_get_tip (nc_crates N) (chaindb_trunk (view (nc_chain N) (n_chain n))) = Some tip"
    and "pc_tip q = tip" and "pc_tip poll = tip" and "length (pc_sketch poll) \<noteq> length (pc_sketch q)"
    and "\<forall>e \<in> set es. node_event_wf e"
    and "node_run N (Updater_event (fuel, busy, now, Message (Peer_incoming pid (PollContent poll))) # es) n = (n', outs)"
  shows "n_updater n' = None \<and> same_but_addresses (n_store n') (n_store n)
    \<and> (\<forall>p m. To_defiads (Send_network p m) \<in> set outs \<longrightarrow> address_message m)
    \<and> (\<forall>r. Answer (Inr r) \<notin> set outs)"
proof -
  let ?n = "n\<lparr>n_updater := None, n_lost := True\<rparr>"
  have run: "node_run N es ?n = (n', outs)"
    using assms(10) by (simp add: malformed_poll_loses_lock [OF assms(3-8)] del: node_step.simps split: prod.splits)
  have ok: "node_ok (nc_crates N) ?n" using assms(2) by (simp add: node_ok_def)
  have lost: "n_lost ?n" by simp
  have "n_updater n' = None" using node_run_updater_stopped [of ?n N es] by (simp add: run)
  moreover have "same_but_addresses (n_store n') (n_store n) \<and> contentless outs"
    using node_run_lost [OF assms(1) lost ok assms(9) run] by simp
  ultimately show ?thesis by (fastforce simp: contentless_def list_all_iff)
qed

text \<open>
  An unasked table of addresses with an address in one of its buckets only: its listing, for which the code holds the
  lock of the database, never ends, and discovery is gone.
\<close>

lemma rogue_addresses_stop_discovery:
  assumes "n_discovery n = Some (p, last_polled)" and "iblt_sent p pid = None" and "iblt_ok t" and "net_address_wf a"
    and "key_buckets (net_address_ops (hashing (nc_crates N))) t a = Ok ns" and "i \<in> set ns" and "2 \<le> length ns"
  shows "node_step N (Discovery_event (fuel, r0, r1, now, Message (Peer_incoming pid (AddressIBLT
      (rogue_table (net_address_ops (hashing (nc_crates N))) t a {i} 1))))) n = (n\<lparr>n_discovery := None\<rparr>, [])"
  using net_address.rogue_diverges [OF assms(3-7), of fuel]
  by (auto simp: assms(1,2) deliver_def discovery_thread_def on_address_iblt_def Let_def intro!: node.equality)

end
