(* ===== verification/Sync_Round.thy ===== *)
theory Sync_Round
  imports Updater
begin

text \<open>
  A round of content exchange between two nodes, as the handlers of both ends play it: a table of the
  peer arrives, the missing content is asked for, the peer answers the request, and what it sends
  is admitted.
\<close>

section \<open>Truncation that drops nothing\<close>

lemma fitting_all: "n + total_length rs \<le> limit \<Longrightarrow> fitting limit n rs = rs"
  by (induction limit n rs rule: fitting.induct) (auto simp: total_length_def)

lemma excess_rows_none:
  assumes "total_length (content_tbl d) \<le> unat limit"
  shows "excess_rows limit d = []"
proof -
  have "total_length (by_weight_desc (content_tbl d)) = total_length (content_tbl d)"
    by (rule total_length_mset) (simp add: by_weight_desc_def)
  with assms show ?thesis by (simp add: excess_rows_def Let_def fitting_all)
qed

lemma truncate_to_limit_noop:
  assumes "crates_ok C" and "db_ok C (sdb s)" and "total_length (content_tbl (sdb s)) \<le> unat (storage_limit s)"
  shows "truncate_to_limit C s = Ok s"
proof -
  have "total_length (content_tbl (sdb s)) < 2 ^ 64"
    using assms(3) unsigned_less [of "storage_limit s", where 'a = nat] by simp
  then show ?thesis
    using truncate_content_eq [OF assms(1,2)] excess_rows_none [OF assms(3)]
    by (simp add: truncate_to_limit_def drop_keys_def)
qed

section \<open>Content a peer can hand on\<close>

text \<open>
  A row is servable if what is read from it is content with the digest of the row, of the stored
  length, funded on the trunk: what a node that stored it on the same trunk holds, as long as
  the text has the encoding \<^verbatim>\<open>Text::new\<close> gives.
\<close>

definition servable :: "('p, 'k) crates \<Rightarrow> trunk \<Rightarrow> db \<Rightarrow> content_row \<Rightarrow> ('p, 'k) content \<Rightarrow> bool" where
  "servable C T d r c \<longleftrightarrow> read_content C (digest (row_key C r)) d = Ok (Some c)
     \<and> ad_digest C (ad c) = digest (row_key C r) \<and> row_length r = content_length C c \<and> ad_fits C (ad c)
     \<and> (\<exists>height hdr out. funded C T c height hdr out)
     \<and> (\<exists>str. text_as_string (texts C) (ad_content (ad c)) = Ok (Inr str))"

text \<open>What a node receives, one message after the other; \<open>busy\<close> is the answer of the timeout book-keeping.\<close>

definition receive_contents ::
  "('p, 'k) crates \<Rightarrow> trunk \<Rightarrow> 'i \<Rightarrow> (('p, 'k) content \<Rightarrow> bool) \<Rightarrow> ('p, 'k) content list \<Rightarrow> ('c, 'm) store
   \<Rightarrow> ('c, 'm) store outcome" where
  "receive_contents C T pid busy =
     ofold (\<lambda>c s. obind (on_content C T pid (busy c) c s) (\<lambda>(s', acts :: ('i, 'p, 'k) action list). Ok s'))"

lemma on_content_admits:
  assumes "crates_ok C" and "store_ok C s" and "servable C T d r c"
    and "row_key C r \<notin> set (content_keys C (sdb s))"
    and "total_length (content_tbl (sdb s)) + unat (row_length r) \<le> unat (storage_limit s)"
  shows "\<exists>s'. on_content C T pid b c s = Ok (s', [Received pid 1 Expect_Content]) \<and> store_ok C s'
    \<and> storage_limit s' = storage_limit s \<and> set (content_keys C (sdb s')) = insert (row_key C r) (set (content_keys C (sdb s)))
    \<and> total_length (content_tbl (sdb s')) = total_length (content_tbl (sdb s)) + unat (row_length r)"
proof -
  obtain height hdr out str where f: "funded C T c height hdr out"
    and str: "text_as_string (texts C) (ad_content (ad c)) = Ok (Inr str)"
    and c: "ad_digest C (ad c) = digest (row_key C r)" "row_length r = content_length C c" "ad_fits C (ad c)"
    using assms(3) by (auto simp: servable_def)
  then have key: "\<lparr>digest = ad_digest C (ad c)\<rparr> = row_key C r" by simp
  let ?row = "content_row_of C height (header_hash C hdr) c (out_value out) str"
  obtain s1 where s1: "add_content C T c s = Ok (True, s1)" "store_ok C s1" "content_tbl (sdb s1) = content_tbl (sdb s) @ [?row]"
    using admit_new [OF assms(1,2) f c(3) str] assms(4) key by auto
  have "storage_limit s1 = storage_limit s"
    using s1(1) by (auto simp: add_content_def Let_def split: option.splits if_splits)
  moreover have len: "total_length (content_tbl (sdb s1)) = total_length (content_tbl (sdb s)) + unat (row_length r)"
    by (simp add: s1(3) total_length_def content_row_of_def c(2))
  ultimately have "truncate_to_limit C s1 = Ok s1"
    using s1(2) assms(5) by (intro truncate_to_limit_noop [OF assms(1)]) (auto simp: store_ok_def)
  moreover have "set (content_keys C (sdb s1)) = insert (row_key C r) (set (content_keys C (sdb s)))"
    using row_ok_content_row_of(2) [OF assms(1)] key by (simp add: content_keys_def s1(3))
  ultimately show ?thesis
    using s1(1,2) len \<open>storage_limit s1 = storage_limit s\<close> by (simp add: on_content_def)
qed

lemma receive_contents_admits:
  assumes "crates_ok C" and "store_ok C s" and "list_all2 (servable C T d) rs cs" and "distinct (map (row_key C) rs)"
    and "set (map (row_key C) rs) \<inter> set (content_keys C (sdb s)) = {}"
    and "total_length (content_tbl (sdb s)) + total_length rs \<le> unat (storage_limit s)"
  shows "\<exists>s'. receive_contents C T pid busy cs s = Ok s' \<and> store_ok C s'
    \<and> set (content_keys C (sdb s')) = set (content_keys C (sdb s)) \<union> row_key C ` set rs"
  using assms(3,2,4-6)
proof (induction rs cs arbitrary: s rule: list_all2_induct)
  case Nil
  then show ?case by (simp add: receive_contents_def)
next
  case (Cons r rs c cs)
  obtain s1 where s1: "on_content C T pid (busy c) c s = Ok (s1, [Received pid 1 Expect_Content])" "store_ok C s1"
    "storage_limit s1 = storage_limit s" "set (content_keys C (sdb s1)) = insert (row_key C r) (set (content_keys C (sdb s)))"
    "total_length (content_tbl (sdb s1)) = total_length (content_tbl (sdb s)) + unat (row_length r)"
    using on_content_admits [OF assms(1) Cons.prems(1) Cons.hyps(1), of pid "busy c"] Cons.prems(3,4)
    by (auto simp: total_length_def)
  have "\<exists>s'. receive_contents C T pid busy cs s1 = Ok s' \<and> store_ok C s'
      \<and> set (content_keys C (sdb s')) = set (content_keys C (sdb s1)) \<union> row_key C ` set rs"
    by (rule Cons.IH) (use Cons.prems s1 in \<open>auto simp: total_length_def\<close>)
  then show ?case using s1(1,4) by (auto simp: receive_contents_def)
qed

section \<open>The round\<close>

lemma total_length_subset:
  assumes "distinct rs" and "distinct qs" and "set rs \<subseteq> set qs"
  shows "total_length rs \<le> total_length qs"
  using assms by (simp add: total_length_def sum_list_distinct_conv_sum_set sum_mono2)

lemma requested_rows:
  assumes "distinct ids" and "set ids \<subseteq> digest ` set (content_keys C d)" and "db_ok C d"
  obtains rs where "map (\<lambda>r. digest (row_key C r)) rs = ids" "set rs \<subseteq> set (content_tbl d)"
    "distinct (map (row_key C) rs)" "total_length rs \<le> total_length (content_tbl d)"
proof -
  have "\<forall>i \<in> set ids. \<exists>r \<in> set (content_tbl d). digest (row_key C r) = i"
    using assms(2) by (auto simp: content_keys_def)
  then obtain f where f: "\<And>i. i \<in> set ids \<Longrightarrow> f i \<in> set (content_tbl d) \<and> digest (row_key C (f i)) = i"
    by metis
  then have rows: "map (\<lambda>r. digest (row_key C r)) (map f ids) = ids" "set (map f ids) \<subseteq> set (content_tbl d)"
    by (auto intro: map_idI)
  have "distinct (map digest (map (row_key C) (map f ids)))" using rows(1) assms(1) by (simp add: comp_def)
  then have keys: "distinct (map (row_key C) (map f ids))" by (simp only: distinct_map)
  moreover have "total_length (map f ids) \<le> total_length (content_tbl d)"
    by (rule total_length_subset) (use keys rows(2) assms(3) in \<open>auto simp: distinct_map db_ok_def dest: inj_on_imageI2\<close>)
  ultimately show thesis using that [of "map f ids"] rows by blast
qed

lemma on_get_servable:
  assumes "list_all2 (servable C T (sdb s)) rs cs"
  shows "on_get C pid (map (\<lambda>r. digest (row_key C r)) rs) s = Ok (map (\<lambda>c. Send_network pid (Content c)) cs)"
proof -
  have "omap (\<lambda>i. expect_ok ''can not read content'' (get_content C i s)) (map (\<lambda>r. digest (row_key C r)) rs)
      = Ok (map Some cs)"
    using assms by (induction rs cs rule: list_all2_induct) (simp_all add: servable_def get_content_def)
  then show ?thesis by (simp add: on_get_def map_filter_def comp_def)
qed

lemma digest_eq [simp]: "digest k = digest k' \<longleftrightarrow> k = (k' :: content_key)"
  by auto

lemma requested_keys:
  assumes "map (\<lambda>r. digest (row_key C r)) rs = ids" and "set rs \<subseteq> set (content_tbl d)"
    and "set ids \<subseteq> digest ` (set (content_keys C d) - S)"
  shows "row_key C ` set rs = {k \<in> set (content_keys C d) - S. digest k \<in> set ids}"
proof -
  have "row_key C r \<notin> S" if "r \<in> set rs" for r
  proof -
    have "digest (row_key C r) \<in> set ids" using that by (simp flip: assms(1))
    with assms(3) show ?thesis by auto
  qed
  then show ?thesis using assms(2) by (auto simp: content_keys_def simp flip: assms(1))
qed

lemma all_requested:
  assumes "mset (diff_entries xs ys) = mset (found @ rest)" and "rest = []"
  shows "set (map (\<lambda>e. digest (fst e)) (filter (\<lambda>e. snd e = 1) found)) = digest ` (set xs - set ys)"
proof -
  have "set found = set (diff_entries xs ys)" using mset_eq_setD [OF assms(1)] assms(2) by simp
  then have "e \<in> set found \<and> snd e = 1 \<longleftrightarrow> snd e = 1 \<and> fst e \<in> set xs - set ys" for e
    using diff_entries_inserted [of "fst e" xs ys] by (cases e) auto
  then have "fst ` {e \<in> set found. snd e = 1} = set xs - set ys" by force
  then show ?thesis by (simp flip: image_image add: image_set)
qed

lemma get_iblt_sdb: "get_iblt C n s = Ok (t, s') \<Longrightarrow> sdb s' = sdb s \<and> storage_limit s' = storage_limit s"
  by (auto simp: get_iblt_def split: option.splits)

lemma on_content_iblt_limit:
  "on_content_iblt C fuel T pid tip t s = Ok (Some (s', acts)) \<Longrightarrow> storage_limit s' = storage_limit s"
  by (auto simp: on_content_iblt_def Let_def dest!: get_iblt_sdb split: option.splits if_splits)

text \<open>
  C6. Two nodes at the same tip synchronise, when what the peer holds can be handed on. Let both
  be consistent, let every row of the peer be servable (what is read from it has the digest of the
  row and its funding holds on this trunk; an ad whose text is in an encoding \<^verbatim>\<open>Text::new\<close> would not
  have chosen is not), let the content of both together fit the storage limit, and let no bucket of
  the difference look like one of a single key that is not. When the peer serves its table, the node
  asks for content the peer holds and it does not; the peer answers with one message per
  digest; under these conditions every message is admitted, and the node is consistent again and
  holds its own content and what it asked for. If the listing finds the whole difference, it then
  holds everything both held; what it does not find shares its buckets with other keys that are
  not found either.
\<close>

theorem sync_round:
  assumes "crates_ok C" and "store_ok C ours" and "store_ok C theirs" and "n \<noteq> 0"
    and "get_iblt C n theirs = Ok (t, theirs')" and "store_get_tip C T = Some tip"
    and "iblt_new (hashing C) (content_key_ops (hashing C)) n NH K0 K1 = Ok t0"
    and "no_false_pure (content_key_ops (hashing C)) t0
           (diff_entries (content_keys C (sdb theirs)) (content_keys C (sdb ours)))"
    and "length (content_keys C (sdb theirs)) + length (content_keys C (sdb ours)) + 2 \<le> fuel"
    and "\<forall>r \<in> set (content_tbl (sdb theirs)). \<exists>c. servable C T (sdb theirs) r c"
    and "total_length (content_tbl (sdb ours)) + total_length (content_tbl (sdb theirs)) \<le> unat (storage_limit ours)"
  shows "\<exists>s1 s2 request cs found rest.
      on_content_iblt C fuel T pid tip t ours = Ok (Some (s1,
        if request \<noteq> []
        then [Received pid 1 Expect_ContentIBLT, Expect pid (length request) Expect_Content,
              Send_network pid (Get request)]
        else [Received pid 1 Expect_ContentIBLT]))
    \<and> on_get C qid request theirs' = Ok (map (\<lambda>c. Send_network qid (Content c)) cs)
    \<and> receive_contents C T pid busy cs s1 = Ok s2 \<and> store_ok C s2
    \<and> digest ` set (content_keys C (sdb s2)) = digest ` set (content_keys C (sdb ours)) \<union> set request
    \<and> mset (diff_entries (content_keys C (sdb theirs)) (content_keys C (sdb ours))) = mset (found @ rest)
    \<and> request = map (\<lambda>e. digest (fst e)) (filter (\<lambda>e. snd e = 1) found)
    \<and> (\<forall>b < unat n. length (entries_at (content_key_ops (hashing C)) t0 b rest) \<noteq> 1)
    \<and> (rest = [] \<longrightarrow> set (content_keys C (sdb s2)) = set (content_keys C (sdb ours)) \<union> set (content_keys C (sdb theirs)))"
proof -
  let ?ours = "content_keys C (sdb ours)" and ?theirs = "content_keys C (sdb theirs)"
  obtain s1 request found rest where q: "on_content_iblt C fuel T pid tip t ours = Ok (Some (s1,
        if request \<noteq> []
        then [Received pid 1 Expect_ContentIBLT, Expect pid (length request) Expect_Content,
              Send_network pid (Get request)]
        else [Received pid 1 Expect_ContentIBLT]))"
    and s1: "store_ok C s1" "sdb s1 = sdb ours"
    and req: "distinct request" "set request \<subseteq> digest ` (set ?theirs - set ?ours)"
    and found: "mset (diff_entries ?theirs ?ours) = mset (found @ rest)"
    and list: "request = map (\<lambda>e. digest (fst e)) (filter (\<lambda>e. snd e = 1) found)"
    and rest: "\<forall>b < unat n. length (entries_at (content_key_ops (hashing C)) t0 b rest) \<noteq> 1"
    using requests_missing_content [OF assms(1-9), of pid] by metis
  obtain rs where rs: "map (\<lambda>r. digest (row_key C r)) rs = request" "set rs \<subseteq> set (content_tbl (sdb theirs))"
    "distinct (map (row_key C) rs)" "total_length rs \<le> total_length (content_tbl (sdb theirs))"
    by (rule requested_rows [OF req(1), of C "sdb theirs"]) (use req(2) assms(3) in \<open>auto simp: store_ok_def\<close>)
  obtain g where g: "\<And>r. r \<in> set (content_tbl (sdb theirs)) \<Longrightarrow> servable C T (sdb theirs) r (g r)"
    using assms(10) by metis
  have cs: "list_all2 (servable C T (sdb theirs)) rs (map g rs)"
    using g rs(2) by (auto simp: list_all2_map2 list_all2_same)
  have keys: "row_key C ` set rs = {k \<in> set ?theirs - set ?ours. digest k \<in> set request}"
    by (rule requested_keys [OF rs(1,2) req(2)])
  obtain s2 where s2: "receive_contents C T pid busy (map g rs) s1 = Ok s2" "store_ok C s2"
    "set (content_keys C (sdb s2)) = set ?ours \<union> row_key C ` set rs"
    using receive_contents_admits [OF assms(1) s1(1) cs rs(3), of pid busy] keys rs(4) assms(11) s1(2)
      on_content_iblt_limit [OF q] by auto
  have "on_get C qid request theirs' = Ok (map (\<lambda>c. Send_network qid (Content c)) (map g rs))"
    using on_get_servable [of C T theirs' rs "map g rs" qid] cs rs(1) get_iblt_sdb [OF assms(5)] by simp
  moreover have "digest ` row_key C ` set rs = set request" using rs(1) by (auto simp: image_image simp flip: rs(1))
  moreover have "row_key C ` set rs = set ?theirs - set ?ours" if "rest = []"
    using keys all_requested [OF found that] by (auto simp flip: list)
  ultimately show ?thesis
    using q s2 found list rest by (intro exI [of _ s1] exI [of _ s2] exI [of _ request] exI [of _ "map g rs"]
        exI [of _ found] exI [of _ rest]) (auto simp: image_Un)
qed

end
