(* ===== verification/Run_Examples.thy ===== *)
theory Run_Examples
  imports Node_Examples Node Sync_Round
begin

text \<open>
  The small world as a whole: two nodes synchronise, and the threads of a node run.
\<close>

section \<open>A round of synchronisation\<close>

lemma demo_servable: "servable demo_crates demo_trunk demo_db1 (demo_row 65 1000) (demo_content 65)"
proof -
  obtain str where str: "text_as_string (texts demo_crates) (ad_content (ad (demo_content 65))) = Ok (Inr str)"
    "text_new (texts demo_crates) str = ad_content (ad (demo_content 65))"
    using demo_text(3) [of 65] by (auto elim: canonical_textE)
  then have "str = [65]" using demo_text(2) [of 65] by simp
  have "(demo_content 65)\<lparr>ad := ad_new demo_crates (ad_cat (ad (demo_content 65))) (ad_abs (ad (demo_content 65))) str\<rparr>
      = demo_content 65"
    using str(2) by (simp add: ad_new_eq_iff)
  then have "read_content demo_crates (ad_digest demo_crates (ad (demo_content 65))) demo_db1 = Ok (Some (demo_content 65))"
    using read_content_upsert [OF demo_crates_ok,
      where c = "demo_content 65" and d = db_empty and height = 0 and block_id = "replicate 32 1" and amount = 1000
        and s = str and tbl = "[]"]
    by (simp add: demo_db1_def demo_row_def upsert_def \<open>str = [65]\<close>)
  then show ?thesis
    using demo_funded [of 65] demo_fits [of 65] demo_text(2) [of 65] row_ok_content_row_of(2) [OF demo_crates_ok]
    by (auto simp: servable_def demo_row_def content_row_of_def)
qed

lemma demo_keys:
  "content_keys demo_crates (sdb (demo_open db_empty)) = []"
  "content_keys demo_crates (sdb (demo_open demo_db1)) = [row_key demo_crates (demo_row 65 1000)]"
  by (simp_all add: demo_open_def content_keys_def db_empty_def demo_db1_def)

lemma demo_diff:
  "diff_entries (content_keys demo_crates (sdb (demo_open demo_db1))) (content_keys demo_crates (sdb (demo_open db_empty)))
   = [(row_key demo_crates (demo_row 65 1000), 1)]"
  by (simp add: demo_keys diff_entries_def)

lemma demo_round:
  "no_false_pure (content_key_ops (hashing demo_crates)) t0 (diff_entries
      (content_keys demo_crates (sdb (demo_open demo_db1))) (content_keys demo_crates (sdb (demo_open db_empty))))"
  "length (content_keys demo_crates (sdb (demo_open demo_db1)))
      + length (content_keys demo_crates (sdb (demo_open db_empty))) + 2 \<le> 3"
  "\<forall>r \<in> set (content_tbl (sdb (demo_open demo_db1))). \<exists>c. servable demo_crates demo_trunk (sdb (demo_open demo_db1)) r c"
  "total_length (content_tbl (sdb (demo_open db_empty))) + total_length (content_tbl (sdb (demo_open demo_db1)))
      \<le> unat (storage_limit (demo_open db_empty))"
proof -
  show "no_false_pure (content_key_ops (hashing demo_crates)) t0 (diff_entries
      (content_keys demo_crates (sdb (demo_open demo_db1))) (content_keys demo_crates (sdb (demo_open db_empty))))"
    by (simp add: demo_diff no_false_pure_one)
  show "\<forall>r \<in> set (content_tbl (sdb (demo_open demo_db1))). \<exists>c. servable demo_crates demo_trunk (sdb (demo_open demo_db1)) r c"
    using demo_servable by (auto simp: demo_open_def demo_db1_def)
  show "total_length (content_tbl (sdb (demo_open db_empty))) + total_length (content_tbl (sdb (demo_open demo_db1)))
      \<le> unat (storage_limit (demo_open db_empty))"
    by (simp add: total_length_def demo_open_def db_empty_def demo_db1_def demo_row_sel)
qed (simp add: demo_keys)

theorem sync_round_witness:
  "\<exists>t theirs' s1 s2. get_iblt demo_crates 100 (demo_open demo_db1) = Ok (t, theirs')
    \<and> on_content_iblt demo_crates 3 demo_trunk (0 :: nat) (replicate 32 1) t (demo_open db_empty) = Ok (Some (s1,
        [Received 0 1 Expect_ContentIBLT, Expect 0 1 Expect_Content,
         Send_network 0 (Get [digest (row_key demo_crates (demo_row 65 1000))])]))
    \<and> (\<exists>c. on_get demo_crates (1 :: nat) [digest (row_key demo_crates (demo_row 65 1000))] theirs'
          = Ok [Send_network 1 (Content c)]
        \<and> receive_contents demo_crates demo_trunk (0 :: nat) (\<lambda>_. True) [c] s1 = Ok s2)
    \<and> store_ok demo_crates s2 \<and> set (content_keys demo_crates (sdb s2)) = {row_key demo_crates (demo_row 65 1000)}"
proof -
  let ?e = "(row_key demo_crates (demo_row 65 1000), 1 :: i32)"
  obtain t theirs' where t: "get_iblt demo_crates 100 (demo_open demo_db1) = Ok (t, theirs')"
    using get_iblt_table [OF demo_crates_ok demo_open_ok [OF demo_db1_ok], of 100] by auto
  obtain t0 where t0: "iblt_new (hashing demo_crates) (content_key_ops (hashing demo_crates)) 100 NH K0 K1 = Ok t0"
    using fresh_table [of 100 demo_crates] by auto
  obtain s1 s2 request cs found rest where q: "on_content_iblt demo_crates 3 demo_trunk (0 :: nat) (replicate 32 1) t
      (demo_open db_empty) = Ok (Some (s1,
        if request \<noteq> []
        then [Received 0 1 Expect_ContentIBLT, Expect 0 (length request) Expect_Content, Send_network 0 (Get request)]
        else [Received 0 1 Expect_ContentIBLT]))"
    and g: "on_get demo_crates (1 :: nat) request theirs' = Ok (map (\<lambda>c. Send_network 1 (Content c)) cs)"
    and r: "receive_contents demo_crates demo_trunk (0 :: nat) (\<lambda>_. True) cs s1 = Ok s2" "store_ok demo_crates s2"
    and found: "mset [?e] = mset (found @ rest)" and req: "request = map (\<lambda>e. digest (fst e)) (filter (\<lambda>e. snd e = 1) found)"
    and rest: "\<forall>b < unat (100 :: u32). length (entries_at (content_key_ops (hashing demo_crates)) t0 b rest) \<noteq> 1"
    and all: "rest = [] \<longrightarrow> set (content_keys demo_crates (sdb s2)) = set (content_keys demo_crates (sdb (demo_open db_empty)))
        \<union> set (content_keys demo_crates (sdb (demo_open demo_db1)))"
    using sync_round [OF demo_crates_ok demo_open_ok [OF db_empty_ok] demo_open_ok [OF demo_db1_ok] _ t demo_tip t0 demo_round,
        of "0 :: nat" "1 :: nat" "\<lambda>_. True", unfolded demo_diff]
    by auto
  have "rest = []" and req': "request = [digest (row_key demo_crates (demo_row 65 1000))]"
    using one_entry_found [OF t0 _ found rest] req by auto
  then have keys: "set (content_keys demo_crates (sdb s2)) = {row_key demo_crates (demo_row 65 1000)}"
    using all demo_keys by simp
  have "on_get demo_crates (1 :: nat) [digest (row_key demo_crates (demo_row 65 1000))] theirs'
      = Ok [Send_network 1 (Content (demo_content 65))]"
    using on_get_servable [of demo_crates demo_trunk theirs' "[demo_row 65 1000]" "[demo_content 65]" "1 :: nat"]
      demo_servable get_iblt_sdb [OF t] by (simp add: demo_open_def)
  moreover from this have "cs = [demo_content 65]" using g req' by (cases cs) auto
  moreover have "on_content_iblt demo_crates 3 demo_trunk (0 :: nat) (replicate 32 1) t (demo_open db_empty) = Ok (Some (s1,
        [Received 0 1 Expect_ContentIBLT, Expect 0 1 Expect_Content,
         Send_network 0 (Get [digest (row_key demo_crates (demo_row 65 1000))])]))"
    using q req' by simp
  ultimately show ?thesis using t r keys by blast
qed

section \<open>A running node\<close>

text \<open>A chain of one header, which never grows.\<close>

definition solo :: cached_header where
  "solo = \<lparr>stored_header = demo_header, stored_height = 0\<rparr>"

definition solo_chain :: "unit chain_crate" where
  "solo_chain =
     \<lparr>view = (\<lambda>_. \<lparr>pos_on_trunk = (\<lambda>p. if p = replicate 32 1 then Some 0 else None),
                   cdb_get_header = (\<lambda>p. if p = replicate 32 1 then Some solo else None),
                   cdb_get_header_for_height = (\<lambda>n. if n = 0 then Some solo else None), header_tip = Some solo\<rparr>),
      chain_add_header = (\<lambda>d _. (Inr None, d)), header_locators = (\<lambda>_. [replicate 32 1])\<rparr>"

definition solo_crates :: "(unit, unit, (out_point \<times> coin) list, unit, unit, unit, list_cache) node_crates" where
  "solo_crates = \<lparr>nc_crates = demo_crates, nc_wallet = demo_wallet_crates, nc_chain = solo_chain, nc_lru = list_lru,
     nc_api = demo_api, nc_http_goes_on = True\<rparr>"

definition solo_node :: "(nat, nat, (out_point \<times> coin) list, unit, unit, list_cache) node" where
  "solo_node = \<lparr>n_store = demo_open db_empty, n_lost = False, n_chain = (), n_updater = Some (updater_new 0), n_discovery = None,
     n_defiads_pool = Some defiads_pool_new, n_defiads_keep = None, n_download = None, n_sendtx = None,
     n_bitcoin_pool = None, n_bitcoin_keep = None, n_api = Some [107]\<rparr>"

lemma solo_node_ok: "node_ok (nc_crates solo_crates) solo_node"
  by (simp add: node_ok_def shared_ok_def solo_crates_def solo_node_def demo_open_def db_empty_ok addresses_ok_empty
      caches_typed_def tables_typed_def peers_wf_def defiads_pool_new_def)

text \<open>A peer with one ad connects and serves its table.\<close>

definition solo_events :: "(nat, nat, unit, unit) node_event list" where
  "solo_events =
     [Defiads_pool_event (0, 0, 1000000, Peer_connected 0 (Some peer_a)),
      Updater_event (3, False, 0, Message (Peer_incoming 0 (ContentIBLT (replicate 32 1)
        (case get_iblt demo_crates 100 (demo_open demo_db1) of Ok (t, _) \<Rightarrow> t | _ \<Rightarrow> demo_table))))]"

lemma demo_served:
  obtains t theirs' where "get_iblt demo_crates 100 (demo_open demo_db1) = Ok (t, theirs')" "iblt_typed content_key_wf t"
proof -
  obtain t theirs' where t: "get_iblt demo_crates 100 (demo_open demo_db1) = Ok (t, theirs')"
    using get_iblt_table [OF demo_crates_ok demo_open_ok [OF demo_db1_ok], of 100] by auto
  have "caches_typed (demo_open demo_db1)" by (simp add: caches_typed_def tables_typed_def demo_open_def)
  with that t get_iblt_typed(2) [OF t] show thesis by blast
qed

lemma solo_events_wf: "\<forall>e \<in> set solo_events. node_event_wf e"
proof -
  obtain t theirs' where "get_iblt demo_crates 100 (demo_open demo_db1) = Ok (t, theirs')" "iblt_typed content_key_wf t"
    by (rule demo_served)
  then show ?thesis by (simp add: solo_events_def event_message_def peer_a_def)
qed

theorem node_refines_store_witness:
  "\<exists>n' outs. node_run solo_crates solo_events solo_node = (n', outs)
    \<and> (node_move demo_crates demo_wallet_crates)\<^sup>*\<^sup>* (demo_open db_empty) (n_store n')"
proof -
  obtain n' outs where r: "node_run solo_crates solo_events solo_node = (n', outs)" by (rule prod.exhaust)
  have "crates_ok (nc_crates solo_crates)" by (simp add: solo_crates_def demo_crates_ok)
  from node_refines_store [OF this solo_node_ok solo_events_wf r] r show ?thesis
    by (simp add: solo_crates_def solo_node_def)
qed

lemma solo_tip: "store_get_tip demo_crates (chaindb_trunk (view solo_chain ())) = Some (replicate 32 1)"
  by (simp add: store_get_tip_def chaindb_trunk_def solo_chain_def solo_def demo_crates_def)

text \<open>The address of the peer is stored first, which the tables of the content do not show.\<close>

lemma demo_request:
  assumes "get_iblt demo_crates 100 (demo_open demo_db1) = Ok (t, theirs')" and "store_ok demo_crates s"
    and "content_keys demo_crates (sdb s) = []" and "store_get_tip demo_crates T = Some (replicate 32 1)"
  shows "\<exists>s'. on_content_iblt demo_crates 3 T (0 :: nat) (replicate 32 1) t s = Ok (Some (s',
     [Received 0 1 Expect_ContentIBLT, Expect 0 1 Expect_Content,
      Send_network 0 (Get [digest (row_key demo_crates (demo_row 65 1000))])]))"
proof -
  let ?e = "(row_key demo_crates (demo_row 65 1000), 1 :: i32)"
  obtain t0 where t0: "iblt_new (hashing demo_crates) (content_key_ops (hashing demo_crates)) 100 NH K0 K1 = Ok t0"
    using fresh_table [of 100 demo_crates] by auto
  have diff: "diff_entries (content_keys demo_crates (sdb (demo_open demo_db1))) (content_keys demo_crates (sdb s)) = [?e]"
    using demo_diff by (simp add: assms(3) demo_keys)
  have n: "100 \<noteq> (0 :: u32)" by simp
  have nfp: "no_false_pure (content_key_ops (hashing demo_crates)) t0
      (diff_entries (content_keys demo_crates (sdb (demo_open demo_db1))) (content_keys demo_crates (sdb s)))"
    unfolding diff by (rule no_false_pure_one)
  have fuel: "length (content_keys demo_crates (sdb (demo_open demo_db1))) + length (content_keys demo_crates (sdb s)) + 2 \<le> 3"
    by (simp add: assms(3) demo_keys)
  obtain s' request found rest where q: "on_content_iblt demo_crates 3 T (0 :: nat) (replicate 32 1) t s = Ok (Some (s',
        if request \<noteq> []
        then [Received 0 1 Expect_ContentIBLT, Expect 0 (length request) Expect_Content, Send_network 0 (Get request)]
        else [Received 0 1 Expect_ContentIBLT]))"
    and found: "mset [?e] = mset (found @ rest)" and req: "request = map (\<lambda>e. digest (fst e)) (filter (\<lambda>e. snd e = 1) found)"
    and rest: "\<forall>b < unat (100 :: u32). length (entries_at (content_key_ops (hashing demo_crates)) t0 b rest) \<noteq> 1"
    using requests_missing_content [OF demo_crates_ok assms(2) demo_open_ok [OF demo_db1_ok] n assms(1,4) t0 nfp fuel, of 0,
        unfolded diff] by blast
  have "request = [digest (row_key demo_crates (demo_row 65 1000))]"
    using one_entry_found [OF t0 _ found rest] req by auto
  with q show ?thesis by (intro exI [of _ s']) simp
qed

lemma demo_open_book: "(demo_open db_empty)\<lparr>sdb := book c l b\<rparr> = demo_open (book c l b)"
  by (simp add: demo_open_def book_eq content_keys_def db_empty_def)

lemma solo_connected:
  "node_step solo_crates (solo_events ! 0) solo_node
   = (solo_node\<lparr>n_store := demo_open (book 1000000 1000000 0), n_defiads_pool := Some [0 \<mapsto> peer_a]\<rparr>, [])"
proof -
  have "sdb (demo_open db_empty) = db_empty" by (simp add: demo_open_def)
  then show ?thesis
    by (simp add: solo_events_def solo_node_def solo_crates_def deliver_def defiads_pool_thread_def defiads_pool_new_def
        pool_connected_def demo_hashing flip: demo_open_book book_def)
qed

lemma solo_asks:
  "\<exists>n'. node_step solo_crates (solo_events ! 1)
      (solo_node\<lparr>n_store := demo_open (book 1000000 1000000 0), n_defiads_pool := Some [0 \<mapsto> peer_a]\<rparr>)
    = (n', map To_defiads [Received 0 1 Expect_ContentIBLT, Expect 0 1 Expect_Content,
        Send_network 0 (Get [digest (row_key demo_crates (demo_row 65 1000))])])"
proof -
  obtain t theirs' where t: "get_iblt demo_crates 100 (demo_open demo_db1) = Ok (t, theirs')" by (rule demo_served)
  have "db_ok demo_crates (book 1000000 1000000 0)" by (simp add: db_ok_def book_eq db_empty_def)
  moreover have "content_keys demo_crates (sdb (demo_open (book 1000000 1000000 0))) = []"
    by (simp add: content_keys_def demo_open_def book_eq db_empty_def)
  ultimately obtain s' where "on_content_iblt demo_crates 3 (chaindb_trunk (view solo_chain ())) (0 :: nat) (replicate 32 1) t
      (demo_open (book 1000000 1000000 0)) = Ok (Some (s', [Received 0 1 Expect_ContentIBLT, Expect 0 1 Expect_Content,
        Send_network 0 (Get [digest (row_key demo_crates (demo_row 65 1000))])]))"
    using demo_request [OF t demo_open_ok _ solo_tip] by blast
  then show ?thesis
    by (simp add: solo_events_def solo_crates_def solo_node_def deliver_locked_def updater_access_def updater_thread_def Let_def updater_new_def t)
qed

lemma requests_well_typed_example:
  "\<exists>n' outs. node_run solo_crates solo_events solo_node = (n', outs)
    \<and> To_defiads (Send_network 0 (Get [digest (row_key demo_crates (demo_row 65 1000))])) \<in> set outs
    \<and> length (digest (row_key demo_crates (demo_row 65 1000))) = DIGEST_LEN"
proof -
  let ?ids = "[digest (row_key demo_crates (demo_row 65 1000))]"
  have es: "solo_events = [solo_events ! 0, solo_events ! 1]" by (simp add: solo_events_def)
  obtain n' outs where r: "node_run solo_crates solo_events solo_node = (n', outs)" by (rule prod.exhaust)
  then have "To_defiads (Send_network 0 (Get ?ids)) \<in> set outs"
    using solo_connected solo_asks by (subst (asm) es) auto
  moreover have "crates_ok (nc_crates solo_crates)" by (simp add: solo_crates_def demo_crates_ok)
  ultimately have "\<forall>i \<in> set ?ids. length i = DIGEST_LEN"
    using requests_well_typed [OF _ solo_node_ok solo_events_wf r] by blast
  with r \<open>To_defiads (Send_network 0 (Get ?ids)) \<in> set outs\<close> show ?thesis by (intro exI [of _ n'] exI [of _ outs]) simp
qed

text \<open>
  The node has polled a peer, which answers with an empty sketch; then an address is announced and a table arrives, and a
  client asks for the categories.
\<close>

definition asked_poll :: poll_content_message where
  "asked_poll = \<lparr>pc_tip = replicate 32 1, pc_sketch = [1], pc_size = 0\<rparr>"

definition empty_poll :: poll_content_message where
  "empty_poll = \<lparr>pc_tip = replicate 32 1, pc_sketch = [], pc_size = 0\<rparr>"

definition later_events :: "(nat, nat, unit, unit) node_event list" where
  "later_events = solo_events @ [Api_event (\<lambda>_. 0, 2, ''categories'', Params_Array [String [107]])]"

definition polled_node :: "(nat, nat, (out_point \<times> coin) list, unit, unit, list_cache) node" where
  "polled_node = solo_node\<lparr>n_updater := Some ([0 \<mapsto> asked_poll], 0)\<rparr>"

theorem one_poll_ends_exchange_witness:
  "\<exists>n' outs. node_run solo_crates
      (Updater_event (3, False, 0, Message (Peer_incoming 0 (PollContent empty_poll))) # later_events) polled_node = (n', outs)
    \<and> n_updater n' = None \<and> same_but_addresses (n_store n') (demo_open db_empty) \<and> (\<forall>r. Answer (Inr r) \<notin> set outs)"
proof -
  obtain n' outs where r: "node_run solo_crates
      (Updater_event (3, False, 0, Message (Peer_incoming 0 (PollContent empty_poll))) # later_events) polled_node = (n', outs)"
    by (rule prod.exhaust)
  have "crates_ok (nc_crates solo_crates)" by (simp add: solo_crates_def demo_crates_ok)
  moreover have "node_ok (nc_crates solo_crates) polled_node"
    using solo_node_ok by (simp add: node_ok_def polled_node_def)
  moreover have "n_updater polled_node = Some ([0 \<mapsto> asked_poll], 0)" by (simp add: polled_node_def)
  moreover have "store_get_tip (nc_crates solo_crates) (chaindb_trunk (view (nc_chain solo_crates) (n_chain polled_node)))
      = Some (replicate 32 1)"
    using solo_tip by (simp add: solo_crates_def polled_node_def solo_node_def)
  moreover have "\<forall>e \<in> set later_events. node_event_wf e" using solo_events_wf by (simp add: later_events_def)
  ultimately have "n_updater n' = None \<and> same_but_addresses (n_store n') (n_store polled_node)
    \<and> (\<forall>p m. To_defiads (Send_network p m) \<in> set outs \<longrightarrow> address_message m) \<and> (\<forall>r. Answer (Inr r) \<notin> set outs)"
    using one_poll_ends_exchange [OF _ _ _ _ _ _ _ _ _ r] by (simp add: asked_poll_def empty_poll_def)
  with r show ?thesis by (simp add: polled_node_def solo_node_def)
qed

end
