(* ===== verification/Wallet_New.thy ===== *)
theory Wallet_New
  imports Startup
begin

text \<open>
  The creation of a wallet in a dialogue, \<^verbatim>\<open>Wallet::new\<close> of \<^verbatim>\<open>src/wallet.rs\<close>, and the decision of the main
  program between the first start and a later one. The two lines the user types are arguments
  (\<open>None\<close>: the input can not be read, an empty line: it has ended), as are the random bytes
  and the clock.
\<close>

section \<open>The dialogue\<close>

definition KEY_PURPOSE :: u32 where
  "KEY_PURPOSE = 0xb1ad"

datatype address_type = P2SHWPKH | P2WSH u32

text \<open>
  The functions of \<^verbatim>\<open>bitcoin_wallet\<close> the dialogue calls: \<open>'n\<close> are the mnemonics, \<open>'l\<close> the unlockers and
  \<open>'a\<close> the accounts. An unlocker is made from the encrypted key, checked against the public key of the
  hierarchy; \<open>key_address\<close> is the address of a key of an account of the hierarchy.
\<close>

record ('n, 'm, 'l, 'a) dialogue_crates =
  mnemonic_new :: "bytes \<Rightarrow> 'n option"
  from_mnemonic :: "'n \<Rightarrow> u64 \<Rightarrow> network \<Rightarrow> rstring \<Rightarrow> 'm option"
  unlock_new :: "'m \<Rightarrow> rstring \<Rightarrow> network \<Rightarrow> 'l option"
  account_new :: "'l \<Rightarrow> address_type \<Rightarrow> u32 \<Rightarrow> u32 \<Rightarrow> u32 \<Rightarrow> ('a \<times> 'l) option"
  add_account :: "'m \<Rightarrow> 'a \<Rightarrow> 'm"
  key_address :: "'m \<Rightarrow> u32 \<times> u32 \<Rightarrow> u32 \<Rightarrow> bytes option"

text \<open>
  \<^verbatim>\<open>s.remove(s.len() - 1)\<close>: panics if the string is empty, or if the last character has more than one
  byte.
\<close>

definition remove_eol :: "rstring \<Rightarrow> rstring outcome" where
  "remove_eol s =
     (if s = [] then Panic Index_out_of_bounds
      else if length (utf8_char (last s)) = 1 then Ok (butlast s)
      else Panic Index_out_of_bounds)"

definition read_typed :: "string \<Rightarrow> rstring option \<Rightarrow> rstring outcome" where
  "read_typed msg typed = obind (expect msg typed) remove_eol"

definition password_typed :: "rstring option \<Rightarrow> rstring outcome" where
  "password_typed typed =
     obind (read_typed ''expecting a password'' typed)
       (\<lambda>password. if length (str_as_bytes password) \<ge> 8 then Ok password else Panic Assert_failed)"

text \<open>The accounts of a new wallet: receiver, change and commitments.\<close>

definition wallet_accounts :: "(address_type \<times> u32 \<times> u32 \<times> u32 \<times> string) list" where
  "wallet_accounts =
     [(P2SHWPKH, 0, 0, KEY_LOOK_AHEAD, ''can not create receiver account''),
      (P2SHWPKH, 0, 1, KEY_LOOK_AHEAD, ''can not create change account''),
      (P2WSH KEY_PURPOSE, 1, 0, 0, ''can not create commitments account'')]"

definition add_accounts ::
  "('n, 'm, 'l, 'a) dialogue_crates \<Rightarrow> (address_type \<times> u32 \<times> u32 \<times> u32 \<times> string) list \<Rightarrow> 'l \<times> 'm \<Rightarrow> ('l \<times> 'm) outcome" where
  "add_accounts Y = ofold (\<lambda>(ty, account, sub, ahead, msg) (u, m).
     obind (expect msg (account_new Y u ty account sub ahead)) (\<lambda>(a, u). Ok (u, add_account Y m a)))"

text \<open>The result is the wallet, with the words and the address that were shown.\<close>

definition wallet_new ::
  "('n, 'm, 'l, 'a) dialogue_crates \<Rightarrow> ('p, 'k, 'c, 'm, 'u) wallet_crates \<Rightarrow> network \<Rightarrow> bytes \<Rightarrow> u64
   \<Rightarrow> rstring option \<Rightarrow> rstring option \<Rightarrow> (('c, 'm) wallet \<times> 'n \<times> bytes) outcome" where
  "wallet_new Y W net entropy now typed answer =
     obind (password_typed typed) (\<lambda>password.
     obind (expect ''can not create mnemonic'' (mnemonic_new Y entropy)) (\<lambda>words.
     obind (expect ''can not generate wallet'' (from_mnemonic Y words now net password)) (\<lambda>m.
     obind (expect ''Internal error in wallet generation'' (unlock_new Y m password net)) (\<lambda>u.
     obind (add_accounts Y wallet_accounts (u, m)) (\<lambda>(_, m).
     obind (unwrap (key_address Y m (0, 0) 0)) (\<lambda>receiver.
     obind (read_typed ''expecting yes'' answer) (\<lambda>a.
       if a = map of_char ''yes'' then Ok (\<lparr>coins = coins_new W, master = m\<rparr>, words, receiver)
       else Panic Assert_failed)))))))"

text \<open>A hierarchy restored from its encrypted key, without coins.\<close>

definition wallet_from_encrypted ::
  "'m start_crates \<Rightarrow> ('p, 'k, 'c, 'm, 'u) wallet_crates \<Rightarrow> bytes \<Rightarrow> string \<Rightarrow> u64 \<Rightarrow> ('c, 'm) wallet option" where
  "wallet_from_encrypted X W encrypted public_master_key b =
     map_option (\<lambda>m. \<lparr>coins = coins_new W, master = m\<rparr>) (master_from_encrypted X encrypted public_master_key b)"

section \<open>First and later starts\<close>

text \<open>
  What is on disk: the text of the configuration file, if there is one, and the database. The first
  start asks for a new wallet, stores it and writes the file; \<open>key\<close> is the base 64 text of
  twelve random bytes.
\<close>

definition main_wallet ::
  "'m start_crates \<Rightarrow> ('n, 'm, 'l, 'a) dialogue_crates \<Rightarrow> ('p, 'k) crates \<Rightarrow> ('p, 'k, 'c, 'm, 'u) wallet_crates \<Rightarrow> network
   \<Rightarrow> bytes \<Rightarrow> u64 \<Rightarrow> rstring \<Rightarrow> rstring option \<Rightarrow> rstring option \<Rightarrow> string option \<times> db
   \<Rightarrow> (config \<times> ('c, 'm) wallet \<times> string option \<times> db) outcome" where
  "main_wallet X Y C W net entropy now key typed answer disk =
     (case disk of
        (Some config_string, d) \<Rightarrow>
          obind (open_wallet X C W net config_string d) (\<lambda>(cfg, w). Ok (cfg, w, Some config_string, d))
      | (None, d) \<Rightarrow>
          obind (wallet_new Y W net entropy now typed answer) (\<lambda>(w, _).
          obind (create_wallet X C W key w d) (\<lambda>(cfg, config_string, d'). Ok (cfg, w, Some config_string, d'))))"

section \<open>What it takes to get a wallet\<close>

lemma remove_eol_Ok: "remove_eol s = Ok t \<longleftrightarrow> (\<exists>c. s = t @ [c] \<and> length (utf8_char c) = 1)"
proof
  assume "remove_eol s = Ok t"
  then show "\<exists>c. s = t @ [c] \<and> length (utf8_char c) = 1"
    by (intro exI [of _ "last s"]) (auto simp: remove_eol_def split: if_splits)
qed (auto simp: remove_eol_def)

lemma password_typed_Ok:
  "password_typed typed = Ok password \<longleftrightarrow>
     (\<exists>c. typed = Some (password @ [c]) \<and> length (utf8_char c) = 1) \<and> 8 \<le> length (str_as_bytes password)"
  by (auto simp: password_typed_def read_typed_def remove_eol_Ok split: if_splits)

text \<open>
  C23. No wallet without a password and a confirmation: the dialogue yields a wallet only if the user typed
  a line whose text is at least eight bytes long and confirmed with yes. The wallet then has no
  coins, the hierarchy of the words that were shown, unlocked by that password, and the three
  accounts; with another answer nothing is created.
\<close>

theorem wallet_new_confirmed:
  assumes "wallet_new Y W net entropy now typed answer = Ok (w, words, receiver)"
  shows "\<exists>password eol1 eol2 m u u1 a1 u2 a2 u3 a3.
      typed = Some (password @ [eol1]) \<and> 8 \<le> length (str_as_bytes password)
    \<and> answer = Some (map of_char ''yes'' @ [eol2])
    \<and> mnemonic_new Y entropy = Some words \<and> from_mnemonic Y words now net password = Some m
    \<and> unlock_new Y m password net = Some u
    \<and> account_new Y u P2SHWPKH 0 0 KEY_LOOK_AHEAD = Some (a1, u1)
    \<and> account_new Y u1 P2SHWPKH 0 1 KEY_LOOK_AHEAD = Some (a2, u2)
    \<and> account_new Y u2 (P2WSH KEY_PURPOSE) 1 0 0 = Some (a3, u3)
    \<and> w = \<lparr>coins = coins_new W, master = add_account Y (add_account Y (add_account Y m a1) a2) a3\<rparr>
    \<and> key_address Y (master w) (0, 0) 0 = Some receiver"
  using assms
  by (auto simp: wallet_new_def password_typed_Ok read_typed_def remove_eol_Ok add_accounts_def
      wallet_accounts_def split: if_splits)

text \<open>
  C22. The second start opens the wallet of the first: with the file and the database as the first start
  left them, whatever random bytes, time or input there are, the program has the same configuration
  and the same wallet, asks nothing and writes nothing.
\<close>

theorem second_start_opens:
  assumes "hex_ok W" and "read_config X (write_config X cfg) = Some cfg"
    and "confirmed_coins W (coins_new W) = []" and "unconfirmed_coins W (coins_new W) = []" and "txout_tbl d = []"
    and "main_wallet X Y C W net entropy now key typed answer (None, d) = Ok (cfg, w, disk)"
    and "master_restorable X W net (master w)"
  shows "main_wallet X Y C W net entropy' now' key' typed' answer' disk = Ok (cfg, w, disk)"
proof -
  obtain words receiver str d' where new: "wallet_new Y W net entropy now typed answer = Ok (w, words, receiver)"
    and create: "create_wallet X C W key w d = Ok (cfg, str, d')" and disk: "disk = (Some str, d')"
    using assms(6) by (auto simp: main_wallet_def)
  have "coins w = coins_new W" using new by (auto simp: wallet_new_def split: if_splits)
  then have "open_wallet X C W net str d' = Ok (cfg, w)"
    using created_wallet_opens [OF assms(1,2,7) _ assms(3-5) create] by simp
  then show ?thesis by (simp add: main_wallet_def disk)
qed

end
