(* ===== verification/Options.thy ===== *)
theory Options
  imports Startup Biadnet
begin

text \<open>
  The command line of \<^verbatim>\<open>src/defiads/main.rs\<close>: the options as they are declared to the parser of \<^verbatim>\<open>clap\<close>,
  and what the program makes of their values. The parser is code of that crate: what it
  returns for an option is an argument, with its documented promises as the predicate \<open>matches_ok\<close>.
\<close>

section \<open>Declarations\<close>

record arg =
  arg_name :: string
  default_value :: "string option"
  possible_values :: "string list"
  case_insensitive :: bool
  takes_value :: bool

definition HTTP_RPC :: string where
  "HTTP_RPC = ''127.0.0.1''"

definition BIADNET_LISTEN :: string where
  "BIADNET_LISTEN = ''0.0.0.0''"

text \<open>The decimal text of a number.\<close>

fun decimal :: "nat \<Rightarrow> string" where
  "decimal n = (if n < 10 then [char_of (48 + n)] else decimal (n div 10) @ [char_of (48 + n mod 10)])"

declare decimal.simps [simp del]

definition main_args :: "arg list" where
  "main_args =
     (let value_arg = (\<lambda>name default values insensitive.
            \<lparr>arg_name = name, default_value = default, possible_values = values, case_insensitive = insensitive,
             takes_value = True\<rparr>)
      in [value_arg ''log-level'' (Some ''DEBUG'') [''OFF'', ''ERROR'', ''WARN'', ''INFO'', ''DEBUG'', ''TRACE''] True,
          value_arg ''bitcoin-network'' (Some ''testnet'') [''bitcoin'', ''testnet'', ''regtest''] False,
          value_arg ''bitcoin-connections'' (Some ''5'') [] False,
          value_arg ''defiads-connections'' (Some ''5'') [] False,
          value_arg ''bitcoin-peers'' None [] False,
          value_arg ''defiads-peers'' None [] False,
          value_arg ''http-rpc'' (Some (HTTP_RPC @ '':'' @ decimal (unat BIADNET_PORT + 1))) [] False,
          value_arg ''listen'' (Some (BIADNET_LISTEN @ '':'' @ decimal (unat BIADNET_PORT))) [] False,
          value_arg ''storage-limit'' (Some ''1'') [] False,
          value_arg ''bitcoin-discovery'' (Some ''ON'') [''ON'', ''OFF''] True,
          value_arg ''defiads-discovery'' (Some ''ON'') [''ON'', ''OFF''] True,
          \<lparr>arg_name = ''rescan'', default_value = None, possible_values = [], case_insensitive = False,
           takes_value = False\<rparr>])"

section \<open>Values\<close>

text \<open>The values of an option by its name; an option without a value that is present has none.\<close>

type_synonym arg_matches = "string \<Rightarrow> string list option"

definition value_of :: "arg_matches \<Rightarrow> string \<Rightarrow> string option" where
  "value_of M name = (case M name of Some (v # _) \<Rightarrow> Some v | _ \<Rightarrow> None)"

definition values_of :: "arg_matches \<Rightarrow> string \<Rightarrow> string list" where
  "values_of M name = (case M name of Some vs \<Rightarrow> vs | None \<Rightarrow> [])"

definition ascii_lower :: "char \<Rightarrow> char" where
  "ascii_lower c = (if 65 \<le> (of_char c :: nat) \<and> of_char c \<le> (90 :: nat) then char_of (of_char c + 32 :: nat) else c)"

definition eq_ignore_ascii_case :: "string \<Rightarrow> string \<Rightarrow> bool" where
  "eq_ignore_ascii_case s t \<longleftrightarrow> map ascii_lower s = map ascii_lower t"

text \<open>
  \<^verbatim>\<open>from_str\<close> of an unsigned number: digits, after an optional plus sign, whose value is below the bound.
\<close>

definition digit :: "char \<Rightarrow> nat option" where
  "digit c = (if 48 \<le> (of_char c :: nat) \<and> of_char c \<le> (57 :: nat) then Some (of_char c - 48) else None)"

fun parse_digits :: "nat \<Rightarrow> nat \<Rightarrow> string \<Rightarrow> nat option" where
  "parse_digits bound n [] = Some n"
| "parse_digits bound n (c # cs) =
     (case digit c of
        None \<Rightarrow> None
      | Some v \<Rightarrow> if 10 * n + v < bound then parse_digits bound (10 * n + v) cs else None)"

definition parse_unsigned :: "nat \<Rightarrow> string \<Rightarrow> nat option" where
  "parse_unsigned bound s =
     (let ds = (case s of c # cs \<Rightarrow> if c = CHR ''+'' then cs else s | [] \<Rightarrow> [])
      in if ds = [] then None else parse_digits bound 0 ds)"

text \<open>Both \<^verbatim>\<open>u64\<close> and \<^verbatim>\<open>usize\<close> have 64 bits.\<close>

definition parse_u64 :: "string \<Rightarrow> nat option" where
  "parse_u64 s = parse_unsigned (2 ^ 64) s"

text \<open>What the program needs from its options; addresses and networks are parsed by the given functions.\<close>

record settings =
  set_network :: network
  biadnet_connections :: nat
  bitcoin_connections :: nat
  biadnet_peers :: "socket_addr list"
  bitcoin_peers :: "socket_addr list"
  bitcoin_discovery :: bool
  biadnet_discovery :: bool
  http_rpc :: "socket_addr option"
  biadnet_listen :: "socket_addr list"
  limit_gb :: u64
  do_rescan :: bool

definition parse_sockets :: "(string \<Rightarrow> socket_addr option) \<Rightarrow> string list \<Rightarrow> socket_addr list outcome" where
  "parse_sockets socket_from_str ss = omap (\<lambda>s. expect ''invalid socket address'' (socket_from_str s)) ss"

definition parse_number :: "arg_matches \<Rightarrow> string \<Rightarrow> nat outcome" where
  "parse_number M name = obind (unwrap (value_of M name)) (\<lambda>s. unwrap (parse_u64 s))"

definition discovery_option :: "arg_matches \<Rightarrow> string \<Rightarrow> bool outcome" where
  "discovery_option M name = obind (unwrap (value_of M name)) (\<lambda>s. Ok (eq_ignore_ascii_case s ''ON''))"

definition main_settings ::
  "(string \<Rightarrow> network option) \<Rightarrow> (string \<Rightarrow> socket_addr option) \<Rightarrow> arg_matches \<Rightarrow> settings outcome" where
  "main_settings network_from_str socket_from_str M =
     obind (unwrap (value_of M ''bitcoin-network'')) (\<lambda>s.
     obind (unwrap (network_from_str s)) (\<lambda>net.
     obind (parse_number M ''defiads-connections'') (\<lambda>nd.
     obind (parse_number M ''bitcoin-connections'') (\<lambda>nb.
     obind (parse_sockets socket_from_str (values_of M ''defiads-peers'')) (\<lambda>pd.
     obind (parse_sockets socket_from_str (values_of M ''bitcoin-peers'')) (\<lambda>pb.
     obind (discovery_option M ''bitcoin-discovery'') (\<lambda>db.
     obind (connection_target ''bitcoin'' db pb nb) (\<lambda>nb.
     obind (discovery_option M ''defiads-discovery'') (\<lambda>dd.
     obind (connection_target ''defiads'' dd pd nd) (\<lambda>nd.
     obind (case value_of M ''http-rpc'' of
              None \<Rightarrow> Ok None
            | Some s \<Rightarrow> obind (expect ''invalid socket address'' (socket_from_str s))
                         (\<lambda>sock. Ok (Some (network_socket net sock)))) (\<lambda>http.
     obind (parse_sockets socket_from_str (values_of M ''listen'')) (\<lambda>listen.
     obind (unwrap (value_of M ''storage-limit'')) (\<lambda>s.
     obind (expect ''expecting number of GB'' (parse_u64 s)) (\<lambda>gb.
       Ok \<lparr>set_network = net, biadnet_connections = nd, bitcoin_connections = nb, biadnet_peers = pd,
           bitcoin_peers = pb, bitcoin_discovery = db, biadnet_discovery = dd, http_rpc = http,
           biadnet_listen = map (network_socket net) listen, limit_gb = of_nat gb,
           do_rescan = M ''rescan'' \<noteq> None\<rparr>))))))))))))))"

section \<open>Defaults\<close>

text \<open>What the parser of \<^verbatim>\<open>clap\<close> promises of a command line it accepts.\<close>

definition matches_ok :: "arg_matches \<Rightarrow> bool" where
  "matches_ok M \<longleftrightarrow> (\<forall>a \<in> set main_args. default_value a \<noteq> None \<longrightarrow> (\<exists>v vs. M (arg_name a) = Some (v # vs)
       \<and> (possible_values a \<noteq> [] \<longrightarrow>
            (\<exists>p \<in> set (possible_values a). if case_insensitive a then eq_ignore_ascii_case v p else v = p))))"

definition default_matches :: arg_matches where
  "default_matches = map_of (map (\<lambda>a. (arg_name a, [the (default_value a)])) (filter (\<lambda>a. default_value a \<noteq> None) main_args))"

lemma digit_char: "n < 10 \<Longrightarrow> digit (char_of (48 + n)) = Some n"
  by (simp add: digit_def)

lemma digit_plus: "digit (CHR ''+'') = None"
  by (simp add: digit_def)

lemma parse_digits_append:
  "parse_digits bound n (xs @ ys) = Option.bind (parse_digits bound n xs) (\<lambda>m. parse_digits bound m ys)"
  by (induction xs arbitrary: n) (auto split: option.splits)

lemma parse_digits_decimal:
  assumes "n < bound"
  shows "parse_digits bound 0 (decimal n) = Some n"
  using assms
proof (induction n rule: decimal.induct)
  case (1 n)
  show ?case
  proof (cases "n < 10")
    case False
    then have "parse_digits bound 0 (decimal (n div 10)) = Some (n div 10)" using 1 by simp
    with False 1(2) show ?thesis
      by (subst decimal.simps) (simp add: parse_digits_append digit_char)
  qed (use 1(2) in \<open>simp add: decimal.simps [of n] digit_char\<close>)
qed

lemma decimal_Cons: "\<exists>c cs. decimal n = c # cs \<and> c \<noteq> CHR ''+''"
proof (induction n rule: decimal.induct)
  case (1 n)
  have "char_of (48 + n) \<noteq> CHR ''+''" if "n < 10"
    using digit_char [OF that] by (metis digit_plus option.distinct(1))
  with 1 show ?case by (cases "n < 10") (auto simp: decimal.simps [of n])
qed

text \<open>A number is read as it is written.\<close>

lemma parse_decimal: "n < bound \<Longrightarrow> parse_unsigned bound (decimal n) = Some n"
  using decimal_Cons [of n] parse_digits_decimal [of n bound] by (auto simp: parse_unsigned_def Let_def)

lemma matches_ok_default:
  assumes "matches_ok M" and "\<exists>a \<in> set main_args. arg_name a = name \<and> default_value a \<noteq> None"
  shows "\<exists>v. value_of M name = Some v"
  using assms by (fastforce simp: matches_ok_def value_of_def)

lemma main_args_defaults:
  "\<forall>name \<in> {''bitcoin-network'', ''storage-limit'', ''defiads-connections'', ''bitcoin-connections'', ''bitcoin-discovery'',
     ''defiads-discovery'', ''http-rpc''}. \<exists>a \<in> set main_args. arg_name a = name \<and> default_value a \<noteq> None"
  by (simp add: main_args_def Let_def)

lemma matches_ok_network:
  assumes "matches_ok M" and "value_of M ''bitcoin-network'' = Some net"
  shows "net \<in> {''bitcoin'', ''testnet'', ''regtest''}"
proof -
  let ?a = "\<lparr>arg_name = ''bitcoin-network'', default_value = Some ''testnet'',
    possible_values = [''bitcoin'', ''testnet'', ''regtest''], case_insensitive = False, takes_value = True\<rparr>"
  have "?a \<in> set main_args" by (simp add: main_args_def Let_def)
  then obtain v vs where "M ''bitcoin-network'' = Some (v # vs)" "v \<in> set [''bitcoin'', ''testnet'', ''regtest'']"
    using assms(1) unfolding matches_ok_def by fastforce
  then show ?thesis using assms(2) by (simp add: value_of_def)
qed

lemma parse_sockets_total:
  assumes "\<forall>s \<in> set ss. socket_from_str s \<noteq> None"
  shows "parse_sockets socket_from_str ss = Ok (map (\<lambda>s. the (socket_from_str s)) ss)"
  using assms unfolding parse_sockets_def by (intro omap_total) auto

lemma connection_target_total:
  "discovery \<or> peers \<noteq> [] \<Longrightarrow> \<exists>n. connection_target name discovery peers c = Ok n \<and> (\<not> discovery \<longrightarrow> n = length peers)"
  by (auto simp: connection_target_def)

text \<open>
  What the program needs beyond a command line that the parser accepts: numbers that are numbers,
  addresses that are addresses, and peers for a network without discovery. Then there are settings,
  discovery is on exactly if the option says so in any case, and without discovery the node
  keeps as many connections as peers were given, whatever number of connections was asked for.
\<close>

lemma main_settings_total:
  assumes "matches_ok M" and "\<forall>s \<in> {''bitcoin'', ''testnet'', ''regtest''}. network_from_str s \<noteq> None"
    and "\<forall>name \<in> {''storage-limit'', ''defiads-connections'', ''bitcoin-connections''}. \<forall>v. value_of M name = Some v
           \<longrightarrow> parse_u64 v \<noteq> None"
    and "\<forall>name \<in> {''defiads-peers'', ''bitcoin-peers'', ''listen''}. \<forall>v \<in> set (values_of M name). socket_from_str v \<noteq> None"
    and "\<forall>v. value_of M ''http-rpc'' = Some v \<longrightarrow> socket_from_str v \<noteq> None"
    and "\<forall>v. value_of M ''bitcoin-discovery'' = Some v \<longrightarrow> eq_ignore_ascii_case v ''ON'' \<or> values_of M ''bitcoin-peers'' \<noteq> []"
    and "\<forall>v. value_of M ''defiads-discovery'' = Some v \<longrightarrow> eq_ignore_ascii_case v ''ON'' \<or> values_of M ''defiads-peers'' \<noteq> []"
  shows "\<exists>S. main_settings network_from_str socket_from_str M = Ok S \<and> (do_rescan S \<longleftrightarrow> M ''rescan'' \<noteq> None)
    \<and> bitcoin_discovery S = eq_ignore_ascii_case (the (value_of M ''bitcoin-discovery'')) ''ON''
    \<and> biadnet_discovery S = eq_ignore_ascii_case (the (value_of M ''defiads-discovery'')) ''ON''
    \<and> (\<not> bitcoin_discovery S \<longrightarrow> bitcoin_connections S = length (bitcoin_peers S))
    \<and> (\<not> biadnet_discovery S \<longrightarrow> biadnet_connections S = length (biadnet_peers S))"
proof -
  have given: "\<exists>v. value_of M name = Some v"
    if "name \<in> {''bitcoin-network'', ''storage-limit'', ''defiads-connections'', ''bitcoin-connections'', ''bitcoin-discovery'',
     ''defiads-discovery'', ''http-rpc''}" for name
    using matches_ok_default [OF assms(1) bspec [OF main_args_defaults that]] .
  obtain net gb nd nb db dd rpc where v: "value_of M ''bitcoin-network'' = Some net" "net \<in> {''bitcoin'', ''testnet'', ''regtest''}"
    "value_of M ''storage-limit'' = Some gb" "value_of M ''defiads-connections'' = Some nd"
    "value_of M ''bitcoin-connections'' = Some nb" "value_of M ''bitcoin-discovery'' = Some db"
    "value_of M ''defiads-discovery'' = Some dd" "value_of M ''http-rpc'' = Some rpc"
    using given [of "''bitcoin-network''"] given [of "''storage-limit''"] given [of "''defiads-connections''"]
      given [of "''bitcoin-connections''"] given [of "''bitcoin-discovery''"] given [of "''defiads-discovery''"]
      given [of "''http-rpc''"] matches_ok_network [OF assms(1)] by auto
  let ?peers = "\<lambda>name. map (\<lambda>s. the (socket_from_str s)) (values_of M name)"
  obtain cb where cb: "connection_target ''bitcoin'' (eq_ignore_ascii_case db ''ON'') (?peers ''bitcoin-peers'')
      (the (parse_u64 nb)) = Ok cb" "\<not> eq_ignore_ascii_case db ''ON'' \<longrightarrow> cb = length (?peers ''bitcoin-peers'')"
    using connection_target_total [of "eq_ignore_ascii_case db ''ON''" "?peers ''bitcoin-peers''"] assms(6) v(6) by blast
  obtain cd where cd: "connection_target ''defiads'' (eq_ignore_ascii_case dd ''ON'') (?peers ''defiads-peers'')
      (the (parse_u64 nd)) = Ok cd" "\<not> eq_ignore_ascii_case dd ''ON'' \<longrightarrow> cd = length (?peers ''defiads-peers'')"
    using connection_target_total [of "eq_ignore_ascii_case dd ''ON''" "?peers ''defiads-peers''"] assms(7) v(7) by blast
  have "network_from_str net \<noteq> None" using assms(2) v(2) by (rule bspec)
  moreover have "parse_u64 gb \<noteq> None" using assms(3) v(3) by blast
  moreover have "parse_u64 nd \<noteq> None" using assms(3) v(4) by blast
  moreover have "parse_u64 nb \<noteq> None" using assms(3) v(5) by blast
  moreover have "socket_from_str rpc \<noteq> None" using assms(5) v(8) by blast
  ultimately obtain n g kd kb a where n: "network_from_str net = Some n" "parse_u64 gb = Some g"
    "parse_u64 nd = Some kd" "parse_u64 nb = Some kb" "socket_from_str rpc = Some a"
    by auto
  show ?thesis
    using cb cd assms(4) by (simp add: main_settings_def parse_number_def discovery_option_def v n parse_sockets_total)
qed

end
