(* ===== verification/Main_Program.thy ===== *)
theory Main_Program
  imports Node Wallet_New Options
begin

text \<open>
  The start of a node: \<^verbatim>\<open>P2PBitcoin::start\<close>, \<^verbatim>\<open>P2PBiadNet::start\<close> and the main program of
  \<^verbatim>\<open>src/defiads/main.rs\<close>, from the settings and what is on disk to the node whose threads run.
\<close>

section \<open>The Bitcoin network\<close>

definition BITCOIN_MAX_PROTOCOL_VERSION :: u32 where
  "BITCOIN_MAX_PROTOCOL_VERSION = 70001"

record bitcoin_config =
  bc_nonce :: u64
  bc_network :: network
  bc_max_protocol_version :: u32
  bc_user_agent :: rstring
  bc_server :: bool
  bc_height :: nat

definition bitcoin_p2p_config :: "u64 \<Rightarrow> network \<Rightarrow> chaindb \<Rightarrow> bitcoin_config" where
  "bitcoin_p2p_config nonce net D =
     \<lparr>bc_nonce = nonce, bc_network = net, bc_max_protocol_version = BITCOIN_MAX_PROTOCOL_VERSION,
      bc_user_agent = user_agent_text, bc_server = False,
      bc_height = (case header_tip D of Some tip \<Rightarrow> unat (stored_height tip) | None \<Rightarrow> 0)\<rparr>"

record p2p_bitcoin =
  pb_connections :: nat
  pb_peers :: "socket_addr list"
  pb_network :: network
  pb_discovery :: bool
  pb_birth :: u64

text \<open>
  The start. \<open>dns\<close> are the seeds of \<^verbatim>\<open>murmel\<close>; the address pool is started only with discovery. The result is
  the store, the state of the listeners and of the task that keeps connected, and the peers to
  connect to at once. \<open>None\<close>: a loop of the start has not ended within \<open>fuel\<close> rounds.
\<close>

definition bitcoin_network_start ::
  "('p, 'k) crates \<Rightarrow> ('p, 'k, 'c, 'm, 'u) wallet_crates \<Rightarrow> 'd chain_crate \<Rightarrow> 'l lru_crate \<Rightarrow> (network \<Rightarrow> socket_addr list)
   \<Rightarrow> u64 \<Rightarrow> u64 \<Rightarrow> u64 \<Rightarrow> nat \<Rightarrow> p2p_bitcoin \<Rightarrow> 'd \<Rightarrow> ('c, 'm) store
   \<Rightarrow> (('c, 'm) store \<times> 'j block_download \<times> 'l \<times> 'j peer_addresses option \<times> keep_connected \<times> socket_addr list) outcome option" where
  "bitcoin_network_start C W B L dns_seed r0 r1 now fuel P d s =
     map_option (\<lambda>r. obind r (\<lambda>(s, bd).
         obind (sendtx_new C L (sdb s)) (\<lambda>l.
           let dns = dns_seed (pb_network P);
               s' = s\<lparr>sdb := store_seeds (hashing C) r0 r1 now ''bitcoin'' dns (sdb s)\<rparr>
           in Ok (s', bd, l, if pb_discovery P then Some bitcoin_pool_new else None,
                  \<lparr>dns = dns, earlier = set (pb_peers P), min_connections = pb_connections P\<rparr>, pb_peers P))))
       (bitcoin_start C W (chaindb_trunk (view B d)) (view B d) fuel (pb_birth P) s)"

section \<open>The network of the ads\<close>

definition biadnet_p2p_config :: "u64 \<Rightarrow> biadnet_config" where
  "biadnet_p2p_config nonce =
     \<lparr>cfg_nonce = nonce, cfg_user_agent = user_agent_text, cfg_max_protocol_version = MAX_PROTOCOL_VERSION,
      cfg_server = False\<rparr>"

record p2p_biadnet =
  pd_connections :: nat
  pd_peers :: "socket_addr list"
  pd_listen :: "socket_addr list"
  pd_discovery :: bool
  pd_test :: bool

text \<open>
  Discovery is a thread only if it is enabled; the clock at the start is the time of the last poll. The last
  components are the addresses to listen on and the peers to connect to.
\<close>

definition biadnet_network_start ::
  "hash_crates \<Rightarrow> (string \<Rightarrow> u16 \<Rightarrow> socket_addr list option) \<Rightarrow> u64 \<Rightarrow> u64 \<Rightarrow> u64 \<Rightarrow> nat \<Rightarrow> p2p_biadnet \<Rightarrow> ('c, 'm) store
   \<Rightarrow> ('c, 'm) store \<times> ('i discovery \<times> nat) option \<times> ('i polls \<times> nat) \<times> 'i peer_addresses \<times> keep_connected
      \<times> socket_addr list \<times> socket_addr list" where
  "biadnet_network_start H lookup r0 r1 now clock P s =
     (let peers = map (peer_socket (pd_test P)) (pd_peers P);
          dns = seed lookup (pd_test P);
          s' = s\<lparr>sdb := store_seeds H r0 r1 now ''defiads'' dns (sdb s)\<rparr>
      in (s', if pd_discovery P then Some (discovery_new, clock) else None, updater_new clock, defiads_pool_new,
          \<lparr>dns = dns, earlier = set peers, min_connections = pd_connections P\<rparr>, pd_listen P, peers))"

section \<open>The main program\<close>

text \<open>
  What the program reads from its surroundings besides the settings: random bytes and numbers, the
  clock, the lines the user types, the resolver and the seeds of the Bitcoin network, and the headers
  of the trunk from its tip.
\<close>

record surroundings =
  sr_entropy :: bytes
  sr_key :: rstring
  sr_typed :: "rstring option"
  sr_answer :: "rstring option"
  sr_clock :: nat
  sr_r0 :: u64
  sr_r1 :: u64
  sr_lookup :: "string \<Rightarrow> u16 \<Rightarrow> socket_addr list option"
  sr_dns_seed :: "network \<Rightarrow> socket_addr list"
  sr_trunk_rev :: "cached_header list"

definition sr_now :: "surroundings \<Rightarrow> u64" where
  "sr_now R = of_nat (as_secs (sr_clock R))"

definition main_p2p_bitcoin :: "settings \<Rightarrow> config \<Rightarrow> p2p_bitcoin" where
  "main_p2p_bitcoin S cfg =
     \<lparr>pb_connections = bitcoin_connections S, pb_peers = bitcoin_peers S, pb_network = set_network S,
      pb_discovery = bitcoin_discovery S, pb_birth = cfg_birth cfg\<rparr>"

definition main_p2p_biadnet :: "settings \<Rightarrow> p2p_biadnet" where
  "main_p2p_biadnet S =
     \<lparr>pd_connections = biadnet_connections S, pd_peers = biadnet_peers S, pd_listen = biadnet_listen S,
      pd_discovery = biadnet_discovery S, pd_test = (set_network S \<noteq> Bitcoin)\<rparr>"

text \<open>
  The node is started on the disk with the header chain \<open>ch\<close>; the result is the disk after the wallet
  was opened or created, the node, the addresses it listens on and the peers it connects to.
\<close>

definition main_node ::
  "('p, 'k, 'c, 'm, 'u, 'd, 'l) node_crates \<Rightarrow> 'm start_crates \<Rightarrow> ('n, 'm, 'w, 'a) dialogue_crates \<Rightarrow> nat \<Rightarrow> surroundings
   \<Rightarrow> settings \<Rightarrow> 'd \<Rightarrow> string option \<times> db
   \<Rightarrow> (config \<times> string option \<times> ('i, 'j, 'c, 'm, 'd, 'l) node \<times> socket_addr list \<times> socket_addr list \<times> socket_addr list)
      outcome option" where
  "main_node N X Y fuel R S ch disk =
     (let C = nc_crates N; W = nc_wallet N in
      (case obind (main_wallet X Y C W (set_network S) (sr_entropy R) (sr_now R) (sr_key R) (sr_typed R) (sr_answer R) disk)
              (\<lambda>(cfg, w, file, d).
                 obind (main_store C W cfg (limit_gb S) (do_rescan S) (sr_trunk_rev R) d w) (\<lambda>s. Ok (cfg, file, s))) of
         Ok (cfg, file, s) \<Rightarrow>
           map_option (\<lambda>r. obind r (\<lambda>(s, bd, l, pool, keep, bitcoin_out).
               (case biadnet_network_start (hashing C) (sr_lookup R) (sr_r0 R) (sr_r1 R) (sr_now R) (sr_clock R)
                       (main_p2p_biadnet S) s of
                  (s, disc, upd, dpool, dkeep, listen, defiads_out) \<Rightarrow>
                    Ok (cfg, file,
                        \<lparr>n_store = s, n_lost = False, n_chain = ch, n_updater = Some upd, n_discovery = disc,
                         n_defiads_pool = Some dpool, n_defiads_keep = Some dkeep, n_download = Some (bd, []),
                         n_sendtx = Some (l, sr_clock R), n_bitcoin_pool = pool, n_bitcoin_keep = Some keep,
                         n_api = map_option (\<lambda>_. apikey cfg) (http_rpc S)\<rparr>,
                        listen, bitcoin_out, defiads_out))))
             (bitcoin_network_start C W (nc_chain N) (nc_lru N) (sr_dns_seed R) (sr_r0 R) (sr_r1 R) (sr_now R) fuel
                (main_p2p_bitcoin S cfg) ch s)
       | Err e \<Rightarrow> Some (Err e)
       | Panic p \<Rightarrow> Some (Panic p)))"

section \<open>A started node is in order\<close>

lemma store_seeds_moves:
  assumes "\<forall>a \<in> set seeds. socket_wf a"
  shows "(node_move C W)\<^sup>*\<^sup>* s (s\<lparr>sdb := store_seeds (hashing C) r0 r1 now network seeds (sdb s)\<rparr>)"
  unfolding store_seeds_def by (rule address_moves, rule moves_fold) (use assms in \<open>simp add: moves_address\<close>)

lemma shared_ok_set_tx_sender [simp]: "shared_ok C (set_tx_sender s) = shared_ok C s"
  by (simp add: shared_ok_def set_tx_sender_def caches_typed_def)

lemma bitcoin_start_moves:
  assumes "bitcoin_start C W T D fuel b s = Some (Ok (s', bd :: 'j block_download))"
  shows "\<exists>s1. (node_move C W)\<^sup>*\<^sup>* s s1 \<and> s' = set_tx_sender s1"
proof -
  obtain hs s1 where "ofold (\<lambda>h. driver C W T (Block_disconnected h :: 'j net_action)) hs s = Ok s1" "s' = set_tx_sender s1"
    using assms by (auto simp: bitcoin_start_def split: outcome.splits option.splits)
  moreover from this(1) have "(node_move C W)\<^sup>*\<^sup>* s s1"
    by (rule ofold_invariant) (auto intro: rtranclp_trans dest!: driver_moves [of C W T "Block_disconnected _", simplified])
  ultimately show ?thesis by blast
qed

lemma bitcoin_network_start_ok:
  assumes "bitcoin_network_start C W B L dns_seed r0 r1 now fuel P d s
      = Some (Ok (s', bd :: 'j block_download, l, pool, keep, peers))"
    and "crates_ok C" and "shared_ok C s" and "\<forall>a \<in> set (dns_seed (pb_network P)). socket_wf a"
  shows "shared_ok C s' \<and> pred_option peers_wf pool"
proof -
  obtain s1 where s1: "bitcoin_start C W (chaindb_trunk (view B d)) (view B d) fuel (pb_birth P) s = Some (Ok (s1, bd))"
    and s': "s' = s1\<lparr>sdb := store_seeds (hashing C) r0 r1 now ''bitcoin'' (dns_seed (pb_network P)) (sdb s1)\<rparr>"
    and pool: "pool = (if pb_discovery P then Some bitcoin_pool_new else None)"
    using assms(1) by (auto simp: bitcoin_network_start_def Let_def)
  have "shared_ok C s1" using bitcoin_start_moves [OF s1] node_moves_ok assms(2,3) by fastforce
  then have "shared_ok C s'" using node_moves_ok [OF store_seeds_moves [OF assms(4)] assms(2)] by (simp add: s')
  then show ?thesis by (simp add: pool peers_wf_def bitcoin_pool_new_def)
qed

lemma store_master_frame:
  assumes "store_master W m d = Ok (n, d')"
  shows "content_tbl d' = content_tbl d \<and> same_addresses d' d"
proof -
  let ?I = "\<lambda>(k :: nat, e). content_tbl e = content_tbl d \<and> same_addresses e d"
  have "?I (n, d')"
    by (rule ofold_invariant [OF assms [unfolded store_master_def], of ?I])
      (auto simp: unwrap_def store_account_def same_addresses_def split: option.splits)
  then show ?thesis by simp
qed

lemma main_wallet_frame:
  assumes "main_wallet X Y C W net entropy now key typed answer (conf, d) = Ok (cfg, w, file', d')"
  shows "content_tbl d' = content_tbl d \<and> same_addresses d' d"
proof (cases conf)
  case None
  with assms obtain d1 n where "store_coins C W (coins w) d = Ok d1" "store_master W (master w) d1 = Ok (n, d')"
    by (auto simp: main_wallet_def create_wallet_def Let_def)
  then show ?thesis
    using content_tbl_store_coins store_coins_addresses store_master_frame same_addresses_trans by metis
qed (use assms in \<open>auto simp: main_wallet_def\<close>)

lemma main_store_frame:
  assumes "main_store C W cfg gb rsc trunk_rev d w = Ok s"
  shows "content_tbl (sdb s) = content_tbl d \<and> same_addresses (sdb s) d \<and> iblts s = []"
  using assms
  by (auto simp: main_store_def main_rescan_def store_new_def rescan_def same_addresses_def
      split: if_splits option.splits prod.splits)

lemma main_store_ok:
  assumes "main_wallet X Y C W net entropy now key typed answer (file, d) = Ok (cfg, w, file', d')"
    and "main_store C W cfg gb rsc trunk_rev d' w = Ok s" and "db_ok C d" and "addresses_ok (hashing C) d"
  shows "shared_ok C s"
  using main_wallet_frame [OF assms(1)] main_store_frame [OF assms(2)] assms(3,4)
  by (auto simp: shared_ok_def caches_typed_def tables_typed_def db_ok_def intro: same_addresses_ok)

lemma main_node_ok:
  assumes "main_node N X Y fuel R S ch (file, d)
      = Some (Ok (cfg, file', n :: ('i, 'j, 'c, 'm, 'd, 'l) node, listen, bitcoin_out, defiads_out))"
    and "crates_ok (nc_crates N)" and "db_ok (nc_crates N) d" and "addresses_ok (hashing (nc_crates N)) d"
    and "\<forall>a \<in> set (sr_dns_seed R (set_network S)). socket_wf a"
  shows "node_ok (nc_crates N) n"
proof -
  let ?C = "nc_crates N" and ?W = "nc_wallet N"
  obtain cfg1 w file1 d1 s where w: "main_wallet X Y ?C ?W (set_network S) (sr_entropy R) (sr_now R) (sr_key R)
      (sr_typed R) (sr_answer R) (file, d) = Ok (cfg1, w, file1, d1)"
    and s: "main_store ?C ?W cfg1 (limit_gb S) (do_rescan S) (sr_trunk_rev R) d1 w = Ok s"
    using assms(1) by (auto simp: main_node_def Let_def split: outcome.splits)
  then obtain s1 bd l pool keep out where b: "bitcoin_network_start ?C ?W (nc_chain N) (nc_lru N) (sr_dns_seed R) (sr_r0 R)
      (sr_r1 R) (sr_now R) fuel (main_p2p_bitcoin S cfg1) ch s = Some (Ok (s1, bd :: 'j block_download, l, pool, keep, out))"
    and n: "n_store n = s1\<lparr>sdb := store_seeds (hashing ?C) (sr_r0 R) (sr_r1 R) (sr_now R) ''defiads''
        (seed (sr_lookup R) (pd_test (main_p2p_biadnet S))) (sdb s1)\<rparr>"
      "n_discovery n = (if pd_discovery (main_p2p_biadnet S) then Some (discovery_new, sr_clock R) else None)"
      "n_defiads_pool n = Some defiads_pool_new" "n_bitcoin_pool n = pool"
    using assms(1) by (auto simp: main_node_def biadnet_network_start_def Let_def)
  have "shared_ok ?C s1 \<and> pred_option peers_wf pool"
    using bitcoin_network_start_ok [OF b assms(2) main_store_ok [OF w s assms(3,4)]] assms(5)
    by (simp add: main_p2p_bitcoin_def)
  moreover have "\<forall>a \<in> set (seed (sr_lookup R) (pd_test (main_p2p_biadnet S))). socket_wf a"
    by (simp add: seed_def SEEDER_def)
  ultimately have "shared_ok ?C (n_store n)"
    unfolding n(1) by (intro node_moves_ok [OF store_seeds_moves [where s = s1] assms(2)]) auto
  with \<open>shared_ok ?C s1 \<and> pred_option peers_wf pool\<close> show ?thesis
    by (simp add: node_ok_def n discovery_wf_new peers_wf_def defiads_pool_new_def)
qed

section \<open>Connections\<close>

text \<open>
  C28. The node never connects twice to the same address on its own. On both networks, let the thread
  that keeps connected be polled any number of times after the start, whatever the address book and
  the connected peers are at each poll. What a poll chooses is not one of the configured peers, to
  which the node connects at the start (on the network of the ads with the port of that network);
  no earlier poll has chosen it; and it was not connected at this poll or at any
  earlier one that looked for a peer, that is, when fewer peers than wanted were connected.
\<close>

theorem keep_connected_once:
  assumes "network = ''bitcoin'' \<and> given = pb_peers PB \<and> wanted = pb_connections PB
      \<and> bitcoin_network_start C W B L dns_seed r0 r1 now fuel PB h s = Some (Ok (sb, bd, l, pool, k, connect))
    \<or> network = ''defiads'' \<and> given = map (peer_socket (pd_test PD)) (pd_peers PD) \<and> wanted = pd_connections PD
      \<and> biadnet_network_start H lookup r0 r1 now clock PD s = (sd, disc, upd, pool', k, listen, connect)"
    and "j < length vs" and "keep_connected_run network vs k ! j = Some c"
  shows "connect = given \<and> c \<notin> set given
    \<and> (\<forall>i < j. keep_connected_run network vs k ! i \<noteq> Some c)
    \<and> (\<forall>i \<le> j. pv_count (vs ! i) < wanted \<longrightarrow> c \<notin> set (pv_peers (vs ! i)))"
proof -
  have "connect = given" "earlier k = set given" "min_connections k = wanted"
    using assms(1) by (auto simp: bitcoin_network_start_def biadnet_network_start_def Let_def)
  with keep_connected_run_fresh [OF assms(2,3)] show ?thesis by simp
qed

end
