(* ===== verification/Lives.thy ===== *)
theory Lives
  imports Main_Program Resume
begin

text \<open>
  The lives of a node: it is started, runs, and ends at any moment, by a panic, a signal or a loss of
  power; then it is started again on what was committed to the disk.
\<close>

section \<open>Transactions\<close>

text \<open>The transactions of the unwinding at the start of the Bitcoin network.\<close>

definition unwind_progress ::
  "('p, 'k) crates \<Rightarrow> ('p, 'k, 'c, 'm, 'u) wallet_crates \<Rightarrow> trunk \<Rightarrow> chaindb \<Rightarrow> nat \<Rightarrow> ('c, 'm) store \<Rightarrow> ('c, 'm) store list" where
  "unwind_progress C W T D fuel s =
     (case read_processed C (sdb s) of
        Ok processed \<Rightarrow>
          (case disconnected_while_down D fuel processed of
             Some (Ok hs) \<Rightarrow> progress (\<lambda>h. driver C W T (Block_disconnected h :: unit net_action)) hs s
           | _ \<Rightarrow> [])
      | _ \<Rightarrow> [])"

text \<open>Then come the seeds of that network.\<close>

definition bitcoin_progress ::
  "('p, 'k, 'c, 'm, 'u, 'd, 'l) node_crates \<Rightarrow> nat \<Rightarrow> surroundings \<Rightarrow> p2p_bitcoin \<Rightarrow> 'd \<Rightarrow> ('c, 'm) store \<Rightarrow> ('c, 'm) store list" where
  "bitcoin_progress N fuel R P ch s =
     unwind_progress (nc_crates N) (nc_wallet N) (chaindb_trunk (view (nc_chain N) ch)) (view (nc_chain N) ch) fuel s
     @ (case bitcoin_network_start (nc_crates N) (nc_wallet N) (nc_chain N) (nc_lru N) (sr_dns_seed R) (sr_r0 R) (sr_r1 R)
               (sr_now R) fuel P ch s of
          Some (Ok (s', bd :: unit block_download, _)) \<Rightarrow> [s']
        | _ \<Rightarrow> [])"

text \<open>
  What is on the disk after each transaction of the start, as far as it gets: the accounts of a new wallet, the
  configuration file, the rescan, and those of the Bitcoin network. The seeds of the other network are the last, and
  in the node.
\<close>

definition start_disks ::
  "('p, 'k, 'c, 'm, 'u, 'd, 'l) node_crates \<Rightarrow> 'm start_crates \<Rightarrow> ('n, 'm, 'w, 'a) dialogue_crates \<Rightarrow> nat \<Rightarrow> surroundings
   \<Rightarrow> settings \<Rightarrow> 'd \<Rightarrow> string option \<times> db \<Rightarrow> (string option \<times> db) list" where
  "start_disks N X Y fuel R S ch disk =
     (let C = nc_crates N; W = nc_wallet N in
      (case main_wallet X Y C W (set_network S) (sr_entropy R) (sr_now R) (sr_key R) (sr_typed R) (sr_answer R) disk of
         Ok (cfg, w, file, d) \<Rightarrow>
           [(fst disk, d), (file, d),
            (file, if do_rescan S then fst (main_rescan C W (cfg_birth cfg) (sr_trunk_rev R) d w) else d)]
           @ (case main_store C W cfg (limit_gb S) (do_rescan S) (sr_trunk_rev R) d w of
                Ok s \<Rightarrow> map (\<lambda>s. (file, sdb s)) (bitcoin_progress N fuel R (main_p2p_bitcoin S cfg) ch s)
              | _ \<Rightarrow> [])
       | _ \<Rightarrow> []))"

text \<open>The stores after each transaction of a handler that has several.\<close>

fun event_progress ::
  "('p, 'k, 'c, 'm, 'u, 'd, 'l) node_crates \<Rightarrow> ('i, 'j, 'p, 'k) node_event \<Rightarrow> ('i, 'j, 'c, 'm, 'd, 'l) node
   \<Rightarrow> ('c, 'm) store list" where
  "event_progress N (Updater_event (fuel, busy, now, ev)) n =
     (if n_updater n = None \<or> n_lost n then []
      else loop_progress (nc_crates N) (chaindb_trunk (view (nc_chain N) (n_chain n))) busy ev (n_store n))"
| "event_progress N (Download_event Act) n =
     (case n_download n of
        Some (bd, a # acts) \<Rightarrow>
          if n_lost n then []
          else driver_progress (nc_crates N) (nc_wallet N) (chaindb_trunk (view (nc_chain N) (n_chain n))) a (n_store n)
      | _ \<Rightarrow> [])"
| "event_progress N _ n = []"

section \<open>Lives\<close>

text \<open>
  A life ends within the start, after some transactions, or after it has handled some events and some transactions of
  another one. It begins with what the surroundings and the settings are then, and with the chain of headers.
\<close>

datatype ('i, 'j, 'p, 'k, 'd) life =
    Ends_in_start nat surroundings settings 'd nat
  | Ends_in_run nat surroundings settings 'd "('i, 'j, 'p, 'k) node_event list" "('i, 'j, 'p, 'k) node_event" nat

fun after_life ::
  "('p, 'k, 'c, 'm, 'u, 'd, 'l) node_crates \<Rightarrow> 'm start_crates \<Rightarrow> ('n, 'm, 'w, 'a) dialogue_crates
   \<Rightarrow> ('i, 'j, 'p, 'k, 'd) life \<Rightarrow> string option \<times> db \<Rightarrow> string option \<times> db" where
  "after_life N X Y (Ends_in_start fuel R S ch k) disk = last (disk # take k (start_disks N X Y fuel R S ch disk))"
| "after_life N X Y (Ends_in_run fuel R S ch es e k) disk =
     (case main_node N X Y fuel R S ch disk of
        Some (Ok (cfg, file, n :: ('i, 'j, 'c, 'm, 'd, 'l) node, _)) \<Rightarrow>
          (case node_run N es n of (n', _) \<Rightarrow> (file, sdb (last (n_store n' # take k (event_progress N e n')))))
      | _ \<Rightarrow> last (disk # start_disks N X Y fuel R S ch disk))"

definition seeds_wf :: "surroundings \<Rightarrow> settings \<Rightarrow> bool" where
  "seeds_wf R S \<longleftrightarrow> list_all socket_wf (sr_dns_seed R (set_network S))"

fun life_wf :: "('i, 'j, 'p, 'k, 'd) life \<Rightarrow> bool" where
  "life_wf (Ends_in_start fuel R S ch k) = seeds_wf R S"
| "life_wf (Ends_in_run fuel R S ch es e k) = (seeds_wf R S \<and> list_all node_event_wf (e # es))"

definition disk_ok :: "('p, 'k) crates \<Rightarrow> string option \<times> db \<Rightarrow> bool" where
  "disk_ok C disk \<longleftrightarrow> db_ok C (snd disk) \<and> addresses_ok (hashing C) (snd disk)"

section \<open>The disk is in order\<close>

lemma disk_ok_shared: "shared_ok C s \<Longrightarrow> disk_ok C (conf, sdb s)"
  by (simp add: disk_ok_def shared_ok_def)

lemma disk_ok_frame:
  "content_tbl d' = content_tbl d \<Longrightarrow> same_addresses d' d \<Longrightarrow> disk_ok C (conf, d) \<Longrightarrow> disk_ok C (conf', d')"
  by (auto simp: disk_ok_def db_ok_def intro: same_addresses_ok)

lemma unwind_progress_moves:
  assumes "t \<in> set (unwind_progress C W T D fuel s)"
  shows "(node_move C W)\<^sup>*\<^sup>* s t"
proof -
  obtain hs where "t \<in> set (progress (\<lambda>h. driver C W T (Block_disconnected h :: unit net_action)) hs s)"
    using assms
    by (auto simp: unwind_progress_def simp del: driver.simps split: outcome.splits option.splits dest!: sym [of "Some _"])
  then show ?thesis by (rule progress_reached) (rule driver_moves)
qed

lemma event_progress_moves:
  assumes "t \<in> set (event_progress N e n)"
  shows "(node_move (nc_crates N) (nc_wallet N))\<^sup>*\<^sup>* (n_store n) t"
  using assms
  by (cases "(N, e, n)" rule: event_progress.cases)
    (auto intro: loop_progress_moves driver_progress_moves split: if_splits option.splits list.splits)

lemma bitcoin_progress_ok:
  assumes "crates_ok (nc_crates N)" and "shared_ok (nc_crates N) s" and "seeds_wf R S"
    and "t \<in> set (bitcoin_progress N fuel R (main_p2p_bitcoin S cfg) ch s)"
  shows "shared_ok (nc_crates N) t"
proof -
  let ?C = "nc_crates N" and ?D = "view (nc_chain N) ch"
  consider "t \<in> set (unwind_progress ?C (nc_wallet N) (chaindb_trunk ?D) ?D fuel s)"
    | bd l pool keep peers where "bitcoin_network_start ?C (nc_wallet N) (nc_chain N) (nc_lru N) (sr_dns_seed R) (sr_r0 R)
        (sr_r1 R) (sr_now R) fuel (main_p2p_bitcoin S cfg) ch s = Some (Ok (t, bd :: unit block_download, l, pool, keep, peers))"
    using assms(4) by (auto simp: bitcoin_progress_def split: option.splits outcome.splits prod.splits) metis
  then show ?thesis
  proof cases
    case 1
    then show ?thesis by (rule node_moves_ok [OF unwind_progress_moves assms(1,2)])
  next
    case 2
    from bitcoin_network_start_ok [OF this assms(1,2)] assms(3) show ?thesis
      by (simp add: main_p2p_bitcoin_def seeds_wf_def list_all_iff)
  qed
qed

lemma start_disks_ok:
  assumes "crates_ok (nc_crates N)" and "disk_ok (nc_crates N) disk" and "seeds_wf R S"
    and "x \<in> set (start_disks N X Y fuel R S ch disk)"
  shows "disk_ok (nc_crates N) x"
proof -
  let ?C = "nc_crates N" and ?W = "nc_wallet N"
  obtain conf0 d0 where disk: "disk = (conf0, d0)" by (cases disk)
  obtain cfg w conf d where w: "main_wallet X Y ?C ?W (set_network S) (sr_entropy R) (sr_now R) (sr_key R) (sr_typed R)
      (sr_answer R) (conf0, d0) = Ok (cfg, w, conf, d)"
    using assms(4)
    by (cases "main_wallet X Y ?C ?W (set_network S) (sr_entropy R) (sr_now R) (sr_key R) (sr_typed R) (sr_answer R) (conf0, d0)")
      (auto simp: start_disks_def Let_def disk)
  let ?r = "fst (main_rescan ?C ?W (cfg_birth cfg) (sr_trunk_rev R) d w)"
  let ?m = "main_store ?C ?W cfg (limit_gb S) (do_rescan S) (sr_trunk_rev R) d w"
  have d: "disk_ok ?C (f, d)" for f
    using main_wallet_frame [OF w] assms(2) disk_ok_frame by (auto simp: disk)
  have r: "disk_ok ?C (conf, ?r)"
    by (rule disk_ok_frame [OF _ _ d])
      (simp_all add: main_rescan_def rescan_def same_addresses_def split: option.splits)
  have s: "disk_ok ?C (conf, sdb t)"
    if "?m = Ok s" "t \<in> set (bitcoin_progress N fuel R (main_p2p_bitcoin S cfg) ch s)" for s t
    using bitcoin_progress_ok [OF assms(1) _ assms(3) that(2)] main_store_ok [OF w that(1)] assms(2)
    by (simp add: disk_ok_def disk shared_ok_def)
  show ?thesis
    using assms(4) d r s by (cases ?m) (auto simp: start_disks_def Let_def disk w split: if_splits)
qed

lemma last_take_in: "last (x # take k xs) = x \<or> last (x # take k xs) \<in> set xs"
  using last_in_set [of "take k xs"] in_set_takeD [of _ k xs] by (cases "take k xs = []") auto

lemma started_node_ok:
  assumes "main_node N X Y fuel R S ch disk
      = Some (Ok (cfg, conf', n :: ('i, 'j, 'c, 'm, 'd, 'l) node, r))"
    and "crates_ok (nc_crates N)" and "disk_ok (nc_crates N) disk" and "seeds_wf R S"
  shows "node_ok (nc_crates N) n"
proof -
  obtain listen bo out conf d where "r = (listen, bo, out)" "disk = (conf, d)" by (cases r; cases disk) auto
  with assms show ?thesis
    by (intro main_node_ok [of N X Y fuel R S ch conf d]) (auto simp: disk_ok_def seeds_wf_def list_all_iff)
qed

lemma run_disk_ok:
  assumes "crates_ok (nc_crates N)" and "node_ok (nc_crates N) n" and "list_all node_event_wf es"
  shows "disk_ok (nc_crates N) (conf, sdb (last (n_store (fst (node_run N es n))
    # take k (event_progress N e (fst (node_run N es n))))))"
proof -
  let ?n = "fst (node_run N es n)"
  have "shared_ok (nc_crates N) (n_store ?n)"
    using node_run_ok [OF assms(1,2)] assms(3) by (simp add: node_ok_def list_all_iff)
  then show ?thesis
    using last_take_in [of "n_store ?n" k "event_progress N e ?n"] node_moves_ok [OF event_progress_moves assms(1)]
    by (metis disk_ok_shared)
qed

lemma after_life_ok:
  fixes l :: "('i, 'j, 'p, 'k, 'd) life" and N :: "('p, 'k, 'c, 'm, 'u, 'd, 'l) node_crates"
  assumes "crates_ok (nc_crates N)" and "disk_ok (nc_crates N) disk" and "life_wf l"
  shows "disk_ok (nc_crates N) (after_life N X Y l disk)"
proof (cases l)
  case (Ends_in_start fuel R S ch k)
  then have wf: "seeds_wf R S" using assms(3) by simp
  from last_take_in [of disk k "start_disks N X Y fuel R S ch disk"]
  show ?thesis unfolding Ends_in_start after_life.simps
    by (elim disjE) (simp only: assms(2), rule start_disks_ok [OF assms(1,2) wf])
next
  case (Ends_in_run fuel R S ch es e k)
  then have wf: "seeds_wf R S" "list_all node_event_wf es" using assms(3) by simp_all
  have "disk_ok (nc_crates N) (last (disk # start_disks N X Y fuel R S ch disk))"
    using assms(2) start_disks_ok [OF assms(1,2) wf(1) last_in_set, of X Y fuel ch] by simp
  moreover have "disk_ok (nc_crates N) (conf, sdb (last (n_store (fst (node_run N es n))
      # take k (event_progress N e (fst (node_run N es n))))))"
    if "main_node N X Y fuel R S ch disk = Some (Ok (cfg, conf, n :: ('i, 'j, 'c, 'm, 'd, 'l) node, r))" for cfg conf n r
    by (rule run_disk_ok [OF assms(1) started_node_ok [OF that assms(1,2) wf(1)] wf(2)])
  ultimately show ?thesis
    by (simp add: Ends_in_run case_prod_unfold del: last.simps split: option.split outcome.split)
qed

lemma after_lives_ok:
  assumes "crates_ok (nc_crates N)" and "disk_ok (nc_crates N) disk" and "\<forall>l \<in> set ls. life_wf l"
  shows "disk_ok (nc_crates N) (fold (after_life N X Y) ls disk)"
  using assms(2,3) by (induction ls arbitrary: disk) (simp_all add: after_life_ok [OF assms(1)])

text \<open>
  C2. The invariant of the program, over all its lives. Start it on a database in order and let it end at any
  moment, between two events or between two transactions, of the start or of a handler, any number of times: the
  disk stays in order. And in every state that the node reaches when it is started once more, for the first
  time or again, with a rescan or without, whatever peers of both networks send, blocks arrive and clients
  ask, in every interleaving of the threads, content identifiers are unique digests and the stored proofs and keys can be
  read, every address is in the slot of its hash and no slot is taken twice, so that a network
  never has more than ten thousand rows.
\<close>

theorem program_invariant:
  fixes n n' :: "('i, 'j, 'c, 'm, 'd, 'l) node" and lives :: "('i, 'j, 'p, 'k, 'd) life list"
  assumes "crates_ok (nc_crates N)" and "db_ok (nc_crates N) d0" and "addresses_ok (hashing (nc_crates N)) d0"
    and "\<forall>l \<in> set lives. life_wf l" and "fold (after_life N X Y) lives (conf0, d0) = (conf, d)"
    and "seeds_wf R S" and "main_node N X Y fuel R S ch (conf, d) = Some (Ok (cfg, conf', n, listen, bitcoin_out, defiads_out))"
    and "\<forall>e \<in> set es. node_event_wf e" and "node_run N es n = (n', outs)"
  shows "db_ok (nc_crates N) d \<and> addresses_ok (hashing (nc_crates N)) d
    \<and> db_ok (nc_crates N) (sdb (n_store n')) \<and> addresses_ok (hashing (nc_crates N)) (sdb (n_store n'))
    \<and> length (filter (\<lambda>r. adr_network r = network) (address_tbl (sdb (n_store n')))) \<le> 10000"
proof -
  have disk: "disk_ok (nc_crates N) (conf, d)"
    unfolding assms(5) [symmetric] by (rule after_lives_ok [OF assms(1) _ assms(4)]) (simp add: disk_ok_def assms(2,3))
  have "node_ok (nc_crates N) n" by (rule started_node_ok [OF assms(7,1) disk assms(6)])
  then have "shared_ok (nc_crates N) (n_store n')"
    using node_run_ok [OF assms(1) _ assms(8)] assms(9) by (fastforce simp: node_ok_def)
  with disk show ?thesis by (auto simp: shared_ok_def disk_ok_def intro: addresses_ok_bounded)
qed

section \<open>A publication that is lost\<close>

lemma blocks_above_not: "stop_at \<notin> fst ` set (blocks_above C stop_at b hs)"
  by (auto simp: blocks_above_def dest: set_takeWhileD)

text \<open>
  C35. A publication can be lost. When a block arrives that confirms an ad of ours, the block is marked as
  processed in a transaction of its own, before the ad is stored. If the process ends between the two, the ad is
  not among the content on the disk, and the restarted node does not want the block again: the ad that
  was paid for is never published, though the same block would have published it.
\<close>

theorem crash_loses_publication:
  fixes s :: "('c, 'm) store"
  assumes "crates_ok C" and "tx_codec_ok C" and "store_ok C s" and "valid_str str"
    and "read_unconfirmed C (sdb s) = Ok []"
    and "store_prepare C cat abstr str s = Ok (i, s1)"
    and "store_fund C W rnd fuel T i term amount fee pass s1 = Some (Ok (t, pk, f), s2)"
    and "find (\<lambda>n. txid C (txdata b ! n) = txid C t) [0..<length (txdata b)] = Some tix"
    and "\<lparr>digest = ad_digest C (ad_new C cat abstr str)\<rparr> \<notin> set (content_keys C (sdb s))"
    and "wallet_process W b (swallet s2) = (changed, w)"
    and "(if changed then store_coins C W (coins w) (sdb s2) else Ok (sdb s2)) = Ok d"
    and "trunk_headers C D (h # hs)" and "x \<in> set (h # hs)" and "chash C x = header_hash C (header b)"
    and "length (chash C x) = DIGEST_LEN" and "born < ucast (hd_time (stored_header h))" and "length hs + 2 \<le> fuel'"
  shows "\<exists>s3 rest bd. block_progress C W T' b s2 = s3 # rest
    \<and> newly_confirmed C b (sdb s2) = Ok [(tix, pk, ad_digest C (ad_new C cat abstr str), Some (ad_new C cat abstr str), term)]
    \<and> \<lparr>digest = ad_digest C (ad_new C cat abstr str)\<rparr> \<notin> set (content_keys C (sdb s3))
    \<and> (\<forall>s4 :: ('c, 'm) store. sdb s4 = sdb s3 \<longrightarrow>
          bitcoin_start C W' T'' D fuel' born s4 = Some (Ok (set_tx_sender s4, bd :: 'i block_download)))
    \<and> header_hash C (header b) \<notin> fst ` set (blocks_asked bd @ blocks_wanted bd)"
proof -
  let ?s3 = "s2\<lparr>swallet := w, sdb := store_processed C (header_hash C (header b)) d\<rparr>"
  note fu = funded_unconfirmed [OF assms(1,2,4-7)]
  have conf: "newly_confirmed C b (sdb s2) = Ok [(tix, pk, i, Some (ad_new C cat abstr str), term)]"
    by (rule newly_confirmed_single [OF fu(2,3) assms(8)])
  then have t: "block_transaction C W b s2 = Ok ([(tix, pk, i, Some (ad_new C cat abstr str), term)], ?s3)"
    using assms(10,11) by (simp add: block_transaction_def)
  have "same_content ?s3 s2" by (rule block_transaction_content [OF t])
  with store_prepare_content [OF assms(6)] store_fund_content [OF assms(7)]
  have "content_keys C (sdb ?s3) = content_keys C (sdb s)" by (simp add: same_content_def content_keys_def)
  moreover have "processed_tbl (sdb s4) = Some (sha256d_to_hex C (chash C x))" if "sdb s4 = sdb ?s3" for s4 :: "('c, 'm) store"
    using that by (simp add: store_processed_def assms(14))
  note restart_after_processed [OF assms(1) this assms(15,12,13,16,17), where ?'i = 'i]
  ultimately show ?thesis
    using t conf assms(9) fu(1) blocks_above_not [of "chash C x" C born "h # hs"]
    by (intro exI [of _ ?s3] exI conjI) (auto simp: block_progress_def assms(14))
qed

end
