(* ===== verification/Start_Examples.thy ===== *)
theory Start_Examples
  imports Run_Examples Lives
begin

text \<open>
  The small world from its first day: the options, the dialogue that creates a wallet, the first and the second start,
  and a run of the started program.
\<close>

section \<open>The options\<close>

text \<open>The defaults, but for a network of ads that is given by two peers.\<close>

definition demo_matches :: arg_matches where
  "demo_matches = default_matches(''defiads-discovery'' \<mapsto> [''off''], ''defiads-peers'' \<mapsto> [''a'', ''b''])"

lemma demo_matches_values:
  "value_of demo_matches ''storage-limit'' = Some ''1''" "value_of demo_matches ''defiads-connections'' = Some ''5''"
  "value_of demo_matches ''bitcoin-connections'' = Some ''5''" "value_of demo_matches ''bitcoin-discovery'' = Some ''ON''"
  "value_of demo_matches ''defiads-discovery'' = Some ''off''" "values_of demo_matches ''defiads-peers'' = [''a'', ''b'']"
  "demo_matches ''rescan'' = None"
  by (simp_all add: value_of_def values_of_def demo_matches_def default_matches_def main_args_def Let_def)

lemma demo_cases:
  "eq_ignore_ascii_case ''off'' ''OFF''" "eq_ignore_ascii_case s s" "\<not> eq_ignore_ascii_case ''off'' ''ON''"
  by code_simp (simp add: eq_ignore_ascii_case_def, code_simp)

lemma demo_matches_ok: "matches_ok demo_matches"
  by (simp add: matches_ok_def demo_matches_def default_matches_def main_args_def Let_def demo_cases)

lemma main_settings_total_example:
  "\<exists>S. main_settings (\<lambda>_. Some Testnet) (\<lambda>_. Some peer_a) demo_matches = Ok S
    \<and> bitcoin_discovery S = True \<and> biadnet_discovery S = False \<and> biadnet_connections S = length (biadnet_peers S)"
proof -
  have "\<exists>S. main_settings (\<lambda>_. Some Testnet) (\<lambda>_. Some peer_a) demo_matches = Ok S
      \<and> (do_rescan S \<longleftrightarrow> demo_matches ''rescan'' \<noteq> None)
      \<and> bitcoin_discovery S = eq_ignore_ascii_case (the (value_of demo_matches ''bitcoin-discovery'')) ''ON''
      \<and> biadnet_discovery S = eq_ignore_ascii_case (the (value_of demo_matches ''defiads-discovery'')) ''ON''
      \<and> (\<not> bitcoin_discovery S \<longrightarrow> bitcoin_connections S = length (bitcoin_peers S))
      \<and> (\<not> biadnet_discovery S \<longrightarrow> biadnet_connections S = length (biadnet_peers S))"
    by (rule main_settings_total [OF demo_matches_ok])
      (simp_all add: demo_matches_values parse_u64_def parse_unsigned_def digit_def demo_cases)
  then show ?thesis by (auto simp: demo_matches_values demo_cases)
qed

section \<open>The first start and the second\<close>

definition demo_dialogue :: "(unit, unit, unit, unit) dialogue_crates" where
  "demo_dialogue = \<lparr>mnemonic_new = (\<lambda>_. Some ()), from_mnemonic = (\<lambda>_ _ _ _. Some ()), unlock_new = (\<lambda>_ _ _. Some ()),
     account_new = (\<lambda>_ _ _ _ _. Some ((), ())), add_account = (\<lambda>m _. m), key_address = (\<lambda>_ _ _. Some [6])\<rparr>"

abbreviation typed_line :: "string \<Rightarrow> rstring option" where
  "typed_line s \<equiv> Some (map of_char s @ [10])"

lemma demo_wallet_new:
  "wallet_new demo_dialogue start_wallet_crates Testnet [1] 50 (typed_line ''password'') (typed_line ''yes'')
   = Ok (new_wallet, (), [6])"
  by (simp add: wallet_new_def password_typed_def read_typed_def remove_eol_def utf8_char_def str_as_bytes_def
      demo_dialogue_def add_accounts_def wallet_accounts_def new_wallet_def start_wallet_crates_def demo_wallet_crates_def)

theorem wallet_new_confirmed_witness:
  "wallet_new demo_dialogue start_wallet_crates Testnet [1] 50 (typed_line ''password'') (typed_line ''yes'')
     = Ok (new_wallet, (), [6])
   \<and> (\<exists>password eol. typed_line ''password'' = Some (password @ [eol]) \<and> 8 \<le> length (str_as_bytes password))
   \<and> coins new_wallet = coins_new start_wallet_crates"
  using wallet_new_confirmed [OF demo_wallet_new] demo_wallet_new by (metis wallet.select_convs(1))

lemma demo_first_start:
  assumes "txout_tbl d0 = []" and "content_tbl d0 = []" and "processed_tbl d0 = None"
  shows "\<exists>d. main_wallet demo_start demo_dialogue C start_wallet_crates Testnet [1] 50 [107] (typed_line ''password'')
     (typed_line ''yes'') (None, d0) = Ok (start_config, new_wallet, Some '''', d)
    \<and> txout_tbl d = [] \<and> content_tbl d = [] \<and> processed_tbl d = None"
proof -
  have "\<exists>d. create_wallet demo_start C start_wallet_crates [107] new_wallet d0 = Ok (start_config, '''', d)
      \<and> txout_tbl d = [] \<and> content_tbl d = [] \<and> processed_tbl d = None"
    using assms
    by (simp add: create_wallet_def wallet_accessors demo_start_def start_config_def start_wallet_crates_def
        demo_wallet_crates_def new_wallet_def store_coins_def read_unconfirmed_def store_master_def
        store_account_def KEY_LOOK_AHEAD_def Let_def)
  then show ?thesis using demo_wallet_new by (auto simp: main_wallet_def)
qed

lemma db_empty_tables: "txout_tbl db_empty = []" "content_tbl db_empty = []" "processed_tbl db_empty = None"
  by (simp_all add: db_empty_def)

theorem second_start_opens_witness:
  "\<exists>d. main_wallet demo_start demo_dialogue demo_crates start_wallet_crates Testnet [1] 50 [107] (typed_line ''password'')
      (typed_line ''yes'') (None, db_empty) = Ok (start_config, new_wallet, Some '''', d)
    \<and> main_wallet demo_start demo_dialogue demo_crates start_wallet_crates Testnet [2] 99 [108] None None (Some '''', d)
      = Ok (start_config, new_wallet, Some '''', d)"
proof -
  obtain d where d: "main_wallet demo_start demo_dialogue demo_crates start_wallet_crates Testnet [1] 50 [107]
      (typed_line ''password'') (typed_line ''yes'') (None, db_empty) = Ok (start_config, new_wallet, Some '''', d)"
    using demo_first_start [OF db_empty_tables] by blast
  have "main_wallet demo_start demo_dialogue demo_crates start_wallet_crates Testnet [2] 99 [108] None None (Some '''', d)
      = Ok (start_config, new_wallet, Some '''', d)"
    by (rule second_start_opens [OF _ _ _ _ _ d])
      (use demo_coins_ok(2) in \<open>auto simp: hex_ok_def start_wallet_crates_def demo_wallet_crates_def demo_start_def
        master_restorable_def db_empty_def\<close>)
  with d show ?thesis by blast
qed

section \<open>The program\<close>

definition demo_program :: "(unit, unit, (out_point \<times> coin) list, unit, unit, demo_cache, list_cache) node_crates" where
  "demo_program = \<lparr>nc_crates = chain_crates, nc_wallet = start_wallet_crates, nc_chain = demo_chain, nc_lru = list_lru,
     nc_api = demo_api, nc_http_goes_on = True\<rparr>"

definition demo_settings :: settings where
  "demo_settings = \<lparr>set_network = Testnet, biadnet_connections = 5, bitcoin_connections = 5, biadnet_peers = [],
     bitcoin_peers = [], bitcoin_discovery = True, biadnet_discovery = True, http_rpc = None, biadnet_listen = [],
     limit_gb = 1, do_rescan = False\<rparr>"

definition demo_surroundings :: surroundings where
  "demo_surroundings = \<lparr>sr_entropy = [1], sr_key = [107], sr_typed = typed_line ''password'', sr_answer = typed_line ''yes'',
     sr_clock = 50 * 10 ^ 9, sr_r0 = 0, sr_r1 = 0, sr_lookup = (\<lambda>_ _. None), sr_dns_seed = (\<lambda>_. [peer_a]),
     sr_trunk_rev = [h2, h1, h0]\<rparr>"

lemma demo_bitcoin_start:
  assumes "processed_tbl (sdb s) = None"
  shows "\<exists>bd :: nat block_download. bitcoin_start chain_crates start_wallet_crates T
     (demo_view ([h2, h1, h0], [h2, h1, h0])) 4 50 s = Some (Ok (set_tx_sender s, bd))"
proof -
  have "read_processed chain_crates (sdb s) = Ok None" using assms by (simp add: read_processed_def)
  moreover have "(50 :: u64) < ucast (hd_time (stored_header h2))" by (simp add: h2_def)
  ultimately show ?thesis
    using bitcoin_start_eq [of chain_crates s None "demo_view ([h2, h1, h0], [h2, h1, h0])" 4 "[]" start_wallet_crates T s 50,
        where ?'i = nat]
      block_download_new_ends [OF demo_trunk_headers(1), of 50 hash_default None 4, where ?'c = nat]
    by (simp add: disconnected_while_down_def)
qed

lemma demo_started:
  assumes "txout_tbl d0 = []" and "content_tbl d0 = []" and "processed_tbl d0 = None"
  shows "\<exists>n :: (nat, nat, (out_point \<times> coin) list, unit, demo_cache, list_cache) node.
     main_node demo_program demo_start demo_dialogue 4 demo_surroundings demo_settings ([h2, h1, h0], [h2, h1, h0]) (None, d0)
     = Some (Ok (start_config, Some '''', n, [], [], []))"
proof -
  obtain d where d: "main_wallet demo_start demo_dialogue chain_crates start_wallet_crates Testnet [1] 50 [107]
      (typed_line ''password'') (typed_line ''yes'') (None, d0) = Ok (start_config, new_wallet, Some '''', d)"
    "txout_tbl d = []" "content_tbl d = []" "processed_tbl d = None"
    using demo_first_start [OF assms] by blast
  then have "db_ok chain_crates d" by (simp add: db_ok_def)
  then obtain s where s: "main_store chain_crates start_wallet_crates start_config 1 False [h2, h1, h0] d new_wallet = Ok s"
    "sdb s = d"
    using compute_content_sketch_eq [OF chain_crates_ok] by (auto simp: main_store_def store_new_def)
  moreover have "view demo_chain ([h2, h1, h0], [h2, h1, h0]) = demo_view ([h2, h1, h0], [h2, h1, h0])"
    by (simp add: demo_chain_def)
  moreover obtain bd :: "nat block_download" where
    "bitcoin_start chain_crates start_wallet_crates (chaindb_trunk (demo_view ([h2, h1, h0], [h2, h1, h0])))
       (demo_view ([h2, h1, h0], [h2, h1, h0])) 4 50 s = Some (Ok (set_tx_sender s, bd))"
    using demo_bitcoin_start [of s] s(2) d(4) by auto
  moreover have "read_unconfirmed chain_crates (sdb (set_tx_sender s)) = Ok []"
    by (simp add: read_unconfirmed_def set_tx_sender_def s(2) d(2))
  ultimately show ?thesis
    using d(1) s(1)
    by (simp add: main_node_def demo_program_def demo_settings_def demo_surroundings_def sr_now_def as_secs_def
        bitcoin_network_start_def biadnet_network_start_def main_p2p_bitcoin_def main_p2p_biadnet_def sendtx_new_def
        own_unconfirmed_def start_config_def Let_def)
qed

text \<open>The first life ends when the accounts are stored and the configuration file is not written yet.\<close>

definition short_life :: "(nat, nat, unit, unit, demo_cache) life" where
  "short_life = Ends_in_start 4 demo_surroundings demo_settings ([h2, h1, h0], [h2, h1, h0]) 1"

lemma short_life_disk:
  "\<exists>d. after_life demo_program demo_start demo_dialogue short_life (None, db_empty) = (None, d)
    \<and> txout_tbl d = [] \<and> content_tbl d = [] \<and> processed_tbl d = None"
proof -
  obtain d where "main_wallet demo_start demo_dialogue chain_crates start_wallet_crates Testnet [1] 50 [107]
      (typed_line ''password'') (typed_line ''yes'') (None, db_empty) = Ok (start_config, new_wallet, Some '''', d)"
    "txout_tbl d = []" "content_tbl d = []" "processed_tbl d = None"
    using demo_first_start [OF db_empty_tables] by blast
  then show ?thesis
    by (simp add: short_life_def start_disks_def demo_program_def demo_settings_def demo_surroundings_def sr_now_def
        as_secs_def Let_def)
qed

theorem program_invariant_witness:
  "\<exists>d (n :: (nat, nat, (out_point \<times> coin) list, unit, demo_cache, list_cache) node) n' outs.
     fold (after_life demo_program demo_start demo_dialogue) [short_life] (None, db_empty) = (None, d)
   \<and> main_node demo_program demo_start demo_dialogue 4 demo_surroundings demo_settings ([h2, h1, h0], [h2, h1, h0]) (None, d)
       = Some (Ok (start_config, Some '''', n, [], [], []))
   \<and> node_run demo_program solo_events n = (n', outs)
   \<and> db_ok chain_crates d \<and> db_ok chain_crates (sdb (n_store n')) \<and> addresses_ok demo_hash (sdb (n_store n'))
   \<and> length (filter (\<lambda>r. adr_network r = ''defiads'') (address_tbl (sdb (n_store n')))) \<le> 10000"
proof -
  obtain d where d: "fold (after_life demo_program demo_start demo_dialogue) [short_life] (None, db_empty) = (None, d)"
    "txout_tbl d = []" "content_tbl d = []" "processed_tbl d = None"
    using short_life_disk by auto
  obtain n :: "(nat, nat, (out_point \<times> coin) list, unit, demo_cache, list_cache) node" where n:
    "main_node demo_program demo_start demo_dialogue 4 demo_surroundings demo_settings ([h2, h1, h0], [h2, h1, h0]) (None, d)
       = Some (Ok (start_config, Some '''', n, [], [], []))"
    using demo_started [OF d(2-4)] by blast
  obtain n' outs where r: "node_run demo_program solo_events n = (n', outs)" by (rule prod.exhaust)
  have ok: "crates_ok (nc_crates demo_program)" "db_ok (nc_crates demo_program) db_empty"
    by (simp_all add: demo_program_def chain_crates_ok db_ok_def db_empty_def)
  have seeds: "seeds_wf demo_surroundings demo_settings" by (simp add: seeds_wf_def demo_surroundings_def peer_a_def)
  then have life: "\<forall>l \<in> set [short_life]. life_wf l" by (simp add: short_life_def)
  from program_invariant [OF ok addresses_ok_empty life d(1) seeds n solo_events_wf r, of "''defiads''"] d(1) n r show ?thesis
    by (intro exI [of _ d] exI [of _ n] exI [of _ n'] exI [of _ outs])
      (simp add: demo_program_def chain_crates_def demo_hashing)
qed

section \<open>A lost publication\<close>

lemma solo_trunk: "trunk_headers pub_crates (view solo_chain ()) [solo]"
  by (simp add: trunk_headers_def solo_chain_def solo_def demo_header_def pub_crates_def demo_crates_def hash_default_def)

theorem crash_loses_publication_witness:
  "\<exists>i s1 t f s2 s3 rest (bd :: nat block_download). store_prepare pub_crates [] [] [65] (demo_open db_empty) = Ok (i, s1)
    \<and> fund_demo i s1 = Some (Ok (t, (), f), s2)
    \<and> block_progress pub_crates demo_wallet_crates demo_trunk \<lparr>header = demo_header, txdata = [t]\<rparr> s2 = s3 # rest
    \<and> \<lparr>digest = i\<rparr> \<notin> set (content_keys pub_crates (sdb s3))
    \<and> bitcoin_start pub_crates demo_wallet_crates demo_trunk (view solo_chain ()) 2 0 s3 = Some (Ok (set_tx_sender s3, bd))
    \<and> replicate 32 1 \<notin> fst ` set (blocks_asked bd @ blocks_wanted bd)"
proof -
  let ?s = "demo_open db_empty" and ?a = "ad_new pub_crates [] [] [65]"
  obtain d where p: "store_prepare pub_crates [] [] [65] ?s = Ok (ad_digest pub_crates ?a, ?s\<lparr>sdb := d\<rparr>)"
    using pub_prepare by blast
  obtain t f s2 where r: "fund_demo (ad_digest pub_crates ?a) (?s\<lparr>sdb := d\<rparr>) = Some (Ok (t, (), f), s2)"
    using fund_demo_ok [of "?s\<lparr>sdb := d\<rparr>" "ad_digest pub_crates ?a"] by (simp add: demo_open_wallet) blast
  let ?b = "\<lparr>header = demo_header, txdata = [t]\<rparr>"
  have "\<exists>s3 rest (bd :: nat block_download). block_progress pub_crates demo_wallet_crates demo_trunk ?b s2 = s3 # rest
    \<and> newly_confirmed pub_crates ?b (sdb s2) = Ok [(0, (), ad_digest pub_crates ?a, Some ?a, 5)]
    \<and> \<lparr>digest = ad_digest pub_crates ?a\<rparr> \<notin> set (content_keys pub_crates (sdb s3))
    \<and> (\<forall>s4 :: ((out_point \<times> coin) list, unit) store. sdb s4 = sdb s3 \<longrightarrow>
          bitcoin_start pub_crates demo_wallet_crates demo_trunk (view solo_chain ()) 2 0 s4 = Some (Ok (set_tx_sender s4, bd)))
    \<and> header_hash pub_crates (header ?b) \<notin> fst ` set (blocks_asked bd @ blocks_wanted bd)"
  proof (rule crash_loses_publication [OF pub_crates_ok pub_store_ok _ _ p r [unfolded fund_demo_def] _ _ _ _ solo_trunk,
        where changed = False and w = "swallet s2" and x = solo])
    show "valid_str [65]" by (simp add: valid_str_def scalar_def)
    show "read_unconfirmed pub_crates (sdb ?s) = Ok []"
      by (simp add: read_unconfirmed_def demo_open_def db_empty_def)
    show "\<lparr>digest = ad_digest pub_crates ?a\<rparr> \<notin> set (content_keys pub_crates (sdb ?s))"
      by (simp add: content_keys_def demo_open_def db_empty_def)
    show "wallet_process demo_wallet_crates ?b (swallet s2) = (False, swallet s2)"
      by (simp add: wallet_process_def demo_wallet_crates_def)
  qed (simp_all add: solo_def pub_crates_def demo_crates_def demo_header_def DIGEST_LEN_def)
  moreover have "header_hash pub_crates demo_header = replicate 32 1" by (simp add: pub_crates_def demo_crates_def)
  ultimately show ?thesis using p r by fastforce
qed

section \<open>Connections\<close>

definition quiet_network :: p2p_biadnet where
  "quiet_network = \<lparr>pd_connections = 5, pd_peers = [V4 10 0 0 2 21766], pd_listen = [], pd_discovery = True, pd_test = False\<rparr>"

definition one_poll :: poll_view where
  "one_poll = \<lparr>pv_now = 1000000, pv_sample = 0, pv_random = 0, pv_count = 1, pv_peers = [V4 10 0 0 3 21766],
     pv_db = book 7 8 0\<rparr>"

theorem keep_connected_once_witness:
  "\<exists>sd disc upd pool k listen connect. biadnet_network_start demo_hash (\<lambda>_ _. None) 0 0 1000000 0 quiet_network
       (demo_open db_empty) = (sd, disc :: (nat discovery \<times> nat) option, upd, pool, k, listen, connect)
    \<and> keep_connected_run ''defiads'' [one_poll] k ! 0 = Some peer_a
    \<and> peer_a \<notin> set connect \<and> connect \<noteq> [] \<and> peer_a \<notin> set (pv_peers one_poll)"
proof -
  let ?given = "map (peer_socket (pd_test quiet_network)) (pd_peers quiet_network)"
  obtain sd disc upd pool k listen connect where
    st: "biadnet_network_start demo_hash (\<lambda>_ _. None) 0 0 1000000 0 quiet_network (demo_open db_empty)
      = (sd, disc :: (nat discovery \<times> nat) option, upd, pool, k, listen, connect)"
    by (rule prod_cases7)
  then have k: "earlier k = set ?given" "min_connections k = 5"
    by (auto simp: biadnet_network_start_def quiet_network_def Let_def)
  have other: "peer_a \<notin> set ?given" by (simp add: quiet_network_def peer_a_def)
  have choice: "keep_connected_run ''defiads'' [one_poll] k ! 0 = Some peer_a"
    using k other
    by (simp add: one_poll_def keep_connected_poll_def get_an_address_def eligible_addresses_def book_eq book_row_def
        BAN_TIME_def Let_def peer_a_def)
  have "connect = ?given \<and> peer_a \<notin> set ?given
    \<and> (\<forall>i < 0. keep_connected_run ''defiads'' [one_poll] k ! i \<noteq> Some peer_a)
    \<and> (\<forall>i \<le> 0. pv_count ([one_poll] ! i) < pd_connections quiet_network \<longrightarrow> peer_a \<notin> set (pv_peers ([one_poll] ! i)))"
    by (rule keep_connected_once [OF disjI2 _ choice]) (use st in auto)
  with st choice show ?thesis
    by (intro exI [of _ sd] exI [of _ disc] exI [of _ upd] exI [of _ pool] exI [of _ k] exI [of _ listen] exI [of _ connect])
      (auto simp: one_poll_def quiet_network_def)
qed

end
