(* ===== verification/Spec2Isabelle.thy ===== *)
theory Spec2Isabelle
  imports Iblt_Sync Start_Examples
begin

text \<open>
  A verification of defiads, a node of an advertising network on top of Bitcoin. Ads are funded
  by transactions with outputs that are locked for a term; a node admits an ad as long as
  the chain proves that it is funded, ranks ads by the amount paid per byte, and exchanges them
  with its peers by comparing sketches and reconciling invertible Bloom lookup tables. The
  definitions are translations of the Rust sources below \<^verbatim>\<open>src/src\<close>; file names in this text
  are relative to that directory.

  \<^bold>\<open>Parts and how they interact.\<close> The content store (\<^verbatim>\<open>store.rs\<close>) owns the database (\<^verbatim>\<open>db.rs\<close>),
  the wallet (\<^verbatim>\<open>wallet.rs\<close>), the cached lookup tables and the sketch (\<^verbatim>\<open>iblt.rs\<close>). On the Bitcoin
  side the block download (\<^verbatim>\<open>blockdownload.rs\<close>) follows the header chain and tells the store, through
  the driver of \<^verbatim>\<open>p2p_bitcoin.rs\<close>, of headers and blocks that join or leave the trunk; the
  transaction sender (\<^verbatim>\<open>sendtx.rs\<close>) announces and serves the node's own transactions. On the
  other network the updater (\<^verbatim>\<open>updater.rs\<close>) exchanges content and the discovery
  (\<^verbatim>\<open>discovery.rs\<close>) addresses. The user speaks to the store through the JSON interface
  (\<^verbatim>\<open>api.rs\<close>); \<^verbatim>\<open>defiads/main.rs\<close> opens the wallet and starts all of it. Each of these is a thread with a
  state of its own; what they share is the store with its database.

  \<^bold>\<open>Conventions\<close> (\<open>Prelude\<close>). Machine integers are words of their width and arithmetic
  wraps, as in a release build. A computation that may fail has a value of type \<open>outcome\<close>: \<open>Ok\<close>, \<open>Err\<close> (a
  returned error) or \<open>Panic\<close> (an unwrap, an assertion, an index). State is passed explicitly; the tables
  of the database are lists of rows. The clock and random numbers are arguments. Functions of
  crates are fields of records (\<open>hash_crates\<close>, \<open>text_crates\<close>, \<open>crates\<close>, \<open>wallet_crates\<close>, \<open>chain_crate\<close>,
  \<open>lru_crate\<close>, \<open>api_crate\<close>, \<open>start_crates\<close>, \<open>dialogue_crates\<close>, \<open>wire_crate\<close>), and what their documentation promises is a
  named predicate (\<open>crates_ok\<close>, \<open>text_crates_ok\<close>, \<open>hex_ok\<close>, \<open>signing_ok\<close>, \<open>script_key_ok\<close>, \<open>proof_new_ok\<close>,
  \<open>tx_codec_ok\<close>, \<open>lru_ok\<close>, \<open>matches_ok\<close>) that a theorem assumes.
  The example theories give concrete functions that satisfy them.

  \<^bold>\<open>Lookup tables and sketches.\<close> \<open>Iblt_Key\<close> has the keys and the locale \<open>iblt_key\<close> of the laws of
  the key interface, interpreted for content keys there and for network addresses in
  \<open>Net_Address\<close>. \<open>Iblt\<close> models the table, the bucket iterator, insertion and deletion of \<^verbatim>\<open>iblt.rs\<close>, and
  shows that the iterator yields the distinct buckets of a key in order and that deletion undoes
  insertion. \<open>Iblt_Decode\<close> models subtraction and listing and shows what the listing of a difference finds, that
  it ends for tables that were filled honestly, and that it need not end for others. \<open>Iblt_Sync\<close> models the
  reconciliation of a set of keys and shows that it makes both sides equal. \<open>Iblt_Types\<close> shows that
  whatever a peer puts into a table, all operations keep its keys well typed. \<open>Sketch\<close>
  models the sketch and the estimate, with 32-bit floats as rounded rationals, and shows
  that keeping a sketch up to date is computing it anew.

  \<^bold>\<open>Content.\<close> \<open>Text_Codec\<close> models the encodings of \<^verbatim>\<open>text.rs\<close>, \<open>Content\<close> the ads of \<^verbatim>\<open>ad.rs\<close> and
  \<^verbatim>\<open>content.rs\<close>, the structures of Bitcoin and the trunk (\<^verbatim>\<open>trunk.rs\<close>). \<open>Database\<close>, \<open>Wallet_Db\<close> and
  \<open>Address_Book\<close> model \<^verbatim>\<open>db.rs\<close>; \<open>Content_Table\<close> has the specifications of the operations on content:
  truncation keeps the most valuable content, what is stored is read back. \<open>Wallet\<close>
  models \<^verbatim>\<open>wallet.rs\<close>: the fee loop ends, a withdrawal conserves value, and the coins survive a restart
  (\<open>Wallet_Db\<close>).

  \<^bold>\<open>Store.\<close> \<open>Store\<close> models every handler of \<^verbatim>\<open>store.rs\<close>. \<open>Store_Cache\<close> defines the consistency of tables, sketch and
  count with the database (\<open>store_ok\<close>) and the locale of the handlers that drop content,
  interpreted for expiry, unwinding and truncation; \<open>Store_Props\<close> has the behaviour of each
  handler. \<open>Store_Run\<close> is the state machine of the store: an inductive step relation, the invariant that
  holds on every run, the consistency of the caches on runs of careful steps, and how content that is admitted again
  breaks it. \<open>Publication\<close> follows an ad from its preparation through funding and confirmation to its delivery: the
  transaction the wallet builds pays the commitment the store looks for when the block arrives.

  \<^bold>\<open>Networks.\<close> \<open>Messages\<close> has the messages of \<^verbatim>\<open>messages.rs\<close>, \<open>Updater\<close> the handlers of \<^verbatim>\<open>updater.rs\<close>: a
  node asks exactly for content it lacks and serves what it holds; \<open>Sync_Round\<close> composes the handlers of two
  nodes into a round of synchronisation. \<open>Discovery\<close> models \<^verbatim>\<open>discovery.rs\<close> with
  the network addresses of \<open>Net_Address\<close> and shows which addresses of a peer are stored and how a peer lifts a ban,
  \<open>Address_Pool\<close> the recording of peers and the choice of connections in both adapters and how long a ban lasts, \<open>Biadnet\<close> the configuration and the encoding of \<^verbatim>\<open>p2p_defiads.rs\<close> and the
  seeds of \<^verbatim>\<open>find_peers.rs\<close>. \<open>Bitcoin_Net\<close> is the interface of the Bitcoin crates. \<open>Block_Download\<close> models
  \<^verbatim>\<open>blockdownload.rs\<close>, \<open>Block_Queue\<close> the abstract queue it refines and the order of delivery;
  \<open>Chain_Sync\<close> composes it with the store as \<^verbatim>\<open>p2p_bitcoin.rs\<close> does and shows what a node downloads
  after a restart. \<open>Resume\<close> states the contract of the downstream as a locale, interpreted for the driver of the
  store, and shows that a node resumes where it stopped. \<open>Send_Tx\<close> models \<^verbatim>\<open>sendtx.rs\<close>: over every run of the
  sender its cache holds transactions under their hashes, and own transactions are served from it or from the database.

  \<^bold>\<open>Threads.\<close> \<open>Thread\<close> states the contract of a thread as a locale: on events of the right type it keeps its own
  state in order and moves what is shared by moves the others can rely on; a reader of the shared
  state is a thread by a sublocale. A thread behind a lock extends the contract: only a handler that takes the lock
  for writing changes what is shared, one that panics or does not return loses the lock, and what it leaves it was moved
  to. \<open>Commits\<close> lists the transactions of the handlers that have several. \<open>Shared_Store\<close> has the moves, a step of the
  store, the first transaction of a block, or the storing of an address, and the invariant they keep. The locales are
  interpreted for the nine threads: the address pools and the tasks that keep connected (\<open>Address_Events\<close>), the loops
  of the updater and of discovery (\<open>Peer_Threads\<close>), the block download, the transaction sender and the
  interface (\<open>Node_Threads\<close>). \<open>Node\<close> composes them: a run is a list of events, each for one thread, in any order; the
  block download calls the driver in separate steps, since it takes the lock for every call. The node refines the
  machine of the store, what it asks its peers for is well typed, and one malformed answer of a peer loses the lock
  of the store and ends the exchange of content for good.
  A rogue table of addresses stops discovery.

  \<^bold>\<open>User's side.\<close> \<open>Api\<close> models \<^verbatim>\<open>api.rs\<close>: no request without the key has an effect, and every request is a
  step of the store's state machine. \<open>Options\<close> models the command line of \<^verbatim>\<open>defiads/main.rs\<close>, \<open>Startup\<close> the
  wallet of a later start and the rescan, \<open>Wallet_New\<close> the dialogue that creates a wallet and the first
  start; a wallet is opened as it was created. \<open>Main_Program\<close> models the start of both networks and the main
  program, from the settings and the disk to the node, and shows that no address is tried twice. \<open>Lives\<close> lets the program end at any moment, also between two
  transactions, and start again on what is on the disk, and has the invariant of the whole program: started on a database in order, it
  stays in order over all its lives, whatever happens; and it shows that a publication is lost if the process
  ends between two transactions of a block.

  \<^bold>\<open>Examples.\<close> \<open>Iblt_Examples\<close>, \<open>Store_Examples\<close>, \<open>Net_Examples\<close>, \<open>Node_Examples\<close>, \<open>Run_Examples\<close> and
  \<open>Start_Examples\<close> apply the theorems at concrete inputs.

  \<^bold>\<open>Loops and fuel.\<close> The bucket iterator, the loop of received headers, the address table size and
  the content table size are total functions. The reader of 16-bit units takes one more than
  the number of bytes as fuel. A listing takes a number of entries: the sum of the sizes of both sets
  plus two is enough for honest tables. The fee loop needs two rounds, the loop that chooses the
  blocks wanted at the start the length of the trunk plus one. Each of these bounds is a theorem; a loop that
  does not end within its fuel is \<open>None\<close>.

  \<^bold>\<open>Not modelled.\<close> The crates: sockets, futures, channels, the dispatcher, the handshakes, pings and the timeout
  book-keeping of \<^verbatim>\<open>murmel\<close> (what they hand to a thread is its event, what a thread hands to
  them is its output), the HTTP server, the parser of the command line, the SQL engine and its errors.
  Of the locks, that of the store is modelled, with its loss by a panic. Those of the database, of the header chain and of the timeout
  book-keeping are not: a handler is an atomic step, and where the code of another thread would find one of these locks poisoned
  and stop, the thread of the model goes on, so that it has more runs than the program and every invariant holds for
  both. Requests of clients before the start is complete, a header chain that breaks its own contract and stops the download
  in the middle of a message, and a configuration file that is written in part. What the program prints and logs, the work directory, and the unit tests.
\<close>

end
